(* ===== verification/Prelude.thy ===== *)
theory Prelude
  imports Main "HOL-Library.Word" "HOL-Library.List_Lexorder" "HOL-Library.Char_ord"
begin

text \<open>
  Shared vocabulary of the development: the result type of fallible Go functions, Go's
  fixed-width integers, byte strings, and the generic lemmas and collections of rewrite rules
  that the component theories use. A Go \<open>string\<close> or \<open>[]byte\<close> is a HOL \<open>string\<close>: a list
  of \<open>char\<close>, and a \<open>char\<close> is exactly one byte.
\<close>

section \<open>Collections of rewrite rules\<close>

text \<open>
  \<open>decode_simps\<close> finds the field of a struct that a JSON member is decoded into; \<open>concrete_run\<close>
  evaluates the handling of a concrete CONNECT request.
\<close>

named_theorems decode_simps
named_theorems concrete_run

section \<open>Results and errors\<close>

text \<open>A Go function returning \<open>(T, error)\<close>: \<open>Inl\<close> carries the error, \<open>Inr\<close> the value.\<close>

type_synonym ('e, 'a) result = "'e + 'a"

fun rbind :: "('e, 'a) result \<Rightarrow> ('a \<Rightarrow> ('e, 'b) result) \<Rightarrow> ('e, 'b) result" where
  "rbind (Inl e) f = Inl e"
| "rbind (Inr a) f = f a"

lemma rbind_cong [fundef_cong]:
  "r = r' \<Longrightarrow> (\<And>a. r' = Inr a \<Longrightarrow> f a = g a) \<Longrightarrow> rbind r f = rbind r' g"
  by (cases r) auto

lemma rbind_eq_Inr: "rbind r f = Inr b \<longleftrightarrow> (\<exists>a. r = Inr a \<and> f a = Inr b)"
  by (cases r) auto

lemma rbind_assoc: "rbind (rbind r f) g = rbind r (\<lambda>a. rbind (f a) g)"
  by (cases r) auto

lemma rbind_Inr_right [simp]: "rbind r Inr = r"
  by (cases r) auto

text \<open>A fallible map over a slice: the first error stops it.\<close>

fun rmap :: "('a \<Rightarrow> ('e, 'b) result) \<Rightarrow> 'a list \<Rightarrow> ('e, 'b list) result" where
  "rmap f [] = Inr []"
| "rmap f (x # xs) = rbind (f x) (\<lambda>y. rbind (rmap f xs) (\<lambda>ys. Inr (y # ys)))"

lemma rmap_cong [fundef_cong]:
  "xs = ys \<Longrightarrow> (\<And>x. x \<in> set ys \<Longrightarrow> f x = g x) \<Longrightarrow> rmap f xs = rmap g ys"
proof (induction xs arbitrary: ys)
  case (Cons x xs)
  then show ?case by (cases ys) auto
qed simp

lemma rmap_Inr_iff: "rmap f xs = Inr ys \<longleftrightarrow> list_all2 (\<lambda>x y. f x = Inr y) xs ys"
proof (induction xs arbitrary: ys)
  case (Cons x xs)
  show ?case by (cases ys) (auto simp: rbind_eq_Inr Cons)
qed auto

section \<open>Machine integers\<close>

text \<open>Go's \<open>int64\<close>, and \<open>int\<close> on the 64-bit platforms the image is built for.\<close>

type_synonym int64 = "64 word"

definition int64_min :: int where
  "int64_min = - (2 ^ 63)"

definition int64_max :: int where
  "int64_max = 2 ^ 63 - 1"

lemma sint_int64_range: "int64_min \<le> sint (w :: int64)" "sint (w :: int64) \<le> int64_max"
  using sint_range_size [of w] by (simp_all add: int64_min_def int64_max_def word_size)

lemma sint_of_int_int64:
  "int64_min \<le> k \<Longrightarrow> k \<le> int64_max \<Longrightarrow> sint (of_int k :: int64) = k"
  by (simp add: int64_min_def int64_max_def signed_of_int signed_take_bit_int_eq_self)

lemma sint_add_int64:
  fixes a b :: int64
  assumes "int64_min \<le> sint a + sint b" and "sint a + sint b \<le> int64_max"
  shows "sint (a + b) = sint a + sint b"
proof -
  have "a + b = of_int (sint a + sint b)" by simp
  then show ?thesis using sint_of_int_int64 [OF assms] by simp
qed

section \<open>Lists\<close>

lemma drop_eq_append_iff:
  "n \<le> length xs \<Longrightarrow> drop n xs = ys \<longleftrightarrow> xs = take n xs @ ys"
  by (metis append_take_drop_id append_eq_conv_conj same_append_eq)

lemma dropWhile_length_less:
  "xs \<noteq> [] \<Longrightarrow> P (hd xs) \<Longrightarrow> length (dropWhile P xs) < length xs"
  by (cases xs) (auto simp: length_dropWhile_le le_imp_less_Suc)

section \<open>Go maps\<close>

text \<open>
  A Go map with string keys is an association list without repeated keys; the order of the list
  is irrelevant (everything that reads a whole map sorts it first). \<open>map_set\<close> is the
  assignment \<open>m[k] = v\<close>.
\<close>

fun map_set :: "'k \<Rightarrow> 'v \<Rightarrow> ('k \<times> 'v) list \<Rightarrow> ('k \<times> 'v) list" where
  "map_set k v [] = [(k, v)]"
| "map_set k v ((k', v') # m) = (if k' = k then (k, v) # m else (k', v') # map_set k v m)"

lemma map_of_map_set [simp]: "map_of (map_set k v m) = (map_of m)(k \<mapsto> v)"
  by (induction k v m rule: map_set.induct) auto

lemma keys_map_set [simp]: "set (map fst (map_set k v m)) = insert k (set (map fst m))"
  by (induction k v m rule: map_set.induct) auto

lemma distinct_map_set [simp]: "distinct (map fst m) \<Longrightarrow> distinct (map fst (map_set k v m))"
proof (induction k v m rule: map_set.induct)
  case (2 k v k' v' m)
  have "fst ` set (map_set k v m) = insert k (fst ` set m)"
    using keys_map_set [of k v m] by simp
  with 2 show ?case by auto
qed simp

end
