(* ===== verification/Go_Strings.thy ===== *)
theory Go_Strings
  imports Prelude
begin

text \<open>
  The functions of Go's \<open>strings\<close>, \<open>strconv\<close>, \<open>fmt\<close> and \<open>unicode/utf8\<close> packages that
  the engine calls, over byte strings, with the lemmas the component theories use.
\<close>

section \<open>Bytes\<close>

abbreviation byte :: "char \<Rightarrow> nat" where
  "byte c \<equiv> (of_char c :: nat)"

abbreviation chr :: "nat \<Rightarrow> char" where
  "chr n \<equiv> (char_of n :: char)"

definition is_ascii :: "string \<Rightarrow> bool" where
  "is_ascii s \<longleftrightarrow> (\<forall>c \<in> set s. byte c < 128)"

lemma byte_chr: "n < 256 \<Longrightarrow> byte (chr n) = n"
  by (simp add: of_char_of)

lemma is_ascii_Nil [simp]: "is_ascii []"
  by (simp add: is_ascii_def)

lemma is_ascii_Cons [simp]: "is_ascii (c # s) \<longleftrightarrow> byte c < 128 \<and> is_ascii s"
  by (simp add: is_ascii_def)

lemma is_ascii_append [simp]: "is_ascii (s @ t) \<longleftrightarrow> is_ascii s \<and> is_ascii t"
  by (auto simp: is_ascii_def)

section \<open>utf8.DecodeRuneInString and utf8.EncodeRune\<close>

definition rune_error :: nat where
  "rune_error = 0xFFFD"

text \<open>The continuation-byte test, and the accept range of the second byte for a leading byte.\<close>

definition is_cont :: "nat \<Rightarrow> bool" where
  "is_cont b \<longleftrightarrow> 0x80 \<le> b \<and> b \<le> 0xBF"

definition second_lo :: "nat \<Rightarrow> nat" where
  "second_lo b0 = (if b0 = 0xE0 then 0xA0 else if b0 = 0xF0 then 0x90 else 0x80)"

definition second_hi :: "nat \<Rightarrow> nat" where
  "second_hi b0 = (if b0 = 0xED then 0x9F else if b0 = 0xF4 then 0x8F else 0xBF)"

text \<open>
  The decoder returns the rune and the number of bytes it takes: \<open>(rune_error, 0)\<close> for the
  empty string and \<open>(rune_error, 1)\<close> for an invalid encoding.
\<close>

definition decode2 :: "nat \<Rightarrow> string \<Rightarrow> nat \<times> nat" where
  "decode2 b0 s =
     (case s of
        c1 # _ \<Rightarrow>
          if is_cont (byte c1) then ((b0 - 0xC0) * 64 + (byte c1 - 0x80), 2) else (rune_error, 1)
      | [] \<Rightarrow> (rune_error, 1))"

definition decode3 :: "nat \<Rightarrow> string \<Rightarrow> nat \<times> nat" where
  "decode3 b0 s =
     (case s of
        c1 # c2 # _ \<Rightarrow>
          if second_lo b0 \<le> byte c1 \<and> byte c1 \<le> second_hi b0 \<and> is_cont (byte c2)
          then ((b0 - 0xE0) * 4096 + (byte c1 - 0x80) * 64 + (byte c2 - 0x80), 3)
          else (rune_error, 1)
      | _ \<Rightarrow> (rune_error, 1))"

definition decode4 :: "nat \<Rightarrow> string \<Rightarrow> nat \<times> nat" where
  "decode4 b0 s =
     (case s of
        c1 # c2 # c3 # _ \<Rightarrow>
          if second_lo b0 \<le> byte c1 \<and> byte c1 \<le> second_hi b0
             \<and> is_cont (byte c2) \<and> is_cont (byte c3)
          then ((b0 - 0xF0) * 262144 + (byte c1 - 0x80) * 4096
                + (byte c2 - 0x80) * 64 + (byte c3 - 0x80), 4)
          else (rune_error, 1)
      | _ \<Rightarrow> (rune_error, 1))"

fun decode_rune :: "string \<Rightarrow> nat \<times> nat" where
  "decode_rune [] = (rune_error, 0)"
| "decode_rune (c # s) =
     (let b0 = byte c in
      if b0 < 0x80 then (b0, 1)
      else if b0 < 0xC2 then (rune_error, 1)
      else if b0 < 0xE0 then decode2 b0 s
      else if b0 < 0xF0 then decode3 b0 s
      else if b0 < 0xF5 then decode4 b0 s
      else (rune_error, 1))"

lemmas decode_tail_defs = decode2_def decode3_def decode4_def

declare decode_rune.simps(2) [simp del]

lemma decode_rune_size_pos: "s \<noteq> [] \<Longrightarrow> 0 < snd (decode_rune s)"
  by (cases s) (auto simp: decode_rune.simps decode_tail_defs Let_def split: list.splits)

lemma decode_rune_size_le: "snd (decode_rune s) \<le> length s"
  by (cases s) (auto simp: decode_rune.simps decode_tail_defs Let_def split: list.splits)

lemma decode_rune_ascii [simp]: "byte c < 128 \<Longrightarrow> decode_rune (c # s) = (byte c, 1)"
  by (simp add: decode_rune.simps)

lemma decode_rune_append:
  assumes "s \<noteq> []" and "decode_rune s \<noteq> (rune_error, 1)"
  shows "decode_rune (s @ t) = decode_rune s"
proof -
  obtain c r where s: "s = c # r" using assms(1) by (cases s) auto
  with assms(2) show ?thesis
    by (auto simp: decode_rune.simps decode_tail_defs Let_def split: list.splits if_splits)
qed

text \<open>utf8.EncodeRune: an invalid rune (a surrogate, or above U+10FFFF) encodes as U+FFFD.\<close>

definition valid_rune :: "nat \<Rightarrow> bool" where
  "valid_rune r \<longleftrightarrow> r < 0xD800 \<or> 0xDFFF < r \<and> r \<le> 0x10FFFF"

definition encode_valid_rune :: "nat \<Rightarrow> string" where
  "encode_valid_rune r =
     (if r < 0x80 then [chr r]
      else if r < 0x800 then [chr (0xC0 + r div 64), chr (0x80 + r mod 64)]
      else if r < 0x10000
      then [chr (0xE0 + r div 4096), chr (0x80 + (r div 64) mod 64), chr (0x80 + r mod 64)]
      else [chr (0xF0 + r div 262144), chr (0x80 + (r div 4096) mod 64),
            chr (0x80 + (r div 64) mod 64), chr (0x80 + r mod 64)])"

definition encode_rune :: "nat \<Rightarrow> string" where
  "encode_rune r = encode_valid_rune (if valid_rune r then r else rune_error)"

section \<open>Prefixes, suffixes, substrings\<close>

definition has_prefix :: "string \<Rightarrow> string \<Rightarrow> bool" where
  "has_prefix s p \<longleftrightarrow> take (length p) s = p"

definition has_suffix :: "string \<Rightarrow> string \<Rightarrow> bool" where
  "has_suffix s p \<longleftrightarrow> length p \<le> length s \<and> drop (length s - length p) s = p"

fun contains_str :: "string \<Rightarrow> string \<Rightarrow> bool" where
  "contains_str [] p \<longleftrightarrow> p = []"
| "contains_str (c # s) p \<longleftrightarrow> has_prefix (c # s) p \<or> contains_str s p"

definition trim_suffix :: "string \<Rightarrow> string \<Rightarrow> string" where
  "trim_suffix s p = (if has_suffix s p then take (length s - length p) s else s)"

definition trim_right_byte :: "char \<Rightarrow> string \<Rightarrow> string" where
  "trim_right_byte c s = rev (dropWhile (\<lambda>x. x = c) (rev s))"

lemma has_prefix_iff: "has_prefix s p \<longleftrightarrow> (\<exists>t. s = p @ t)"
  by (auto simp: has_prefix_def) (metis append_take_drop_id)

lemma has_suffix_iff: "has_suffix s p \<longleftrightarrow> (\<exists>t. s = t @ p)"
  by (auto simp: has_suffix_def) (metis append_take_drop_id)

lemma contains_str_iff: "contains_str s p \<longleftrightarrow> (\<exists>t u. s = t @ p @ u)"
proof (induction s p rule: contains_str.induct)
  case (2 c s p)
  have "(\<exists>t u. c # s = t @ p @ u) \<longleftrightarrow> (\<exists>u. c # s = p @ u) \<or> (\<exists>t u. s = t @ p @ u)"
  proof
    assume "\<exists>t u. c # s = t @ p @ u"
    then obtain t u where tu: "c # s = t @ p @ u" by blast
    then show "(\<exists>u. c # s = p @ u) \<or> (\<exists>t u. s = t @ p @ u)"
      by (cases t) auto
  next
    assume "(\<exists>u. c # s = p @ u) \<or> (\<exists>t u. s = t @ p @ u)"
    then show "\<exists>t u. c # s = t @ p @ u"
    proof
      assume "\<exists>u. c # s = p @ u"
      then show ?thesis by (metis append_Nil)
    next
      assume "\<exists>t u. s = t @ p @ u"
      then show ?thesis by (metis append_Cons)
    qed
  qed
  with 2 show ?case by (simp add: has_prefix_iff)
qed auto

lemma has_suffix_append [simp]: "has_suffix (s @ p) p"
  by (auto simp: has_suffix_iff)

lemma trim_suffix_append [simp]: "trim_suffix (s @ p) p = s"
  by (simp add: trim_suffix_def)

lemma trim_right_byte_id: "s = [] \<or> last s \<noteq> c \<Longrightarrow> trim_right_byte c s = s"
proof (cases s rule: rev_cases)
  case (snoc ys y)
  then show "s = [] \<or> last s \<noteq> c \<Longrightarrow> trim_right_byte c s = s"
    by (simp add: trim_right_byte_def)
qed (simp add: trim_right_byte_def)

text \<open>strings.LastIndex for a one-byte separator; \<open>None\<close> stands for -1.\<close>

fun last_index :: "string \<Rightarrow> char \<Rightarrow> nat option" where
  "last_index [] c = None"
| "last_index (x # s) c =
     (case last_index s c of
        Some i \<Rightarrow> Some (Suc i)
      | None \<Rightarrow> if x = c then Some 0 else None)"

lemma last_index_None: "last_index s c = None \<longleftrightarrow> c \<notin> set s"
  by (induction s) (auto split: option.splits)

lemma last_index_Some:
  "last_index s c = Some i \<longleftrightarrow> (\<exists>a b. s = a @ c # b \<and> c \<notin> set b \<and> length a = i)"
proof (induction s arbitrary: i)
  case (Cons x s)
  show ?case
  proof (cases "last_index s c")
    case None
    then have "c \<notin> set s" by (simp add: last_index_None)
    with None show ?thesis
      by (auto simp: Cons_eq_append_conv)
  next
    case (Some j)
    with Cons.IH [of j] obtain a b where s: "s = a @ c # b" "c \<notin> set b" "length a = j" by blast
    show ?thesis
    proof
      assume "last_index (x # s) c = Some i"
      with Some have "i = Suc j" by simp
      with s show "\<exists>a b. x # s = a @ c # b \<and> c \<notin> set b \<and> length a = i"
        by (intro exI [of _ "x # a"] exI [of _ b]) auto
    next
      assume "\<exists>a b. x # s = a @ c # b \<and> c \<notin> set b \<and> length a = i"
      then obtain a' b' where s': "x # s = a' @ c # b'" "c \<notin> set b'" "length a' = i" by blast
      then show "last_index (x # s) c = Some i"
      proof (cases a')
        case Nil
        with s s' show ?thesis by auto
      next
        case (Cons y ys)
        with s' have "last_index s c = Some (length ys)"
          using Cons.IH [of "length ys"] \<open>a' = y # ys\<close> by auto
        with s' Cons show ?thesis by simp
      qed
    qed
  qed
qed simp

text \<open>strings.Split by a one-byte separator, and strings.SplitN with limit 2.\<close>

fun split_on :: "char \<Rightarrow> string \<Rightarrow> string list" where
  "split_on c [] = [[]]"
| "split_on c (x # s) =
     (if x = c then [] # split_on c s
      else (case split_on c s of f # fs \<Rightarrow> (x # f) # fs | [] \<Rightarrow> [[x]]))"

fun split_once :: "char \<Rightarrow> string \<Rightarrow> string \<times> string option" where
  "split_once c [] = ([], None)"
| "split_once c (x # s) =
     (if x = c then ([], Some s)
      else (case split_once c s of (f, r) \<Rightarrow> (x # f, r)))"

lemma split_on_not_Nil [simp]: "split_on c s \<noteq> []"
  by (induction s) (auto split: list.splits)

lemma split_on_no_sep: "f \<in> set (split_on c s) \<Longrightarrow> c \<notin> set f"
  by (induction s arbitrary: f) (auto split: list.splits if_splits)

lemma split_on_single: "c \<notin> set s \<Longrightarrow> split_on c s = [s]"
  by (induction s) auto

lemma split_on_append: "c \<notin> set s \<Longrightarrow> split_on c (s @ c # t) = s # split_on c t"
  by (induction s) auto

section \<open>Integers as decimal text\<close>

definition digit :: "nat \<Rightarrow> char" where
  "digit d = chr (48 + d)"

definition is_digit :: "char \<Rightarrow> bool" where
  "is_digit c \<longleftrightarrow> 48 \<le> byte c \<and> byte c \<le> 57"

definition digit_val :: "char \<Rightarrow> nat" where
  "digit_val c = byte c - 48"

fun show_nat :: "nat \<Rightarrow> string" where
  "show_nat n = (if n < 10 then [digit n] else show_nat (n div 10) @ [digit (n mod 10)])"

declare show_nat.simps [simp del]

definition show_int :: "int \<Rightarrow> string" where
  "show_int i = (if i < 0 then CHR ''-'' # show_nat (nat (- i)) else show_nat (nat i))"

fun read_digits :: "nat \<Rightarrow> string \<Rightarrow> nat option" where
  "read_digits acc [] = Some acc"
| "read_digits acc (c # s) =
     (if is_digit c then read_digits (10 * acc + digit_val c) s else None)"

lemma digit_facts [simp]: "d < 10 \<Longrightarrow> is_digit (digit d)" "d < 10 \<Longrightarrow> digit_val (digit d) = d"
  by (simp_all add: is_digit_def digit_def digit_val_def byte_chr)

lemma read_digits_append:
  "read_digits acc (s @ t) = (case read_digits acc s of None \<Rightarrow> None | Some n \<Rightarrow> read_digits n t)"
  by (induction s arbitrary: acc) auto

lemma show_nat_digits: "c \<in> set (show_nat n) \<Longrightarrow> is_digit c"
proof (induction n rule: show_nat.induct)
  case (1 n)
  then show ?case
    using show_nat.simps [of n] by (auto split: if_splits)
qed

lemma show_nat_not_Nil [simp]: "show_nat n \<noteq> []"
  by (subst show_nat.simps) simp

lemma read_show_nat: "read_digits 0 (show_nat n) = Some n"
proof (induction n rule: show_nat.induct)
  case (1 n)
  show ?case
  proof (cases "n < 10")
    case True
    then show ?thesis by (subst show_nat.simps) simp
  next
    case False
    with 1 have "read_digits 0 (show_nat (n div 10)) = Some (n div 10)" by simp
    with False show ?thesis by (subst show_nat.simps) (simp add: read_digits_append)
  qed
qed

text \<open>
  strconv.ParseInt(s, 10, 64) and strconv.Atoi: an optional sign and at least one digit; a value
  outside the int64 range is \<open>ErrRange\<close>. (On a range error Go also returns the nearest bound;
  every caller in the engine that looks at the value discards it with the error, except the
  Bedrock header parser, for which \<open>atoi_value\<close> gives the value Go returns with the error.)
\<close>

datatype num_error = ErrSyntax | ErrRange

definition parse_sign :: "string \<Rightarrow> bool \<times> string" where
  "parse_sign s =
     (case s of
        [] \<Rightarrow> (False, [])
      | c # r \<Rightarrow> if c = CHR ''-'' then (True, r) else if c = CHR ''+'' then (False, r) else (False, s))"

definition parse_int64 :: "string \<Rightarrow> (num_error, int64) result" where
  "parse_int64 s =
     (case parse_sign s of (neg, ds) \<Rightarrow>
        if ds = [] then Inl ErrSyntax
        else (case read_digits 0 ds of
                None \<Rightarrow> Inl ErrSyntax
              | Some n \<Rightarrow>
                  (let v = (if neg then - int n else int n) in
                   if v < int64_min \<or> int64_max < v then Inl ErrRange else Inr (of_int v))))"

definition atoi_value :: "string \<Rightarrow> int64" where
  "atoi_value s =
     (case parse_int64 s of
        Inr v \<Rightarrow> v
      | Inl ErrSyntax \<Rightarrow> 0
      | Inl ErrRange \<Rightarrow> of_int (if fst (parse_sign s) then int64_min else int64_max))"

lemma show_nat_hd_not_sign:
  "\<exists>c r. show_nat n = c # r \<and> c \<noteq> CHR ''-'' \<and> c \<noteq> CHR ''+''"
proof -
  obtain c r where cr: "show_nat n = c # r" by (cases "show_nat n") auto
  then have "is_digit c" using show_nat_digits [of c n] by simp
  with cr show ?thesis by (auto simp: is_digit_def)
qed

lemma parse_int64_show:
  assumes "int64_min \<le> i" and "i \<le> int64_max"
  shows "parse_int64 (show_int i) = Inr (of_int i)"
proof (cases "i < 0")
  case True
  with assms show ?thesis
    by (simp add: parse_int64_def show_int_def parse_sign_def read_show_nat Let_def)
next
  case False
  obtain c r where cr: "show_nat (nat i) = c # r" "c \<noteq> CHR ''-''" "c \<noteq> CHR ''+''"
    using show_nat_hd_not_sign by blast
  then have "parse_sign (show_nat (nat i)) = (False, show_nat (nat i))"
    by (simp add: parse_sign_def)
  with False assms show ?thesis
    by (simp add: parse_int64_def show_int_def read_show_nat Let_def)
qed

end
