(* ===== verification/Path_Match.thy ===== *)
theory Path_Match
  imports Go_Strings
begin

text \<open>
  Go's \<open>path.Match\<close>, the matcher behind the egress allowlist and the MITM host list, as the
  standard library implements it (\<open>scanChunk\<close>, \<open>matchChunk\<close>, \<open>getEsc\<close> and the loop of
  \<open>Match\<close>), and a declarative reading of patterns (\<open>glob\<close>) it is compared with.
\<close>

section \<open>The implementation\<close>

datatype match_error = ErrBadPattern

subsection \<open>getEsc and character classes\<close>

definition class_rune :: "string \<Rightarrow> (match_error, nat \<times> string) result" where
  "class_rune chunk =
     (if chunk = [] then Inl ErrBadPattern
      else if decode_rune chunk = (rune_error, 1) then Inl ErrBadPattern
      else if drop (snd (decode_rune chunk)) chunk = [] then Inl ErrBadPattern
      else Inr (fst (decode_rune chunk), drop (snd (decode_rune chunk)) chunk))"

definition get_esc :: "string \<Rightarrow> (match_error, nat \<times> string) result" where
  "get_esc chunk =
     (case chunk of
        [] \<Rightarrow> Inl ErrBadPattern
      | c # cs \<Rightarrow>
          if c = CHR ''-'' \<or> c = CHR '']'' then Inl ErrBadPattern
          else class_rune (if c = CHR 0x5C then cs else chunk))"

lemma class_rune_shorter:
  assumes "class_rune chunk = Inr (r, rest)"
  shows "length rest < length chunk" and "rest \<noteq> []"
  using assms decode_rune_size_pos [of chunk]
  by (auto simp: class_rune_def split: if_splits)

lemma get_esc_shorter:
  assumes "get_esc chunk = Inr (r, rest)"
  shows "length rest < length chunk" and "rest \<noteq> []"
  using assms class_rune_shorter
  by (fastforce simp: get_esc_def split: list.splits if_splits)+

text \<open>
  One range of a class, \<open>lo\<close> or \<open>lo-hi\<close>; then the loop over the ranges up to the closing
  bracket. \<open>any\<close> is the source's \<open>nrange > 0\<close>.
\<close>

definition get_range :: "string \<Rightarrow> (match_error, (nat \<times> nat) \<times> string) result" where
  "get_range chunk =
     rbind (get_esc chunk) (\<lambda>(lo, c1).
       if hd c1 = CHR ''-'' then rbind (get_esc (tl c1)) (\<lambda>(hi, c2). Inr ((lo, hi), c2))
       else Inr ((lo, lo), c1))"

lemma get_range_shorter:
  assumes "get_range chunk = Inr (rg, rest)"
  shows "length rest < length chunk"
proof -
  from assms obtain lo c1 where c1: "get_esc chunk = Inr (lo, c1)"
    by (auto simp: get_range_def rbind_eq_Inr)
  note shorter1 = get_esc_shorter [OF c1]
  show ?thesis
  proof (cases "hd c1 = CHR ''-''")
    case True
    with assms c1 obtain hi where "get_esc (tl c1) = Inr (hi, rest)"
      by (auto simp: get_range_def rbind_eq_Inr)
    from get_esc_shorter(1) [OF this] shorter1 show ?thesis by simp
  next
    case False
    with assms c1 shorter1 show ?thesis by (simp add: get_range_def)
  qed
qed

function class_loop :: "nat \<Rightarrow> bool \<Rightarrow> bool \<Rightarrow> string \<Rightarrow> (match_error, bool \<times> string) result" where
  "class_loop r any m chunk =
     (if chunk \<noteq> [] \<and> hd chunk = CHR '']'' \<and> any then Inr (m, tl chunk)
      else (case get_range chunk of
              Inl e \<Rightarrow> Inl e
            | Inr ((lo, hi), rest) \<Rightarrow> class_loop r True (m \<or> (lo \<le> r \<and> r \<le> hi)) rest))"
  by pat_completeness auto
termination
  by (relation "measure (\<lambda>(r, any, m, chunk). length chunk)") (auto dest: get_range_shorter)

declare class_loop.simps [simp del]

lemma class_loop_shorter:
  "class_loop r any m chunk = Inr (b, rest) \<Longrightarrow> length rest < length chunk"
proof (induction r any m chunk rule: class_loop.induct)
  case (1 r any m chunk)
  show ?case
  proof (cases "chunk \<noteq> [] \<and> hd chunk = CHR '']'' \<and> any")
    case True
    then have "class_loop r any m chunk = Inr (m, tl chunk)" by (simp add: class_loop.simps)
    with "1.prems" True show ?thesis by (cases chunk) auto
  next
    case False
    with "1.prems" obtain lo hi rest1 where g: "get_range chunk = Inr ((lo, hi), rest1)"
      and l: "class_loop r True (m \<or> (lo \<le> r \<and> r \<le> hi)) rest1 = Inr (b, rest)"
      by (auto simp: class_loop.simps [of r any m chunk] split: sum.splits prod.splits)
    have "length rest < length rest1" by (rule "1.IH" [OF False g refl refl l])
    with get_range_shorter [OF g] show ?thesis by simp
  qed
qed

text \<open>The optional negation sign after the opening bracket.\<close>

definition class_neg :: "string \<Rightarrow> bool \<times> string" where
  "class_neg chunk =
     (case chunk of c # cs \<Rightarrow> if c = CHR ''^'' then (True, cs) else (False, chunk)
      | [] \<Rightarrow> (False, []))"

lemma class_neg_le: "length (snd (class_neg chunk)) \<le> length chunk"
  by (auto simp: class_neg_def split: list.splits)

subsection \<open>matchChunk\<close>

text \<open>
  The result is \<open>Inl\<close> for a malformed chunk, \<open>Inr (Some rest)\<close> for a match that leaves
  \<open>rest\<close>, \<open>Inr None\<close> for no match. Once \<open>failed\<close> holds, the name is no longer read, but
  the chunk is still checked.
\<close>

function match_chunk_from :: "bool \<Rightarrow> string \<Rightarrow> string \<Rightarrow> (match_error, string option) result" where
  "match_chunk_from failed [] s = Inr (if failed then None else Some s)"
| "match_chunk_from failed0 (c # cs) s =
     (let failed = (failed0 \<or> s = []) in
      if c = CHR ''['' then
        (let r = (if failed then 0 else fst (decode_rune s));
             s' = (if failed then s else drop (snd (decode_rune s)) s);
             (negated, chunk1) = class_neg cs in
         case class_loop r False False chunk1 of
           Inl e \<Rightarrow> Inl e
         | Inr (m, chunk2) \<Rightarrow> match_chunk_from (failed \<or> m = negated) chunk2 s')
      else if c = CHR ''?'' then
        match_chunk_from (failed \<or> hd s = CHR ''/'') cs
          (if failed then s else drop (snd (decode_rune s)) s)
      else if c = CHR 0x5C then
        (case cs of
           [] \<Rightarrow> Inl ErrBadPattern
         | d # ds \<Rightarrow> match_chunk_from (failed \<or> d \<noteq> hd s) ds (if failed then s else tl s))
      else match_chunk_from (failed \<or> c \<noteq> hd s) cs (if failed then s else tl s))"
  by pat_completeness auto
termination
proof (relation "measure (\<lambda>(f, chunk, s). length chunk)", goal_cases)
  case (2 f0 c cs s failed r s' x negated chunk1 m b chunk2)
  then show ?case
    using class_loop_shorter class_neg_le [of cs]
    by (metis (no_types, lifting) case_prod_conv in_measure length_Cons less_Suc_eq_le
        less_le_trans nat_less_le snd_conv)
qed auto

definition match_chunk :: "string \<Rightarrow> string \<Rightarrow> (match_error, string option) result" where
  "match_chunk chunk s = match_chunk_from False chunk s"

subsection \<open>scanChunk\<close>

definition is_star :: "char \<Rightarrow> bool" where
  "is_star c \<longleftrightarrow> c = CHR ''*''"

fun scan_split :: "bool \<Rightarrow> string \<Rightarrow> string \<times> string" where
  "scan_split inrange [] = ([], [])"
| "scan_split inrange [c] = (if is_star c \<and> \<not> inrange then ([], [c]) else ([c], []))"
| "scan_split inrange (c # d # cs) =
     (if c = CHR 0x5C then apfst (\<lambda>chunk. c # d # chunk) (scan_split inrange cs)
      else if c = CHR ''['' then apfst (Cons c) (scan_split True (d # cs))
      else if c = CHR '']'' then apfst (Cons c) (scan_split False (d # cs))
      else if is_star c \<and> \<not> inrange then ([], c # d # cs)
      else apfst (Cons c) (scan_split inrange (d # cs)))"

definition scan_chunk :: "string \<Rightarrow> bool \<times> string \<times> string" where
  "scan_chunk pattern =
     (pattern \<noteq> [] \<and> is_star (hd pattern), scan_split False (dropWhile is_star pattern))"

lemma scan_split_append: "fst (scan_split b p) @ snd (scan_split b p) = p"
  by (induction b p rule: scan_split.induct) simp_all

lemma scan_split_progress:
  "p \<noteq> [] \<Longrightarrow> \<not> is_star (hd p) \<Longrightarrow> length (snd (scan_split False p)) < length p"
proof -
  assume "p \<noteq> []" "\<not> is_star (hd p)"
  then obtain c cs where p: "p = c # cs" and "\<not> is_star c" by (cases p) auto
  then have "fst (scan_split False p) \<noteq> []" by (cases cs) simp_all
  moreover have "length p = length (fst (scan_split False p)) + length (snd (scan_split False p))"
    by (metis scan_split_append length_append)
  ultimately show ?thesis by simp
qed

lemma scan_chunk_shorter:
  assumes "pattern \<noteq> []" and "scan_chunk pattern = (star, chunk, rest)"
  shows "length rest < length pattern"
proof -
  define p where "p = dropWhile is_star pattern"
  have rest: "rest = snd (scan_split False p)" using assms(2) by (simp add: scan_chunk_def p_def)
  have le: "length p \<le> length pattern" by (simp add: p_def length_dropWhile_le)
  show ?thesis
  proof (cases "p = []")
    case True
    with rest assms(1) show ?thesis by simp
  next
    case False
    then have "\<not> is_star (hd p)" by (simp add: p_def hd_dropWhile)
    from scan_split_progress [OF False this] rest le show ?thesis by simp
  qed
qed

subsection \<open>Match\<close>

text \<open>
  The search for the chunk after a star: skip bytes one at a time, never a slash. \<open>final\<close> says
  that no pattern is left after the chunk, so a match has to exhaust the name.
\<close>

fun star_search :: "string \<Rightarrow> bool \<Rightarrow> string \<Rightarrow> (match_error, string option) result" where
  "star_search chunk final [] = Inr None"
| "star_search chunk final (c # s) =
     (if c = CHR ''/'' then Inr None
      else (case match_chunk chunk s of
              Inl e \<Rightarrow> Inl e
            | Inr None \<Rightarrow> star_search chunk final s
            | Inr (Some t) \<Rightarrow>
                if final \<and> t \<noteq> [] then star_search chunk final s else Inr (Some t)))"

text \<open>The check of the remaining pattern after a failed match.\<close>

function check_rest :: "string \<Rightarrow> (match_error, bool) result" where
  "check_rest pattern =
     (if pattern = [] then Inr False
      else (case scan_chunk pattern of (_, chunk, rest) \<Rightarrow>
              (case match_chunk chunk [] of Inl e \<Rightarrow> Inl e | Inr _ \<Rightarrow> check_rest rest)))"
  by pat_completeness auto
termination
  by (relation "measure length") (auto dest: scan_chunk_shorter [OF _ sym])

declare check_rest.simps [simp del]

text \<open>
  One turn of the outer loop on a chunk: the name that is left when the chunk matches at the
  current position (accepted unless it is the last chunk and leaves a rest) or, after a star,
  at the first later position. \<open>None\<close> is a failed match.
\<close>

definition chunk_step :: "bool \<Rightarrow> string \<Rightarrow> bool \<Rightarrow> string \<Rightarrow> (match_error, string option) result" where
  "chunk_step star chunk final name =
     rbind (match_chunk chunk name) (\<lambda>found.
       if (case found of None \<Rightarrow> False | Some t \<Rightarrow> t = [] \<or> \<not> final) then Inr found
       else if star then star_search chunk final name
       else Inr None)"

function path_match :: "string \<Rightarrow> string \<Rightarrow> (match_error, bool) result" where
  "path_match pattern name =
     (if pattern = [] then Inr (name = [])
      else
        (case scan_chunk pattern of (star, chunk, rest) \<Rightarrow>
           if star \<and> chunk = [] then Inr (CHR ''/'' \<notin> set name)
           else
             (case chunk_step star chunk (rest = []) name of
                Inl e \<Rightarrow> Inl e
              | Inr (Some t) \<Rightarrow> path_match rest t
              | Inr None \<Rightarrow> check_rest rest)))"
  by pat_completeness auto
termination
  by (relation "measure (\<lambda>(pattern, name). length pattern)") (auto dest: scan_chunk_shorter [OF _ sym])

declare path_match.simps [simp del]

end
