(* ===== verification/Path_Glob.thy ===== *)
theory Path_Glob
  imports Path_Match
begin

text \<open>
  The declarative reading of a pattern: a recursive-descent parser from pattern text to a list
  of tokens (\<open>parse_toks\<close>), and what a token list matches (\<open>glob\<close>). The lemmas show that
  the chunk-wise, greedy implementation of \<open>Path_Match\<close> computes this reading: it rejects
  exactly the patterns the parser rejects, whatever the name, and on names of ASCII bytes
  without a slash (host names) it accepts exactly what \<open>glob\<close> accepts.
\<close>

lemma match_error_unique: "(e :: match_error) = e'"
  by (cases e; cases e') simp

section \<open>Tokens\<close>

datatype gtok = GStar | GAny | GLit char | GClass bool "(nat \<times> nat) list"

definition in_ranges :: "nat \<Rightarrow> (nat \<times> nat) list \<Rightarrow> bool" where
  "in_ranges r rgs \<longleftrightarrow> (\<exists>(lo, hi) \<in> set rgs. lo \<le> r \<and> r \<le> hi)"

function parse_class :: "bool \<Rightarrow> string \<Rightarrow> (match_error, (nat \<times> nat) list \<times> string) result" where
  "parse_class any chunk =
     (if chunk \<noteq> [] \<and> hd chunk = CHR '']'' \<and> any then Inr ([], tl chunk)
      else (case get_range chunk of
              Inl e \<Rightarrow> Inl e
            | Inr (rg, rest) \<Rightarrow> rbind (parse_class True rest) (\<lambda>(rgs, r). Inr (rg # rgs, r))))"
  by pat_completeness auto
termination
  by (relation "measure (\<lambda>(any, chunk). length chunk)") (auto dest: get_range_shorter)

declare parse_class.simps [simp del]

lemma class_loop_parse_class:
  "class_loop r any m chunk =
     rbind (parse_class any chunk) (\<lambda>(rgs, rest). Inr (m \<or> in_ranges r rgs, rest))"
proof (induction any chunk arbitrary: m rule: parse_class.induct)
  case (1 any chunk)
  show ?case
  proof (cases "chunk \<noteq> [] \<and> hd chunk = CHR '']'' \<and> any")
    case True
    then have c1: "class_loop r any m chunk = Inr (m, tl chunk)" by (subst class_loop.simps) simp
    have c2: "parse_class any chunk = Inr ([], tl chunk)"
      using True by (subst parse_class.simps) simp
    show ?thesis unfolding c1 c2 by (simp add: in_ranges_def)
  next
    case False
    show ?thesis
    proof (cases "get_range chunk")
      case (Inl e)
      with False show ?thesis
        by (simp add: class_loop.simps [of r any m chunk] parse_class.simps [of any chunk]
            in_ranges_def)
    next
      case (Inr p)
      obtain lo hi rest where p: "p = ((lo, hi), rest)" by (cases p) auto
      from Inr p have g: "get_range chunk = Inr ((lo, hi), rest)" by simp
      have IH: "class_loop r True (m \<or> (lo \<le> r \<and> r \<le> hi)) rest =
          rbind (parse_class True rest)
            (\<lambda>(rgs, rest'). Inr ((m \<or> (lo \<le> r \<and> r \<le> hi)) \<or> in_ranges r rgs, rest'))"
        by (rule "1.IH" [OF False g refl])
      have "class_loop r any m chunk = class_loop r True (m \<or> (lo \<le> r \<and> r \<le> hi)) rest"
        unfolding class_loop.simps [of r any m chunk] using False g by auto
      moreover have "parse_class any chunk =
          rbind (parse_class True rest) (\<lambda>(rgs, r). Inr ((lo, hi) # rgs, r))"
        unfolding parse_class.simps [of any chunk] using False g by auto
      ultimately show ?thesis
        by (cases "parse_class True rest") (auto simp: IH in_ranges_def)
    qed
  qed
qed

lemma parse_class_shorter: "parse_class any chunk = Inr (rgs, rest) \<Longrightarrow> length rest < length chunk"
  using class_loop_parse_class [of 0 any False chunk] class_loop_shorter [of 0 any False chunk]
  by auto

lemma parse_class_neg_shorter:
  "parse_class any (snd (class_neg cs)) = Inr (rgs, rest) \<Longrightarrow> length rest < Suc (length cs)"
  using parse_class_shorter [of any "snd (class_neg cs)" rgs rest] class_neg_le [of cs] by simp

text \<open>
  \<open>parse_toks True\<close> reads a whole pattern; \<open>parse_toks False\<close> reads a chunk, in which a star
  outside a class is an ordinary character, as \<open>matchChunk\<close> treats it.
\<close>

function parse_toks :: "bool \<Rightarrow> string \<Rightarrow> (match_error, gtok list) result" where
  "parse_toks stars [] = Inr []"
| "parse_toks stars (c # cs) =
     (if c = CHR ''['' then
        rbind (parse_class False (snd (class_neg cs))) (\<lambda>(rgs, rest).
          rbind (parse_toks stars rest) (\<lambda>ts. Inr (GClass (fst (class_neg cs)) rgs # ts)))
      else if c = CHR ''?'' then rbind (parse_toks stars cs) (\<lambda>ts. Inr (GAny # ts))
      else if c = CHR 0x5C then
        (case cs of [] \<Rightarrow> Inl ErrBadPattern
         | d # ds \<Rightarrow> rbind (parse_toks stars ds) (\<lambda>ts. Inr (GLit d # ts)))
      else if stars \<and> is_star c then rbind (parse_toks stars cs) (\<lambda>ts. Inr (GStar # ts))
      else rbind (parse_toks stars cs) (\<lambda>ts. Inr (GLit c # ts)))"
  by pat_completeness auto
termination
  by (relation "measure (\<lambda>(stars, s). length s)") (auto dest: parse_class_neg_shorter)

declare parse_toks.simps(2) [simp del]

lemma parse_toks_simps [simp]:
  "parse_toks stars (CHR ''['' # cs) =
     rbind (parse_class False (snd (class_neg cs))) (\<lambda>(rgs, rest).
       rbind (parse_toks stars rest) (\<lambda>ts. Inr (GClass (fst (class_neg cs)) rgs # ts)))"
  "parse_toks stars (CHR ''?'' # cs) = rbind (parse_toks stars cs) (\<lambda>ts. Inr (GAny # ts))"
  "parse_toks stars [CHR 0x5C] = Inl ErrBadPattern"
  "parse_toks stars (CHR 0x5C # d # ds) = rbind (parse_toks stars ds) (\<lambda>ts. Inr (GLit d # ts))"
  by (simp_all add: parse_toks.simps)

lemma parse_toks_star [simp]:
  "is_star c \<Longrightarrow> parse_toks True (c # cs) = rbind (parse_toks True cs) (\<lambda>ts. Inr (GStar # ts))"
  by (simp add: parse_toks.simps is_star_def)

definition is_meta :: "char \<Rightarrow> bool" where
  "is_meta c \<longleftrightarrow> c = CHR ''['' \<or> c = CHR ''?'' \<or> c = CHR 0x5C \<or> is_star c"

lemma parse_toks_lit [simp]:
  "\<not> is_meta c \<Longrightarrow> parse_toks stars (c # cs) = rbind (parse_toks stars cs) (\<lambda>ts. Inr (GLit c # ts))"
  by (simp add: parse_toks.simps is_meta_def)

lemma parse_toks_False_star [simp]:
  "is_star c \<Longrightarrow> parse_toks False (c # cs) = rbind (parse_toks False cs) (\<lambda>ts. Inr (GLit c # ts))"
  by (simp add: parse_toks.simps is_star_def)

lemma pattern_head_cases:
  obtains "c = CHR ''[''" | "c = CHR ''?''" | "c = CHR 0x5C" "cs = []"
    | d ds where "c = CHR 0x5C" "cs = d # ds"
    | "c \<noteq> CHR ''[''" "c \<noteq> CHR ''?''" "c \<noteq> CHR 0x5C"
  by (metis list.exhaust)

lemma parse_toks_False_other:
  "c \<noteq> CHR ''['' \<Longrightarrow> c \<noteq> CHR ''?'' \<Longrightarrow> c \<noteq> CHR 0x5C \<Longrightarrow>
   parse_toks False (c # cs) = rbind (parse_toks False cs) (\<lambda>ts. Inr (GLit c # ts))"
  by (simp add: parse_toks.simps)

lemma parse_toks_False_no_star: "parse_toks False p = Inr ts \<Longrightarrow> GStar \<notin> set ts"
proof (induction False p arbitrary: ts rule: parse_toks.induct)
  case (2 c cs)
  show ?case
  proof (rule pattern_head_cases [where c = c and cs = cs])
    assume c: "c = CHR ''[''"
    with "2.prems" obtain rgs rest us where p: "parse_class False (snd (class_neg cs)) = Inr (rgs, rest)"
      and "parse_toks False rest = Inr us" and "ts = GClass (fst (class_neg cs)) rgs # us"
      by (auto simp: rbind_eq_Inr)
    with "2.hyps"(1) [OF c p refl] show ?thesis by simp
  next
    assume c: "c \<noteq> CHR ''[''" "c \<noteq> CHR ''?''" "c \<noteq> CHR 0x5C"
    with "2.prems" "2.hyps"(5) [OF c] show ?thesis
      by (auto simp: rbind_eq_Inr parse_toks_False_other)
  qed (use "2.prems" "2.hyps"(2,3) in \<open>auto simp: rbind_eq_Inr\<close>)
qed simp

section \<open>What tokens match\<close>

fun tok_step :: "gtok \<Rightarrow> string \<Rightarrow> string option" where
  "tok_step t [] = None"
| "tok_step GStar (c # s) = None"
| "tok_step GAny (c # s) =
     (if c = CHR ''/'' then None else Some (drop (snd (decode_rune (c # s))) (c # s)))"
| "tok_step (GLit d) (c # s) = (if d = c then Some s else None)"
| "tok_step (GClass neg rgs) (c # s) =
     (if in_ranges (fst (decode_rune (c # s))) rgs = neg then None
      else Some (drop (snd (decode_rune (c # s))) (c # s)))"

fun toks_match :: "gtok list \<Rightarrow> string \<Rightarrow> string option" where
  "toks_match [] s = Some s"
| "toks_match (t # ts) s = Option.bind (tok_step t s) (toks_match ts)"

text \<open>
  A token list matches a name: a star takes any bytes but slashes, every other token one
  character, and nothing is left.
\<close>

function glob :: "gtok list \<Rightarrow> string \<Rightarrow> bool" where
  "glob [] s \<longleftrightarrow> s = []"
| "glob (t # ts) s \<longleftrightarrow>
     (if t = GStar then
        glob ts s \<or> (case s of [] \<Rightarrow> False | c # cs \<Rightarrow> c \<noteq> CHR ''/'' \<and> glob (t # ts) cs)
      else (case tok_step t s of None \<Rightarrow> False | Some r \<Rightarrow> glob ts r))"
  by pat_completeness auto
termination
  by (relation "measures [\<lambda>(ts, s). length ts, \<lambda>(ts, s). length s]") auto

declare glob.simps(2) [simp del]

lemma glob_star [simp]:
  "glob (GStar # ts) s \<longleftrightarrow> glob ts s \<or> (\<exists>c cs. s = c # cs \<and> c \<noteq> CHR ''/'' \<and> glob (GStar # ts) cs)"
  by (subst glob.simps) (auto split: list.split)

declare glob_star [simp del]

lemma glob_tok:
  "t \<noteq> GStar \<Longrightarrow> glob (t # ts) s \<longleftrightarrow> (case tok_step t s of None \<Rightarrow> False | Some r \<Rightarrow> glob ts r)"
  by (simp add: glob.simps)

lemma glob_toks_append:
  "GStar \<notin> set ts \<Longrightarrow>
   glob (ts @ us) s \<longleftrightarrow> (case toks_match ts s of None \<Rightarrow> False | Some r \<Rightarrow> glob us r)"
proof (induction ts arbitrary: s)
  case (Cons t ts)
  then have "t \<noteq> GStar" "GStar \<notin> set ts" by auto
  with Cons.IH show ?case by (cases "tok_step t s") (simp_all add: glob_tok)
qed simp

section \<open>matchChunk computes toks_match\<close>

lemma match_chunk_from_simps:
  "match_chunk_from f0 (CHR ''['' # cs) s =
     rbind (class_loop (if f0 \<or> s = [] then 0 else fst (decode_rune s)) False False (snd (class_neg cs)))
       (\<lambda>(m, rest). match_chunk_from (f0 \<or> s = [] \<or> m = fst (class_neg cs)) rest
          (if f0 \<or> s = [] then s else drop (snd (decode_rune s)) s))"
  "match_chunk_from f0 (CHR ''?'' # cs) s =
     match_chunk_from (f0 \<or> s = [] \<or> hd s = CHR ''/'') cs
       (if f0 \<or> s = [] then s else drop (snd (decode_rune s)) s)"
  "match_chunk_from f0 [CHR 0x5C] s = Inl ErrBadPattern"
  "match_chunk_from f0 (CHR 0x5C # d # ds) s =
     match_chunk_from (f0 \<or> s = [] \<or> d \<noteq> hd s) ds (if f0 \<or> s = [] then s else tl s)"
  "c \<noteq> CHR ''['' \<Longrightarrow> c \<noteq> CHR ''?'' \<Longrightarrow> c \<noteq> CHR 0x5C \<Longrightarrow>
   match_chunk_from f0 (c # cs) s =
     match_chunk_from (f0 \<or> s = [] \<or> c \<noteq> hd s) cs (if f0 \<or> s = [] then s else tl s)"
  by (simp_all add: Let_def split_beta disj_assoc split: sum.split)

declare match_chunk_from.simps(2) [simp del]

lemma match_chunk_from_toks:
  "match_chunk_from failed chunk s =
     rbind (parse_toks False chunk) (\<lambda>ts. Inr (if failed then None else toks_match ts s))"
proof (induction False chunk arbitrary: failed s rule: parse_toks.induct)
  case (2 c cs)
  show ?case
  proof (rule pattern_head_cases [where c = c and cs = cs])
    assume c: "c = CHR ''[''"
    show ?thesis
    proof (cases "parse_class False (snd (class_neg cs))")
      case (Inr p)
      obtain rgs rest where p: "p = (rgs, rest)" by fastforce
      note IH = "2.hyps"(1) [OF c Inr p [symmetric]]
      show ?thesis
        using c Inr p
        by (cases s; cases "parse_toks False rest")
          (auto simp: match_chunk_from_simps class_loop_parse_class IH)
    qed (simp add: c match_chunk_from_simps class_loop_parse_class)
  next
    assume c: "c = CHR ''?''"
    note IH = "2.hyps"(2) [OF _ c]
    show ?thesis
      using c by (cases s; cases "parse_toks False cs")
        (auto simp: match_chunk_from_simps IH)
  next
    fix d ds
    assume c: "c = CHR 0x5C" "cs = d # ds"
    note IH = "2.hyps"(3) [OF _ _ c]
    show ?thesis
      using c by (cases s; cases "parse_toks False ds") (auto simp: match_chunk_from_simps IH)
  next
    assume c: "c \<noteq> CHR ''[''" "c \<noteq> CHR ''?''" "c \<noteq> CHR 0x5C"
    note IH = "2.hyps"(5) [OF c]
    show ?thesis
      using c by (cases s; cases "parse_toks False cs")
        (auto simp: match_chunk_from_simps parse_toks_False_other IH)
  qed (simp add: match_chunk_from_simps)
qed simp

lemma match_chunk_toks:
  "match_chunk chunk s = rbind (parse_toks False chunk) (\<lambda>ts. Inr (toks_match ts s))"
  by (simp add: match_chunk_def match_chunk_from_toks)

section \<open>scanChunk splits a pattern where the parser does\<close>

text \<open>
  Locality: what \<open>getEsc\<close> and the class parser read successfully from a chunk, they read from
  any extension of the chunk.
\<close>

lemma class_rune_append:
  assumes "class_rune x = Inr (r, rest)"
  shows "class_rune (x @ y) = Inr (r, rest @ y)"
proof -
  from assms have ok: "x \<noteq> []" "decode_rune x \<noteq> (rune_error, 1)"
    by (auto simp: class_rune_def split: if_splits)
  show ?thesis
    using assms ok decode_rune_append [OF ok, of y] decode_rune_size_le [of x]
    by (auto simp: class_rune_def split: if_splits)
qed

lemma get_esc_append:
  assumes "get_esc x = Inr (r, rest)"
  shows "get_esc (x @ y) = Inr (r, rest @ y)"
proof -
  obtain c cs where x: "x = c # cs" using assms by (cases x) (auto simp: get_esc_def)
  from assms have ok: "c \<noteq> CHR ''-''" "c \<noteq> CHR '']''"
    "class_rune (if c = CHR 0x5C then cs else x) = Inr (r, rest)"
    by (auto simp: get_esc_def x split: if_splits)
  from class_rune_append [OF ok(3), of y] ok(1,2) show ?thesis
    by (auto simp: get_esc_def x split: if_splits)
qed

lemma get_range_append:
  assumes "get_range x = Inr (rg, rest)" shows "get_range (x @ y) = Inr (rg, rest @ y)"
proof -
  from assms obtain lo c1 where e: "get_esc x = Inr (lo, c1)"
    by (auto simp: get_range_def rbind_eq_Inr)
  then obtain d ds where c1: "c1 = d # ds" using get_esc_shorter(2) by (cases c1) auto
  show ?thesis
    using assms e c1 get_esc_append [OF e, of y]
    by (auto simp: get_range_def rbind_eq_Inr dest: get_esc_append [of _ _ _ y] split: if_splits)
qed

lemma parse_class_append:
  "parse_class any x = Inr (rgs, rest) \<Longrightarrow> parse_class any (x @ y) = Inr (rgs, rest @ y)"
proof (induction any x arbitrary: rgs rule: parse_class.induct)
  case (1 any x)
  show ?case
  proof (cases "x \<noteq> [] \<and> hd x = CHR '']'' \<and> any")
    case True
    then obtain cs where "x = CHR '']'' # cs" by (cases x) auto
    with True "1.prems" show ?thesis by (simp add: parse_class.simps)
  next
    case False
    with "1.prems" obtain rg r1 rgs1 where g: "get_range x = Inr (rg, r1)"
      and l: "parse_class True r1 = Inr (rgs1, rest)" and rgs: "rgs = rg # rgs1"
      by (subst (asm) parse_class.simps) (auto simp: rbind_eq_Inr split: sum.splits)
    have l': "parse_class True (r1 @ y) = Inr (rgs1, rest @ y)"
      by (rule "1.IH" [OF False g refl l])
    have "x \<noteq> []" using g get_range_shorter by fastforce
    with False have "\<not> (x @ y \<noteq> [] \<and> hd (x @ y) = CHR '']'' \<and> any)" by simp
    then show ?thesis
      by (subst parse_class.simps) (simp add: get_range_append [OF g] l' rgs)
  qed
qed

text \<open>
  Stability: what was read stays readable when the bytes after it are replaced (for a range, by
  bytes that do not start differently).
\<close>

lemma decode_rune_take:
  assumes "s \<noteq> []" and "decode_rune s \<noteq> (rune_error, 1)"
  shows "decode_rune (take (snd (decode_rune s)) s) = decode_rune s"
proof -
  obtain c r where s: "s = c # r" using assms(1) by (cases s) auto
  have "decode2 (byte c) r \<noteq> (rune_error, 1) \<Longrightarrow>
      snd (decode2 (byte c) r) = 2 \<and> decode2 (byte c) (take 1 r) = decode2 (byte c) r"
    "decode3 (byte c) r \<noteq> (rune_error, 1) \<Longrightarrow>
      snd (decode3 (byte c) r) = 3 \<and> decode3 (byte c) (take 2 r) = decode3 (byte c) r"
    "decode4 (byte c) r \<noteq> (rune_error, 1) \<Longrightarrow>
      snd (decode4 (byte c) r) = 4 \<and> decode4 (byte c) (take 3 r) = decode4 (byte c) r"
    by (auto simp: decode_tail_defs take_Cons' split: list.splits if_splits)
  with assms(2) show ?thesis
    by (auto simp: s decode_rune.simps Let_def take_Cons' split: if_splits)
qed

lemma class_rune_stable:
  assumes "class_rune (p @ x) = Inr (r, x)" and "y \<noteq> []"
  shows "class_rune (p @ y) = Inr (r, y)"
proof -
  define n where "n = snd (decode_rune (p @ x))"
  from assms(1) have ok: "p @ x \<noteq> []" "decode_rune (p @ x) \<noteq> (rune_error, 1)"
    "r = fst (decode_rune (p @ x))" "drop n (p @ x) = x"
    by (auto simp: class_rune_def n_def split: if_splits)
  have n: "n = length p"
    using ok(4) decode_rune_size_le [of "p @ x"] n_def
    by (metis append_eq_append_conv append_take_drop_id length_take min.absorb2)
  have dec: "decode_rune p = decode_rune (p @ x)"
    using decode_rune_take [OF ok(1,2)] n by (simp add: n_def)
  have p: "p \<noteq> []" using decode_rune_size_pos [OF ok(1)] n by (auto simp: n_def)
  then have "decode_rune (p @ y) = decode_rune (p @ x)"
    using decode_rune_append [of p y] dec ok(2) by simp
  with ok(2,3) n p assms(2) show ?thesis by (simp add: class_rune_def n_def)
qed

lemma get_esc_stable:
  assumes "get_esc (p @ x) = Inr (r, x)" and "y \<noteq> []"
  shows "get_esc (p @ y) = Inr (r, y)"
proof -
  have "p \<noteq> []" using get_esc_shorter(1) [OF assms(1)] by auto
  then obtain c q where p: "p = c # q" by (cases p) auto
  show ?thesis
    using assms class_rune_stable [of q x r y] class_rune_stable [of p x r y]
    by (auto simp: get_esc_def p split: if_splits)
qed

text \<open>
  The class parser stops at a bracket at which \<open>scanChunk\<close> leaves its in-range mode, having
  passed over the same bytes.
\<close>

lemma scan_split_plain:
  assumes "s \<noteq> []" and "c \<noteq> CHR 0x5C" and "c \<noteq> CHR '']''"
  shows "scan_split True (c # s) = apfst (Cons c) (scan_split True s)"
  using assms by (cases s) simp_all

lemma scan_split_True_high:
  assumes "s \<noteq> []" and "\<forall>c \<in> set p. 128 \<le> byte c"
  shows "scan_split True (p @ s) = apfst (\<lambda>a. p @ a) (scan_split True s)"
  using assms
proof (induction p)
  case (Cons c p)
  then have "c \<noteq> CHR 0x5C" "c \<noteq> CHR '']''" by auto
  with Cons show ?case
    by (simp add: scan_split_plain apfst_def map_prod_def split_beta)
qed (simp add: apfst_def map_prod_def split_beta)

lemma second_lo_ge: "128 \<le> second_lo b"
  by (simp add: second_lo_def)

lemma decode_tails_high:
  "decode2 b s \<noteq> (rune_error, 1) \<Longrightarrow> \<forall>c \<in> set (take (snd (decode2 b s) - 1) s). 128 \<le> byte c"
  "decode3 b s \<noteq> (rune_error, 1) \<Longrightarrow> \<forall>c \<in> set (take (snd (decode3 b s) - 1) s). 128 \<le> byte c"
  "decode4 b s \<noteq> (rune_error, 1) \<Longrightarrow> \<forall>c \<in> set (take (snd (decode4 b s) - 1) s). 128 \<le> byte c"
  using second_lo_ge [of b]
  by (simp_all add: decode_tail_defs is_cont_def take_Cons' split: list.splits if_splits)

lemma decode_rune_bytes:
  assumes "s \<noteq> []" and "decode_rune s \<noteq> (rune_error, 1)"
  shows "snd (decode_rune s) = 1 \<or> (\<forall>c \<in> set (take (snd (decode_rune s)) s). 128 \<le> byte c)"
proof -
  obtain c r where s: "s = c # r" using assms(1) by (cases s) auto
  show ?thesis
  proof (cases "byte c < 128")
    case False
    have "\<forall>d \<in> set (take (snd (decode_rune s) - 1) r). 128 \<le> byte d"
      using False assms(2) decode_tails_high [of "byte c" r]
      by (auto simp: s decode_rune.simps Let_def split: if_splits)
    with False show ?thesis by (cases "snd (decode_rune s)") (auto simp: s)
  qed (simp add: s)
qed

lemma class_rune_scan:
  assumes "class_rune x = Inr (r, rest)"
  obtains d pre where "x = d # pre @ rest"
    and "pre = [] \<or> (\<forall>c \<in> set (d # pre). 128 \<le> byte c)" and "rest \<noteq> []"
proof -
  define n where "n = snd (decode_rune x)"
  from assms have x: "x \<noteq> []" "decode_rune x \<noteq> (rune_error, 1)" "rest = drop n x" "rest \<noteq> []"
    by (auto simp: class_rune_def n_def split: if_splits)
  have "0 < n" using decode_rune_size_pos [OF x(1)] by (simp add: n_def)
  then obtain d pre where t: "take n x = d # pre" using x(1) by (cases n; cases x) auto
  have split: "x = d # pre @ rest" using t x(3) by (metis append_Cons append_take_drop_id)
  have "pre = []" if "n = 1" using that t x(1) by (cases x) auto
  with decode_rune_bytes [OF x(1,2)] t have "pre = [] \<or> (\<forall>c \<in> set (d # pre). 128 \<le> byte c)"
    by (auto simp: n_def)
  with that split x(4) show thesis by blast
qed

lemma get_esc_scan:
  assumes "get_esc x = Inr (r, rest)"
  shows "\<exists>pre. x = pre @ rest \<and> scan_split True x = apfst (\<lambda>a. pre @ a) (scan_split True rest)"
proof -
  obtain c cs where x: "x = c # cs" using assms by (cases x) (auto simp: get_esc_def)
  show ?thesis
  proof (cases "c = CHR 0x5C")
    case True
    with assms x have "class_rune cs = Inr (r, rest)" by (simp add: get_esc_def)
    then obtain d pre where cs: "cs = d # pre @ rest" "rest \<noteq> []"
      and high: "pre = [] \<or> (\<forall>c \<in> set (d # pre). 128 \<le> byte c)" by (rule class_rune_scan)
    then have "scan_split True (pre @ rest) = apfst (\<lambda>a. pre @ a) (scan_split True rest)"
      using scan_split_True_high [of rest pre] by (auto simp: apfst_def map_prod_def split_beta)
    with True x cs show ?thesis
      by (intro exI [of _ "c # d # pre"]) (simp add: apfst_def map_prod_def split_beta)
  next
    case False
    with assms x have c: "c \<noteq> CHR '']''" and "class_rune x = Inr (r, rest)"
      by (auto simp: get_esc_def split: if_splits)
    from this(2) obtain d pre where x': "x = d # pre @ rest" "rest \<noteq> []"
      and high: "pre = [] \<or> (\<forall>c \<in> set (d # pre). 128 \<le> byte c)" by (rule class_rune_scan)
    have "scan_split True (pre @ rest) = apfst (\<lambda>a. pre @ a) (scan_split True rest)"
      using high scan_split_True_high [of rest pre] x'(2)
      by (auto simp: apfst_def map_prod_def split_beta)
    moreover have "scan_split True x = apfst (Cons c) (scan_split True (pre @ rest))"
      using x' x c False scan_split_plain [of "pre @ rest" c] by simp
    ultimately show ?thesis
      using x x' by (intro exI [of _ "c # pre"]) (simp add: apfst_def map_prod_def split_beta)
  qed
qed

lemma get_range_scan:
  assumes "get_range x = Inr (rg, rest)"
  shows "\<exists>pre. x = pre @ rest \<and> scan_split True x = apfst (\<lambda>a. pre @ a) (scan_split True rest)
    \<and> (\<forall>y. y \<noteq> [] \<and> hd y = hd rest \<longrightarrow> get_range (pre @ y) = Inr (rg, y))"
proof -
  from assms obtain lo c1 where e: "get_esc x = Inr (lo, c1)"
    by (auto simp: get_range_def rbind_eq_Inr)
  then obtain d ds where c1: "c1 = d # ds" using get_esc_shorter(2) by (cases c1) auto
  from get_esc_scan [OF e] obtain pre1 where p1: "x = pre1 @ c1"
    "scan_split True x = apfst (\<lambda>a. pre1 @ a) (scan_split True c1)" by blast
  have st1: "get_esc (pre1 @ y) = Inr (lo, y)" if "y \<noteq> []" for y
    using get_esc_stable [OF _ that] e p1 by simp
  show ?thesis
  proof (cases "d = CHR ''-''")
    case False
    with assms e c1 have "rest = c1" "rg = (lo, lo)" by (auto simp: get_range_def)
    with False c1 p1 st1 show ?thesis by (auto simp: get_range_def)
  next
    case True
    with assms e c1 obtain hi where e2: "get_esc ds = Inr (hi, rest)" and rg: "rg = (lo, hi)"
      by (auto simp: get_range_def rbind_eq_Inr)
    then have "ds \<noteq> []" by (auto simp: get_esc_def)
    from get_esc_scan [OF e2] obtain pre2 where p2: "ds = pre2 @ rest"
      "scan_split True ds = apfst (\<lambda>a. pre2 @ a) (scan_split True rest)" by blast
    have st2: "get_esc (pre2 @ y) = Inr (hi, y)" if "y \<noteq> []" for y
      using get_esc_stable [OF _ that] e2 p2 by simp
    have "get_range ((pre1 @ d # pre2) @ y) = Inr (rg, y)" if "y \<noteq> []" for y
      using st1 [of "d # pre2 @ y"] st2 [OF that] True rg by (simp add: get_range_def)
    moreover have "scan_split True x = apfst (\<lambda>a. (pre1 @ d # pre2) @ a) (scan_split True rest)"
      using p1 p2 c1 True \<open>ds \<noteq> []\<close>
      by (simp add: scan_split_plain apfst_def map_prod_def split_beta)
    ultimately show ?thesis
      using p1 p2 c1 by (intro exI [of _ "pre1 @ d # pre2"]) auto
  qed
qed

lemma scan_split_close: "scan_split b (CHR '']'' # cs) = apfst (Cons (CHR '']'')) (scan_split False cs)"
  by (cases cs) (simp_all add: is_star_def)

lemma scan_split_open: "scan_split b (CHR ''['' # cs) = apfst (Cons (CHR ''['')) (scan_split True cs)"
  by (cases cs) (simp_all add: is_star_def)

lemma parse_class_scan:
  "parse_class any x = Inr (rgs, rest) \<Longrightarrow>
   \<exists>pre. x = pre @ rest \<and> scan_split True x = apfst (\<lambda>a. pre @ a) (scan_split False rest)
     \<and> parse_class any pre = Inr (rgs, [])"
proof (induction any x arbitrary: rgs rule: parse_class.induct)
  case (1 any x)
  show ?case
  proof (cases "x \<noteq> [] \<and> hd x = CHR '']'' \<and> any")
    case True
    then obtain cs where x: "x = CHR '']'' # cs" by (cases x) auto
    with True "1.prems" have "rest = cs" "rgs = []" by (auto simp: parse_class.simps)
    with True show ?thesis
      unfolding x
      by (intro exI [of _ "[CHR '']'']"]) (simp add: scan_split_close parse_class.simps)
  next
    case False
    with "1.prems" obtain rg r1 rgs1 where g: "get_range x = Inr (rg, r1)"
      and l: "parse_class True r1 = Inr (rgs1, rest)" and rgs: "rgs = rg # rgs1"
      by (subst (asm) parse_class.simps) (auto simp: rbind_eq_Inr split: sum.splits)
    from "1.IH" [OF False g refl l] obtain pre2 where p2: "r1 = pre2 @ rest"
      "scan_split True r1 = apfst (\<lambda>a. pre2 @ a) (scan_split False rest)"
      "parse_class True pre2 = Inr (rgs1, [])" by blast
    have ne: "pre2 \<noteq> []" using parse_class_shorter [OF p2(3)] by auto
    from get_range_scan [OF g] obtain pre1 where p1: "x = pre1 @ r1"
      "scan_split True x = apfst (\<lambda>a. pre1 @ a) (scan_split True r1)"
      "\<And>y. y \<noteq> [] \<Longrightarrow> hd y = hd r1 \<Longrightarrow> get_range (pre1 @ y) = Inr (rg, y)" by blast
    have g': "get_range (pre1 @ pre2) = Inr (rg, pre2)" using p1(3) ne p2(1) by simp
    have "pre1 \<noteq> []" using get_range_shorter [OF g] p1(1) by auto
    with False p1(1) have "\<not> (pre1 @ pre2 \<noteq> [] \<and> hd (pre1 @ pre2) = CHR '']'' \<and> any)" by auto
    then have "parse_class any (pre1 @ pre2) = Inr (rgs, [])"
      by (subst parse_class.simps) (simp add: g' p2(3) rgs)
    with p1 p2 show ?thesis
      by (intro exI [of _ "pre1 @ pre2"]) (simp add: apfst_def map_prod_def split_beta)
  qed
qed

lemma class_neg_append:
  assumes "s \<noteq> []"
  shows "class_neg (s @ t) = (fst (class_neg s), snd (class_neg s) @ t)"
  using assms by (cases s) (auto simp: class_neg_def)

lemma class_neg_scan:
  assumes "snd (class_neg cs) \<noteq> []"
  obtains p where "cs = p @ snd (class_neg cs)"
    and "\<And>y. y \<noteq> [] \<Longrightarrow> hd y = hd (snd (class_neg cs)) \<Longrightarrow>
            class_neg (p @ y) = (fst (class_neg cs), y)"
    and "scan_split True cs = apfst (\<lambda>a. p @ a) (scan_split True (snd (class_neg cs)))"
proof (cases "cs \<noteq> [] \<and> hd cs = CHR ''^''")
  case True
  with assms that [of "[CHR ''^'']"] show thesis
    by (cases cs) (auto simp: class_neg_def scan_split_plain)
next
  case False
  then have "class_neg cs = (False, cs)" by (cases cs) (auto simp: class_neg_def)
  moreover have "class_neg y = (False, y)" if "y \<noteq> []" "hd y = hd cs" for y
    using that False assms calculation by (cases y) (auto simp: class_neg_def)
  ultimately show thesis
    using that [of "[]"] by (simp add: apfst_def map_prod_def split_beta)
qed

lemma scan_split_other:
  "c \<noteq> CHR 0x5C \<Longrightarrow> c \<noteq> CHR ''['' \<Longrightarrow> \<not> is_star c \<Longrightarrow>
   scan_split False (c # cs) = apfst (Cons c) (scan_split False cs)"
  by (cases cs) simp_all

lemma scan_split_star: "is_star c \<Longrightarrow> scan_split False (c # cs) = ([], c # cs)"
  by (cases cs) (simp_all add: is_star_def)

lemma scan_split_escape:
  "scan_split b [CHR 0x5C] = ([CHR 0x5C], [])"
  "scan_split b (CHR 0x5C # d # ds) = apfst (\<lambda>a. CHR 0x5C # d # a) (scan_split b ds)"
  by (simp_all add: is_star_def)

text \<open>Reading a pattern is reading its first chunk and then the rest.\<close>

definition join_toks ::
  "(match_error, gtok list) result \<Rightarrow> (match_error, gtok list) result \<Rightarrow> (match_error, gtok list) result" where
  "join_toks a b = rbind a (\<lambda>ts. rbind b (\<lambda>us. Inr (ts @ us)))"

lemma join_toks_simps [simp]:
  "join_toks (Inr []) b = b" "join_toks (Inl e) b = Inl e"
  "join_toks (rbind a (\<lambda>ts. Inr (t # ts))) b = rbind (join_toks a b) (\<lambda>ts. Inr (t # ts))"
  by (cases a; cases b; simp add: join_toks_def)+

lemma parse_toks_class_ok:
  assumes "parse_class False (snd (class_neg cs)) = Inr (rgs, rest)"
  shows "parse_toks stars (CHR ''['' # cs) =
    rbind (parse_toks stars rest) (\<lambda>ts. Inr (GClass (fst (class_neg cs)) rgs # ts))"
  using assms by simp

lemma parse_toks_scan:
  "parse_toks True p =
     join_toks (parse_toks False (fst (scan_split False p))) (parse_toks True (snd (scan_split False p)))"
proof (induction True p rule: parse_toks.induct)
  case (2 c cs)
  show ?case
  proof (rule pattern_head_cases [where c = c and cs = cs])
    assume c: "c = CHR ''[''"
    define x where "x = snd (class_neg cs)"
    define chunk where "chunk = fst (scan_split True cs)"
    define rest0 where "rest0 = snd (scan_split True cs)"
    have cs: "cs = chunk @ rest0" by (simp add: chunk_def rest0_def scan_split_append)
    show ?thesis
    proof (cases "parse_class False x")
      case (Inl e)
      have "\<exists>e. parse_class False (snd (class_neg chunk)) = Inl e"
      proof (rule ccontr)
        assume "\<not> ?thesis"
        then obtain rgs r where r: "parse_class False (snd (class_neg chunk)) = Inr (rgs, r)"
          by (metis sum.exhaust prod.exhaust)
        then have "chunk \<noteq> []" by (auto simp: class_neg_def dest: parse_class_shorter)
        with parse_class_append [OF r, of rest0] Inl cs show False
          by (simp add: x_def class_neg_append)
      qed
      with Inl c show ?thesis
        by (auto simp: scan_split_open x_def [symmetric] chunk_def [symmetric]
            intro: match_error_unique)
    next
      case (Inr q)
      obtain rgs rest where q: "q = (rgs, rest)" by fastforce
      have xne: "x \<noteq> []" using parse_class_shorter [of False x rgs rest] Inr q by auto
      obtain p where p: "cs = p @ x"
        "\<And>y. y \<noteq> [] \<Longrightarrow> hd y = hd x \<Longrightarrow> class_neg (p @ y) = (fst (class_neg cs), y)"
        "scan_split True cs = apfst (\<lambda>a. p @ a) (scan_split True x)"
        using class_neg_scan [of cs] xne unfolding x_def by blast
      obtain pre where pre: "x = pre @ rest"
        "scan_split True x = apfst (\<lambda>a. pre @ a) (scan_split False rest)"
        "parse_class False pre = Inr (rgs, [])"
        using parse_class_scan [of False x rgs rest] Inr q by blast
      have "pre \<noteq> []" using parse_class_shorter [OF pre(3)] by auto
      define a b where "a = fst (scan_split False rest)" and "b = snd (scan_split False rest)"
      have split: "scan_split False (c # cs) = (CHR ''['' # p @ pre @ a, b)"
        using c p(3) pre(2)
        by (simp add: scan_split_open a_def b_def apfst_def map_prod_def split_beta)
      have cn: "class_neg (p @ pre @ a) = (fst (class_neg cs), pre @ a)"
        using p(2) [of "pre @ a"] \<open>pre \<noteq> []\<close> pre(1) by simp
      have pc: "parse_class False (pre @ a) = Inr (rgs, a)"
        using parse_class_append [OF pre(3), of a] by simp
      have IH: "parse_toks True rest = join_toks (parse_toks False a) (parse_toks True b)"
        unfolding a_def b_def
        by (rule "2.hyps"(1) [OF c _ refl]) (use Inr q in \<open>simp add: x_def\<close>)
      show ?thesis
        using c Inr q IH split by (simp add: cn pc x_def)
    qed
  next
    assume c: "c = CHR ''?''"
    with "2.hyps"(2) [OF _ c] show ?thesis by (simp add: scan_split_other is_star_def)
  next
    fix d ds
    assume c: "c = CHR 0x5C" "cs = d # ds"
    with "2.hyps"(3) [OF _ _ c] show ?thesis by (simp add: scan_split_escape)
  next
    assume c: "c \<noteq> CHR ''[''" "c \<noteq> CHR ''?''" "c \<noteq> CHR 0x5C"
    show ?thesis
    proof (cases "is_star c")
      case True
      then show ?thesis by (simp add: scan_split_star)
    next
      case False
      with c have "\<not> is_meta c" by (simp add: is_meta_def)
      with False c "2.hyps"(5) [OF c] show ?thesis by (simp add: scan_split_other)
    qed
  qed (simp add: scan_split_escape)
qed simp

lemma scan_split_rest: "snd (scan_split False p) = [] \<or> is_star (hd (snd (scan_split False p)))"
proof -
  have "snd (scan_split b p) = [] \<or> is_star (hd (snd (scan_split b p)))" for b
    by (induction b p rule: scan_split.induct) auto
  then show ?thesis .
qed

lemma parse_toks_stars:
  "parse_toks True p =
     rbind (parse_toks True (dropWhile is_star p))
       (\<lambda>ts. Inr (replicate (length (takeWhile is_star p)) GStar @ ts))"
  by (induction p) (simp_all add: rbind_assoc)

text \<open>One turn of \<open>Match\<close>, in tokens.\<close>

lemma parse_scan_chunk:
  assumes "p \<noteq> []" and "scan_chunk p = (star, chunk, rest)"
  obtains k where "star \<longleftrightarrow> 0 < k"
    and "parse_toks True p =
      rbind (join_toks (parse_toks False chunk) (parse_toks True rest))
        (\<lambda>ts. Inr (replicate k GStar @ ts))"
    and "rest = [] \<or> is_star (hd rest)" and "chunk = [] \<longrightarrow> rest = []"
proof
  define p' where "p' = dropWhile is_star p"
  have sc: "star = (is_star (hd p))" "chunk = fst (scan_split False p')" "rest = snd (scan_split False p')"
    using assms by (auto simp: scan_chunk_def p'_def)
  show "star \<longleftrightarrow> 0 < length (takeWhile is_star p)"
    using assms(1) sc(1) by (cases p) auto
  show "parse_toks True p =
      rbind (join_toks (parse_toks False chunk) (parse_toks True rest))
        (\<lambda>ts. Inr (replicate (length (takeWhile is_star p)) GStar @ ts))"
    by (subst parse_toks_stars) (simp add: sc p'_def parse_toks_scan [of "dropWhile is_star p"])
  show "rest = [] \<or> is_star (hd rest)" using scan_split_rest sc(3) by simp
  show "chunk = [] \<longrightarrow> rest = []"
  proof
    assume "chunk = []"
    then have "p' = rest" using scan_split_append [of False p'] sc by simp
    moreover have "p' \<noteq> [] \<Longrightarrow> \<not> is_star (hd p')" by (simp add: p'_def hd_dropWhile)
    ultimately show "rest = []"
      using scan_split_progress [of p'] sc(3) by fastforce
  qed
qed

fun toks_search :: "gtok list \<Rightarrow> bool \<Rightarrow> string \<Rightarrow> string option" where
  "toks_search ts final [] = None"
| "toks_search ts final (c # s) =
     (if c = CHR ''/'' then None
      else (case toks_match ts s of
              None \<Rightarrow> toks_search ts final s
            | Some t \<Rightarrow> if final \<and> t \<noteq> [] then toks_search ts final s else Some t))"

definition toks_step :: "bool \<Rightarrow> gtok list \<Rightarrow> bool \<Rightarrow> string \<Rightarrow> string option" where
  "toks_step star ts final name =
     (case toks_match ts name of
        Some t \<Rightarrow>
          if t = [] \<or> \<not> final then Some t else if star then toks_search ts final name else None
      | None \<Rightarrow> if star then toks_search ts final name else None)"

lemma star_search_toks:
  "parse_toks False chunk = Inr ts \<Longrightarrow> star_search chunk final s = Inr (toks_search ts final s)"
  by (induction s) (auto simp: match_chunk_toks split: option.split)

lemma chunk_step_toks:
  "chunk_step star chunk final name =
     rbind (parse_toks False chunk) (\<lambda>ts. Inr (toks_step star ts final name))"
proof (cases "parse_toks False chunk")
  case (Inr ts)
  then show ?thesis
    by (simp add: chunk_step_def match_chunk_toks star_search_toks toks_step_def split: option.split)
qed (simp add: chunk_step_def match_chunk_toks)

section \<open>Malformed patterns\<close>

lemma check_rest_parse: "check_rest p = rbind (parse_toks True p) (\<lambda>_. Inr False)"
proof (induction p rule: check_rest.induct)
  case (1 p)
  show ?case
  proof (cases "p = []")
    case False
    obtain star chunk rest where sc: "scan_chunk p = (star, chunk, rest)" by (metis prod_cases3)
    obtain k where k: "parse_toks True p =
      rbind (join_toks (parse_toks False chunk) (parse_toks True rest))
        (\<lambda>ts. Inr (replicate k GStar @ ts))"
      by (rule parse_scan_chunk [OF False sc])
    show ?thesis
    proof (cases "parse_toks False chunk")
      case (Inl e)
      with False sc k show ?thesis by (simp add: check_rest.simps [of p] match_chunk_toks)
    next
      case (Inr ts)
      then have "match_chunk chunk [] = Inr (toks_match ts [])" by (simp add: match_chunk_toks)
      from "1.IH" [OF False sc [symmetric] refl this] Inr False sc k show ?thesis
        by (cases "parse_toks True rest")
          (simp_all add: check_rest.simps [of p] match_chunk_toks join_toks_def)
    qed
  qed (simp add: check_rest.simps)
qed

lemma path_match_wf:
  "(\<exists>b. path_match p s = Inr b) \<longleftrightarrow> (\<exists>ts. parse_toks True p = Inr ts)"
proof (induction p s rule: path_match.induct)
  case (1 p s)
  show ?case
  proof (cases "p = []")
    case True
    then show ?thesis by (simp add: path_match.simps)
  next
    case False
    obtain star chunk rest where sc: "scan_chunk p = (star, chunk, rest)" by (metis prod_cases3)
    obtain k where k: "parse_toks True p =
      rbind (join_toks (parse_toks False chunk) (parse_toks True rest))
        (\<lambda>ts. Inr (replicate k GStar @ ts))" and fin: "chunk = [] \<longrightarrow> rest = []"
      by (rule parse_scan_chunk [OF False sc])
    consider "star \<and> chunk = []" | e where "\<not> (star \<and> chunk = [])" "parse_toks False chunk = Inl e"
      | ts where "\<not> (star \<and> chunk = [])" "parse_toks False chunk = Inr ts"
      by (metis sum.exhaust)
    then show ?thesis
    proof cases
      case 1
      with fin k False sc show ?thesis by (simp add: path_match.simps [of p s])
    next
      case 2
      with k False sc show ?thesis by (auto simp: path_match.simps [of p s] chunk_step_toks)
    next
      case (3 ts)
      then have cs: "chunk_step star chunk (rest = []) s = Inr (toks_step star ts (rest = []) s)"
        by (simp add: chunk_step_toks)
      have wf: "(\<exists>us. parse_toks True p = Inr us) \<longleftrightarrow> (\<exists>us. parse_toks True rest = Inr us)"
        using 3 k by (cases "parse_toks True rest") (simp_all add: join_toks_def)
      show ?thesis
      proof (cases "toks_step star ts (rest = []) s")
        case None
        with cs 3(1) False sc have "path_match p s = check_rest rest"
          by (auto simp: path_match.simps [of p s])
        then show ?thesis
          unfolding wf by (cases "parse_toks True rest") (auto simp: check_rest_parse)
      next
        case (Some t)
        have "path_match p s = path_match rest t"
          using Some cs 3(1) False sc by (auto simp: path_match.simps [of p s])
        with "1.IH" [OF False sc [symmetric] refl 3(1) cs Some] show ?thesis
          unfolding wf by simp
      qed
    qed
  qed
qed

section \<open>Matching on plain names\<close>

text \<open>A plain name: ASCII bytes, no slash. Every host name a URL can carry is one.\<close>

definition plain :: "string \<Rightarrow> bool" where
  "plain s \<longleftrightarrow> is_ascii s \<and> CHR ''/'' \<notin> set s"

lemma plain_Nil [simp]: "plain []"
  by (simp add: plain_def)

lemma plain_Cons [simp]: "plain (c # s) \<longleftrightarrow> byte c < 128 \<and> c \<noteq> CHR ''/'' \<and> plain s"
  by (auto simp: plain_def)

lemma plain_drop: "plain s \<Longrightarrow> plain (drop n s)"
  by (induction s arbitrary: n) (auto simp: drop_Cons split: nat.split)

lemma toks_match_plain:
  assumes "plain s" and "toks_match ts s = Some t"
  shows "t = drop (length ts) s" and "length ts \<le> length s"
proof -
  have "t = drop (length ts) s \<and> length ts \<le> length s"
    using assms
  proof (induction ts arbitrary: s)
    case (Cons a ts)
    then obtain c r where s: "s = c # r" by (cases s) auto
    with Cons.prems have "tok_step a s = Some r" "toks_match ts r = Some t"
      by (cases a; auto split: if_splits)+
    with Cons.IH [of r] Cons.prems(1) s show ?case by simp
  qed simp
  then show "t = drop (length ts) s" and "length ts \<le> length s" by simp_all
qed

lemma glob_star_plain:
  "plain s \<Longrightarrow> glob (GStar # us) s \<longleftrightarrow> (\<exists>n \<le> length s. glob us (drop n s))"
proof (induction s)
  case Nil
  then show ?case by (subst glob_star) simp
next
  case (Cons c s)
  have "(\<exists>n \<le> length (c # s). glob us (drop n (c # s))) \<longleftrightarrow>
      glob us (c # s) \<or> (\<exists>n \<le> length s. glob us (drop n s))"
    by (metis Suc_le_mono drop0 drop_Suc_Cons le0 length_Cons not0_implies_Suc)
  with Cons show ?case by (subst glob_star) auto
qed

lemma glob_star_mono:
  assumes "plain s" and "m \<le> n" and "glob (GStar # us) (drop n s)"
  shows "glob (GStar # us) (drop m s)"
proof -
  from assms(1,3) obtain k where "k \<le> length (drop n s)" "glob us (drop k (drop n s))"
    by (auto simp: glob_star_plain plain_drop)
  then have "k + n \<le> length s \<or> length s < n" "glob us (drop (k + n - m) (drop m s))"
    using assms(2) by (auto simp: add.commute)
  then show ?thesis
    using assms(1,2) \<open>k \<le> length (drop n s)\<close>
    by (auto simp: glob_star_plain plain_drop intro!: exI [of _ "min (k + n - m) (length s - m)"]
        simp: min_def)
qed

lemma glob_replicate_star: "plain s \<Longrightarrow> glob (replicate (Suc k) GStar @ us) s = glob (GStar # us) s"
proof (induction k)
  case (Suc k)
  have "glob (GStar # GStar # ws) s = glob (GStar # ws) s" for ws
    using Suc.prems glob_star_mono [OF Suc.prems, of 0 _ ws]
    by (subst (1) glob_star_plain) (auto intro: exI [of _ 0])
  with Suc show ?case by simp
qed simp

text \<open>The search finds the first position at which the chunk matches acceptably.\<close>

definition acceptable :: "gtok list \<Rightarrow> bool \<Rightarrow> string \<Rightarrow> bool" where
  "acceptable ts final s \<longleftrightarrow>
     (case toks_match ts s of None \<Rightarrow> False | Some t \<Rightarrow> t = [] \<or> \<not> final)"

fun toks_find :: "gtok list \<Rightarrow> bool \<Rightarrow> string \<Rightarrow> string option" where
  "toks_find ts final [] = (if acceptable ts final [] then toks_match ts [] else None)"
| "toks_find ts final (c # s) =
     (if acceptable ts final (c # s) then toks_match ts (c # s)
      else if c = CHR ''/'' then None else toks_find ts final s)"

lemma toks_search_find:
  "toks_search ts final (c # s) = (if c = CHR ''/'' then None else toks_find ts final s)"
proof (induction s arbitrary: c)
  case Nil
  then show ?case by (auto simp: acceptable_def split: option.split)
next
  case (Cons d s)
  have "toks_search ts final (c # d # s) =
      (if c = CHR ''/'' then None
       else if acceptable ts final (d # s) then toks_match ts (d # s)
       else toks_search ts final (d # s))"
    by (subst toks_search.simps(2))
      (auto simp: acceptable_def simp del: toks_search.simps split: option.split)
  with Cons.IH [of d] show ?case by (simp del: toks_search.simps)
qed

lemma toks_step_find: "toks_step True ts final s = toks_find ts final s"
proof (cases s)
  case Nil
  then show ?thesis by (auto simp: toks_step_def acceptable_def split: option.split)
next
  case (Cons c r)
  then show ?thesis
    by (auto simp: toks_step_def acceptable_def toks_search_find
        simp del: toks_search.simps split: option.split)
qed

lemma toks_find_None:
  assumes "plain s" and "toks_find ts final s = None" and "n \<le> length s"
  shows "\<not> acceptable ts final (drop n s)"
  using assms
proof (induction s arbitrary: n)
  case Nil
  then show ?case by (auto simp: acceptable_def split: if_splits option.splits)
next
  case (Cons c s)
  then show ?case
    by (cases n) (auto simp: acceptable_def split: if_splits option.splits)
qed

lemma toks_find_Some:
  assumes "plain s" and "toks_find ts final s = Some t"
  shows "\<exists>n \<le> length s. toks_match ts (drop n s) = Some t \<and> acceptable ts final (drop n s)
    \<and> (\<forall>m < n. \<not> acceptable ts final (drop m s))"
  using assms
proof (induction s)
  case Nil
  then show ?case by (auto split: if_splits)
next
  case (Cons c s)
  show ?case
  proof (cases "acceptable ts final (c # s)")
    case True
    with Cons.prems show ?thesis by (intro exI [of _ 0]) auto
  next
    case False
    with Cons obtain n where "n \<le> length s" "toks_match ts (drop n s) = Some t"
      "acceptable ts final (drop n s)" "\<forall>m < n. \<not> acceptable ts final (drop m s)" by auto
    with False show ?thesis
      by (intro exI [of _ "Suc n"]) (auto simp: less_Suc_eq_0_disj)
  qed
qed

text \<open>The greedy choice loses nothing: from an earlier position, a star reaches every later one.\<close>

lemma glob_greedy:
  assumes "plain s" and "GStar \<notin> set ts" and us: "us = [] \<longleftrightarrow> final" "us \<noteq> [] \<longrightarrow> hd us = GStar"
  shows "glob (GStar # ts @ us) s \<longleftrightarrow>
    (case toks_find ts final s of None \<Rightarrow> False | Some t \<Rightarrow> glob us t)"
proof -
  have iff: "glob (GStar # ts @ us) s \<longleftrightarrow>
      (\<exists>n \<le> length s. \<exists>t. toks_match ts (drop n s) = Some t \<and> glob us t)"
    using assms(1,2) by (auto simp: glob_star_plain glob_toks_append split: option.splits)
  have acc: "acceptable ts final (drop n s)" if "toks_match ts (drop n s) = Some t" "glob us t" for n t
    using that us(1) by (auto simp: acceptable_def)
  show ?thesis
  proof (cases "toks_find ts final s")
    case None
    then show ?thesis
      unfolding iff using toks_find_None [OF assms(1) None] acc by fastforce
  next
    case (Some t)
    from toks_find_Some [OF assms(1) Some] obtain n where n: "n \<le> length s"
      "toks_match ts (drop n s) = Some t" "acceptable ts final (drop n s)"
      "\<forall>m < n. \<not> acceptable ts final (drop m s)" by blast
    have "glob us t" if ex: "k \<le> length s" "toks_match ts (drop k s) = Some u" "glob us u" for k u
    proof (cases "us = []")
      case True
      with n(2,3) us(1) show ?thesis by (auto simp: acceptable_def)
    next
      case False
      with us(2) obtain ws where ws: "us = GStar # ws" by (cases us) auto
      have "n \<le> k" using n(4) acc [OF ex(2,3)] by (meson not_le)
      moreover have "t = drop (length ts) (drop n s)" "u = drop (length ts) (drop k s)"
        using toks_match_plain(1) [OF plain_drop [OF assms(1)]] n(2) ex(2) by blast+
      ultimately show ?thesis
        using glob_star_mono [OF assms(1), of "length ts + n" "length ts + k" ws] ex(3) ws by simp
    qed
    with n(1,2) Some show ?thesis unfolding iff by auto
  qed
qed

lemma path_match_glob:
  "plain s \<Longrightarrow> parse_toks True p = Inr ts \<Longrightarrow> path_match p s = Inr (glob ts s)"
proof (induction p s arbitrary: ts rule: path_match.induct)
  case (1 p s)
  show ?case
  proof (cases "p = []")
    case True
    with "1.prems" show ?thesis by (simp add: path_match.simps)
  next
    case False
    obtain star chunk rest where sc: "scan_chunk p = (star, chunk, rest)" by (metis prod_cases3)
    obtain k where k: "star \<longleftrightarrow> 0 < k" "parse_toks True p =
      rbind (join_toks (parse_toks False chunk) (parse_toks True rest))
        (\<lambda>ts. Inr (replicate k GStar @ ts))" and rs: "rest = [] \<or> is_star (hd rest)"
      and fin: "chunk = [] \<longrightarrow> rest = []"
      by (rule parse_scan_chunk [OF False sc])
    from "1.prems"(2) k(2) obtain cts us where cts: "parse_toks False chunk = Inr cts"
      and us: "parse_toks True rest = Inr us" and ts: "ts = replicate k GStar @ cts @ us"
      by (auto simp: join_toks_def rbind_eq_Inr)
    have ns: "GStar \<notin> set cts" by (rule parse_toks_False_no_star [OF cts])
    have us0: "us = [] \<longleftrightarrow> rest = []" "us \<noteq> [] \<longrightarrow> hd us = GStar"
      using rs us by (cases rest; auto simp: rbind_eq_Inr)+
    have gts: "glob ts s \<longleftrightarrow> glob (if star then GStar # cts @ us else cts @ us) s"
      using glob_replicate_star [OF "1.prems"(1), of "k - 1" "cts @ us"] k(1) ts by (cases k) auto
    show ?thesis
    proof (cases "star \<and> chunk = []")
      case True
      with fin cts us have "cts = []" "us = []" by auto
      with True gts "1.prems"(1) have "glob ts s"
        by (auto simp: glob_star_plain intro: exI [of _ "length s"])
      moreover have "CHR ''/'' \<notin> set s" using "1.prems"(1) by (simp add: plain_def)
      ultimately show ?thesis using True False sc by (simp add: path_match.simps [of p s])
    next
      case step: False
      have cs: "chunk_step star chunk (rest = []) s = Inr (toks_step star cts (rest = []) s)"
        using cts by (simp add: chunk_step_toks)
      have gs: "glob ts s \<longleftrightarrow>
          (case toks_step star cts (rest = []) s of None \<Rightarrow> False | Some t \<Rightarrow> glob us t)"
      proof (cases star)
        case True
        then show ?thesis
          using gts glob_greedy [OF "1.prems"(1) ns us0] by (simp add: toks_step_find)
      next
        case False
        then show ?thesis
          using gts ns us0 by (auto simp: glob_toks_append toks_step_def split: option.split)
      qed
      show ?thesis
      proof (cases "toks_step star cts (rest = []) s")
        case None
        with cs step False sc us gs show ?thesis
          by (auto simp: path_match.simps [of p s] check_rest_parse)
      next
        case (Some t)
        have pl: "plain t"
        proof (cases star)
          case True
          with Some have "toks_find cts (rest = []) s = Some t" by (simp add: toks_step_find)
          from toks_find_Some [OF "1.prems"(1) this] obtain n
            where "toks_match cts (drop n s) = Some t" by blast
          with toks_match_plain(1) [OF plain_drop [OF "1.prems"(1)]] plain_drop [OF "1.prems"(1)]
          show ?thesis by (metis drop_drop)
        next
          case False
          with Some have "toks_match cts s = Some t"
            by (auto simp: toks_step_def split: option.splits if_splits)
          with toks_match_plain(1) [OF "1.prems"(1)] plain_drop [OF "1.prems"(1)] show ?thesis by metis
        qed
        have "path_match p s = path_match rest t"
          using Some cs step False sc by (auto simp: path_match.simps [of p s])
        with "1.IH" [OF False sc [symmetric] refl step cs Some pl us] gs Some show ?thesis by simp
      qed
    qed
  qed
qed

end
