(* ===== verification/Policy.thy ===== *)
theory Policy
  imports Path_Glob
begin

text \<open>
  The egress allowlist, \<open>internal/policy/policy.go\<close>: construction with up-front validation of
  every pattern (\<open>New\<close>), the decision (\<open>Allows\<close>, on a possibly nil policy) and \<open>Patterns\<close>.
  The matcher is used through the interface \<open>host_matcher\<close> and its extension \<open>spec_matcher\<close>,
  which \<open>path_match\<close> is shown to provide.
\<close>

section \<open>The interface of a host matcher\<close>

text \<open>
  What \<open>New\<close> and \<open>Allows\<close> rely on: whether a pattern is malformed does not depend on the name
  it is matched with. That is what makes matching against a dummy name a validation.
\<close>

locale host_matcher =
  fixes mt :: "'p \<Rightarrow> string \<Rightarrow> ('e, bool) result"
    and wf :: "'p \<Rightarrow> bool"
  assumes mt_wf: "(\<exists>b. mt p h = Inr b) \<longleftrightarrow> wf p"
begin

lemma probe_decides: "(\<exists>b. mt p probe = Inr b) \<longleftrightarrow> (\<forall>h. \<exists>b. mt p h = Inr b)"
  by (simp add: mt_wf)

lemma probe_error: "mt p probe = Inl e \<Longrightarrow> \<exists>e'. mt p h = Inl e'"
proof -
  assume "mt p probe = Inl e"
  then have "\<not> wf p" using mt_wf [of p probe] by auto
  then show ?thesis using mt_wf [of p h] by (metis sum.exhaust)
qed

end

text \<open>A matcher with a declarative reading of patterns, on the names of a domain.\<close>

locale spec_matcher = host_matcher mt wf
  for mt :: "'p \<Rightarrow> string \<Rightarrow> ('e, bool) result" and wf :: "'p \<Rightarrow> bool" +
  fixes sem :: "'p \<Rightarrow> string \<Rightarrow> bool"
    and name_ok :: "string \<Rightarrow> bool"
  assumes mt_sem: "wf p \<Longrightarrow> name_ok h \<Longrightarrow> mt p h = Inr (sem p h)"
begin

lemma mt_accepts: "wf p \<Longrightarrow> name_ok h \<Longrightarrow> mt p h = Inr True \<longleftrightarrow> sem p h"
  by (simp add: mt_sem)

end

section \<open>The declarative reading of allowlist patterns\<close>

definition wf_pattern :: "string \<Rightarrow> bool" where
  "wf_pattern p = (case parse_toks True p of Inl _ \<Rightarrow> False | Inr _ \<Rightarrow> True)"

definition pattern_matches :: "string \<Rightarrow> string \<Rightarrow> bool" where
  "pattern_matches p h = (case parse_toks True p of Inl _ \<Rightarrow> False | Inr ts \<Rightarrow> glob ts h)"

interpretation pm: spec_matcher path_match wf_pattern pattern_matches plain
proof
  fix p h
  show "(\<exists>b. path_match p h = Inr b) \<longleftrightarrow> wf_pattern p"
    by (auto simp: path_match_wf wf_pattern_def split: sum.splits)
  show "wf_pattern p \<Longrightarrow> plain h \<Longrightarrow> path_match p h = Inr (pattern_matches p h)"
    by (auto simp: wf_pattern_def pattern_matches_def path_match_glob split: sum.splits)
qed

section \<open>Policy\<close>

record policy =
  pol_patterns :: "string list"

datatype policy_error = InvalidHostPattern string

text \<open>The validation loop of \<open>New\<close>: the first malformed pattern is reported.\<close>

fun validate_patterns :: "string list \<Rightarrow> (policy_error, unit) result" where
  "validate_patterns [] = Inr ()"
| "validate_patterns (p # ps) =
     (case path_match p [] of
        Inl e \<Rightarrow> Inl (InvalidHostPattern p)
      | Inr _ \<Rightarrow> validate_patterns ps)"

definition policy_new :: "string list \<Rightarrow> (policy_error, policy) result" where
  "policy_new patterns =
     rbind (validate_patterns patterns) (\<lambda>_. Inr \<lparr>pol_patterns = patterns\<rparr>)"

text \<open>
  \<open>ok, _ := path.Match(pat, host)\<close>: the matcher's error is dropped and reads as no match. The
  loop is shared by \<open>Allows\<close> and by the MITM host test.
\<close>

definition match_ok :: "string \<Rightarrow> string \<Rightarrow> bool" where
  "match_ok pat host = (case path_match pat host of Inl _ \<Rightarrow> False | Inr ok \<Rightarrow> ok)"

fun any_match :: "string list \<Rightarrow> string \<Rightarrow> bool" where
  "any_match [] host = False"
| "any_match (pat # pats) host = (if match_ok pat host then True else any_match pats host)"

text \<open>A nil policy pointer is \<open>None\<close>.\<close>

definition policy_allows :: "policy option \<Rightarrow> string \<Rightarrow> bool" where
  "policy_allows p host = (case p of None \<Rightarrow> False | Some pol \<Rightarrow> any_match (pol_patterns pol) host)"

definition policy_patterns :: "policy option \<Rightarrow> string list option" where
  "policy_patterns p = (case p of None \<Rightarrow> None | Some pol \<Rightarrow> Some (pol_patterns pol))"

section \<open>Lemmas\<close>

lemma any_match_iff: "any_match ps h \<longleftrightarrow> (\<exists>p \<in> set ps. match_ok p h)"
  by (induction ps) auto

lemma match_ok_sem: "plain h \<Longrightarrow> match_ok p h \<longleftrightarrow> pattern_matches p h"
proof (cases "wf_pattern p")
  case True
  then show "plain h \<Longrightarrow> ?thesis" by (simp add: match_ok_def pm.mt_sem)
next
  case False
  then obtain e where "path_match p h = Inl e" using pm.mt_wf [of p h] by (metis sum.exhaust)
  moreover from False have "\<not> pattern_matches p h"
    by (simp add: pattern_matches_def wf_pattern_def split: sum.splits)
  ultimately show ?thesis by (simp add: match_ok_def)
qed

lemma validate_patterns_ok: "validate_patterns ps = Inr () \<longleftrightarrow> (\<forall>p \<in> set ps. wf_pattern p)"
proof (induction ps)
  case (Cons p ps)
  show ?case
  proof (cases "path_match p []")
    case (Inl e)
    then have "\<not> wf_pattern p" using pm.mt_wf [of p "[]"] by auto
    with Inl show ?thesis by simp
  next
    case (Inr b)
    then have "wf_pattern p" using pm.mt_wf [of p "[]"] by auto
    with Inr Cons show ?thesis by simp
  qed
qed simp

lemma policy_new_ok:
  "policy_new ps = Inr pol \<longleftrightarrow> (\<forall>p \<in> set ps. wf_pattern p) \<and> pol = \<lparr>pol_patterns = ps\<rparr>"
  by (auto simp: policy_new_def rbind_eq_Inr validate_patterns_ok)

text \<open>Patterns without metacharacters, alone or after a leading star.\<close>

definition literal :: "string \<Rightarrow> bool" where
  "literal p \<longleftrightarrow> (\<forall>c \<in> set p. \<not> is_meta c)"

lemma literal_Cons [simp]: "literal (c # p) \<longleftrightarrow> \<not> is_meta c \<and> literal p"
  by (simp add: literal_def)

lemma parse_literal: "literal p \<Longrightarrow> parse_toks stars p = Inr (map GLit p)"
  by (induction p) (auto simp: literal_def)

lemma glob_literal: "glob (map GLit p) s \<longleftrightarrow> s = p"
proof (induction p arbitrary: s)
  case (Cons c p)
  then show ?case by (cases s) (auto simp: glob_tok)
qed simp

lemma pattern_matches_literal: "literal p \<Longrightarrow> pattern_matches p h \<longleftrightarrow> h = p"
  by (simp add: pattern_matches_def parse_literal glob_literal)

lemma pattern_matches_star:
  assumes "literal p" and "plain h"
  shows "pattern_matches (CHR ''*'' # p) h \<longleftrightarrow> has_suffix h p"
proof -
  have "pattern_matches (CHR ''*'' # p) h \<longleftrightarrow> (\<exists>n \<le> length h. drop n h = p)"
    using assms
    by (simp add: pattern_matches_def is_star_def parse_literal glob_star_plain glob_literal)
  also have "\<dots> \<longleftrightarrow> has_suffix h p"
    by (metis has_suffix_def diff_diff_cancel diff_le_self length_drop)
  finally show ?thesis .
qed

lemma wf_literal: "literal p \<Longrightarrow> wf_pattern p"
  and wf_star_literal: "literal p \<Longrightarrow> wf_pattern (CHR ''*'' # p)"
  by (simp_all add: wf_pattern_def parse_literal is_star_def)

section \<open>Properties\<close>

text \<open>
  C9. The allowlist decision is the declarative one: a policy that \<open>New\<close> has accepted allows a
  plain host name exactly when one of the configured patterns, read as a glob, matches it.
\<close>

theorem allows_iff_pattern_matches:
  assumes "policy_new ps = Inr pol" and "plain h"
  shows "policy_allows (Some pol) h \<longleftrightarrow> (\<exists>p \<in> set ps. pattern_matches p h)"
  using assms by (simp add: policy_allows_def any_match_iff match_ok_sem policy_new_ok)

theorem allows_iff_pattern_matches_witness:
  "\<exists>pol. policy_allows (Some pol) ''a.io''"
proof -
  have l: "literal ''a.io''" by (simp add: literal_def is_meta_def is_star_def)
  have n: "policy_new [''a.io''] = Inr \<lparr>pol_patterns = [''a.io'']\<rparr>"
    by (simp add: policy_new_ok wf_literal [OF l])
  have p: "plain ''a.io''" by simp
  have "policy_allows (Some \<lparr>pol_patterns = [''a.io'']\<rparr>) ''a.io''"
    using allows_iff_pattern_matches [OF n p] pattern_matches_literal [OF l] by simp
  then show ?thesis by blast
qed

text \<open>
  Validation at startup is complete: \<open>New\<close> accepts a list of patterns exactly when no
  pattern of it can make the matcher fail on any host whatever, so \<open>Allows\<close> may ignore the
  matcher's error.
\<close>

theorem policy_new_validates:
  "(\<exists>pol. policy_new ps = Inr pol) \<longleftrightarrow> (\<forall>p \<in> set ps. \<forall>h. \<exists>b. path_match p h = Inr b)"
  by (auto simp: policy_new_ok pm.mt_wf)

theorem policy_new_validates_witness:
  "(\<exists>pol. policy_new [''*.io''] = Inr pol) \<and> (\<forall>h. \<exists>b. path_match ''*.io'' h = Inr b)
   \<and> (\<nexists>pol. policy_new [''a['', ''b''] = Inr pol)"
proof -
  have l: "literal ''.io''" by (simp add: literal_def is_meta_def is_star_def)
  have ok: "\<exists>pol. policy_new [''*.io''] = Inr pol" by (simp add: policy_new_ok wf_star_literal [OF l])
  have bad: "path_match ''a['' [] = Inl ErrBadPattern" by code_simp
  have "\<not> (\<forall>p \<in> set [''a['', ''b'']. \<forall>h. \<exists>b. path_match p h = Inr b)"
    using bad by (metis Inl_Inr_False list.set_intros(1))
  then show ?thesis
    using policy_new_validates [of "[''*.io'']"] policy_new_validates [of "[''a['', ''b'']"] ok by auto
qed

text \<open>
  The documented subdomain wildcard: a policy with the single pattern \<open>*.\<close> followed by a
  domain without metacharacters allows exactly the hosts that end in a dot and that domain, at
  any depth of subdomains; the bare domain is not one of them.
\<close>

theorem wildcard_allows_subdomains:
  assumes "literal d" and "plain h"
  shows "\<exists>pol. policy_new [''*.'' @ d] = Inr pol \<and>
    (policy_allows (Some pol) h \<longleftrightarrow> (\<exists>sub. h = sub @ ''.'' @ d)) \<and>
    \<not> (\<exists>sub. d = sub @ ''.'' @ d)"
proof -
  have l: "literal (''.'' @ d)" using assms(1) by (simp add: is_meta_def is_star_def)
  have "policy_new [''*.'' @ d] = Inr \<lparr>pol_patterns = [''*.'' @ d]\<rparr>"
    using wf_star_literal [OF l] by (simp add: policy_new_ok)
  moreover have "policy_allows (Some \<lparr>pol_patterns = [''*.'' @ d]\<rparr>) h \<longleftrightarrow> has_suffix h (''.'' @ d)"
    using pattern_matches_star [OF l assms(2)]
    by (simp add: policy_allows_def match_ok_sem [OF assms(2)])
  ultimately show ?thesis by (auto simp: has_suffix_iff)
qed

theorem wildcard_allows_subdomains_witness:
  "\<exists>pol. policy_new [''*.x.io''] = Inr pol \<and> policy_allows (Some pol) ''a.b.x.io''"
proof -
  have l: "literal ''x.io''" by (simp add: literal_def is_meta_def is_star_def)
  have p: "plain ''a.b.x.io''" by simp
  have "''a.b.x.io'' = ''a.b'' @ ''.'' @ ''x.io''" by simp
  then show ?thesis using wildcard_allows_subdomains [OF l p] by auto
qed

text \<open>
  Deny by default: a nil policy and a policy without patterns allow no host at all, and a
  policy of literal host names allows nothing but those names.
\<close>

theorem deny_by_default:
  assumes "\<forall>p \<in> set ps. literal p" and "plain h"
  shows "\<not> policy_allows None h \<and>
    (\<exists>pol. policy_new ps = Inr pol \<and> (policy_allows (Some pol) h \<longleftrightarrow> h \<in> set ps))"
proof -
  have "policy_new ps = Inr \<lparr>pol_patterns = ps\<rparr>"
    using assms(1) by (simp add: policy_new_ok wf_literal)
  moreover have "policy_allows (Some \<lparr>pol_patterns = ps\<rparr>) h \<longleftrightarrow> h \<in> set ps"
    using assms by (auto simp: policy_allows_def any_match_iff match_ok_sem pattern_matches_literal)
  ultimately show ?thesis by (auto simp: policy_allows_def)
qed

theorem deny_by_default_witness:
  "(\<exists>pol. policy_new [] = Inr pol \<and> \<not> policy_allows (Some pol) ''x.io'') \<and>
   (\<exists>pol. policy_new [''a.io''] = Inr pol \<and> policy_allows (Some pol) ''a.io'')"
proof -
  have l: "\<forall>p \<in> set [''a.io'']. literal p" by (simp add: literal_def is_meta_def is_star_def)
  show ?thesis
    using deny_by_default [of "[]" "''x.io''"] deny_by_default [OF l, of "''a.io''"] by simp
qed

section \<open>Where the matcher differs from fnmatch\<close>

text \<open>
  The negation sign of a class is \<open>^\<close>, not \<open>!\<close>: \<open>[!a]\<close> matches an exclamation mark or an
  \<open>a\<close>. A star does cross dots.
\<close>

lemmas class_eval = parse_class.simps get_range_def get_esc_def class_rune_def class_neg_def rune_error_def

lemma bang_class_is_not_negation:
  "match_ok ''[!a]'' ''a'' \<and> \<not> match_ok ''[!a]'' ''b'' \<and> match_ok ''[^a]'' ''b''"
  by (simp add: match_ok_sem pattern_matches_def class_eval glob_tok in_ranges_def)

lemma star_crosses_dots: "match_ok ''*.io'' ''a.b.io''"
  using pattern_matches_star [of "''.io''" "''a.b.io''"]
  by (simp add: match_ok_sem is_meta_def is_star_def literal_def has_suffix_def)

end
