(* ===== verification/Float64.thy ===== *)
theory Float64
  imports Complex_Main Prelude "HOL-Library.Log_Nat"
begin

text \<open>
  Go's \<open>float64\<close> on exact rationals: rounding to nearest, ties to even, with 53 significant
  bits and the subnormal grid; infinities and NaN as values of their own. The two zeros are
  identified: no operation of the engine tells them apart. \<open>rounding\<close> is the interface the
  rate limiter's analysis rests on; \<open>rnd64\<close> provides it.
\<close>

section \<open>Rounding\<close>

text \<open>The exponent of a positive rational: \<open>2 powi ilog2 x \<le> x < 2 powi (ilog2 x + 1)\<close>.\<close>

definition ilog2 :: "rat \<Rightarrow> int" where
  "ilog2 x =
     (let (n, d) = quotient_of x; e = bitlen n - bitlen d in
      if x < 2 powi e then e - 1 else e)"

definition ulp64 :: "rat \<Rightarrow> rat" where
  "ulp64 x = 2 powi (max (ilog2 \<bar>x\<bar> - 52) (- 1074))"

definition round_even :: "rat \<Rightarrow> int" where
  "round_even q =
     (let f = \<lfloor>q\<rfloor>; r = q - of_int f in
      if r < 1 / 2 then f else if 1 / 2 < r then f + 1 else if even f then f else f + 1)"

definition rnd64 :: "rat \<Rightarrow> rat" where
  "rnd64 x = (if x = 0 then 0 else of_int (round_even (x / ulp64 x)) * ulp64 x)"

lemma powi_add_rat: "(2 :: rat) powi (a + b) = 2 powi a * 2 powi b"
  by (simp add: power_int_add)

lemma powi_mono_rat: "a \<le> b \<Longrightarrow> (2 :: rat) powi a \<le> 2 powi b"
  by (simp add: power_int_increasing)

lemma powi_strict_mono_rat: "a < b \<Longrightarrow> (2 :: rat) powi a < 2 powi b"
  by (simp add: power_int_strict_increasing)

lemma powi_53: "(2 :: rat) powi (53 + e) = 2 ^ 53 * 2 powi e"
  by (simp add: powi_add_rat)

lemma powi_of_int: "0 \<le> a \<Longrightarrow> (2 :: rat) powi a = of_int (2 ^ nat a)"
  by (simp add: power_int_def)

lemma bitlen_powi:
  assumes "0 < n"
  shows "2 powi (bitlen n - 1) \<le> (of_int n :: rat)" and "(of_int n :: rat) < 2 powi (bitlen n)"
proof -
  have b: "0 < bitlen n" using assms bitlen_eq_zero_iff [of n] bitlen_nonneg [of n] by simp
  from bitlen_bounds [OF assms] have "2 ^ nat (bitlen n - 1) \<le> n" "n < 2 ^ nat (bitlen n)" by simp_all
  then show "2 powi (bitlen n - 1) \<le> (of_int n :: rat)" "(of_int n :: rat) < 2 powi (bitlen n)"
    using b by (simp_all only: powi_of_int of_int_le_iff of_int_less_iff)
qed

lemma ilog2_bounds:
  assumes "0 < x"
  shows "2 powi ilog2 x \<le> x" and "x < 2 powi (ilog2 x + 1)"
proof -
  obtain n d where q: "quotient_of x = (n, d)" by fastforce
  have x: "x = of_int n / of_int d" by (rule quotient_of_div [OF q])
  have d: "0 < d" by (rule quotient_of_denom_pos [OF q])
  have n: "0 < n" using assms d by (simp add: x zero_less_divide_iff)
  define a b where "a = bitlen n" and "b = bitlen d"
  have ab: "0 < a" "0 < b" using n d bitlen_eq_zero_iff [of n] bitlen_eq_zero_iff [of d]
      bitlen_nonneg [of n] bitlen_nonneg [of d]
    by (simp_all add: a_def b_def)
  note nb = bitlen_powi [OF n, folded a_def] and db = bitlen_powi [OF d, folded b_def]
  have up: "x < 2 powi (a - b + 1)"
  proof -
    have "x \<le> of_int n / 2 powi (b - 1)"
      unfolding x using db(1) n d by (intro divide_left_mono) auto
    also have "\<dots> < 2 powi a / 2 powi (b - 1)" using nb(2) by (simp add: divide_strict_right_mono)
    also have "\<dots> = 2 powi (a - b + 1)" by (simp add: power_int_diff power_int_add)
    finally show ?thesis .
  qed
  have lo: "2 powi (a - b - 1) \<le> x"
  proof -
    have "2 powi (a - b - 1) = (2 powi (a - 1) :: rat) / 2 powi b"
      by (simp add: power_int_diff)
    also have "\<dots> \<le> of_int n / 2 powi b" using nb(1) by (simp add: divide_right_mono)
    also have "\<dots> \<le> x" unfolding x using db(2) n d by (intro divide_left_mono) auto
    finally show ?thesis .
  qed
  show "2 powi ilog2 x \<le> x" "x < 2 powi (ilog2 x + 1)"
    using up lo by (auto simp: ilog2_def q a_def b_def Let_def)
qed

lemma ilog2_unique:
  assumes "2 powi e \<le> x" and "x < 2 powi (e + 1)"
  shows "ilog2 x = e"
proof -
  have "(0 :: rat) < 2 powi e" by simp
  with assms(1) have x: "0 < x" by linarith
  from ilog2_bounds [OF x] assms have "(2 :: rat) powi e < 2 powi (ilog2 x + 1)"
    "(2 :: rat) powi ilog2 x < 2 powi (e + 1)" by linarith+
  then have "e < ilog2 x + 1" "ilog2 x < e + 1"
    by (meson powi_mono_rat not_le)+
  then show ?thesis by simp
qed

lemma ilog2_mono: "0 < x \<Longrightarrow> x \<le> y \<Longrightarrow> ilog2 x \<le> ilog2 y"
proof (rule ccontr)
  assume "0 < x" "x \<le> y" "\<not> ilog2 x \<le> ilog2 y"
  then have "(2 :: rat) powi (ilog2 y + 1) \<le> 2 powi ilog2 x" by (intro powi_mono_rat) simp
  with \<open>0 < x\<close> \<open>x \<le> y\<close> ilog2_bounds(1) [of x] ilog2_bounds(2) [of y] show False by linarith
qed

lemma ulp64_pos [simp]: "0 < ulp64 x"
  by (simp add: ulp64_def)

lemma round_even_err: "\<bar>of_int (round_even q) - q\<bar> \<le> 1 / 2"
proof -
  have "of_int \<lfloor>q\<rfloor> \<le> q" "q < of_int \<lfloor>q\<rfloor> + 1" by linarith+
  then show ?thesis by (auto simp: round_even_def Let_def abs_le_iff)
qed

lemma round_even_int [simp]: "round_even (of_int k) = k"
  by (simp add: round_even_def)

lemma round_even_mono: "p \<le> q \<Longrightarrow> round_even p \<le> round_even q"
proof -
  assume pq: "p \<le> q"
  then have fl: "\<lfloor>p\<rfloor> \<le> \<lfloor>q\<rfloor>" by (rule floor_mono)
  show ?thesis
  proof (cases "\<lfloor>p\<rfloor> = \<lfloor>q\<rfloor>")
    case True
    with pq show ?thesis by (auto simp: round_even_def Let_def)
  next
    case False
    with fl have "\<lfloor>p\<rfloor> + 1 \<le> \<lfloor>q\<rfloor>" by simp
    moreover have "round_even p \<le> \<lfloor>p\<rfloor> + 1" "\<lfloor>q\<rfloor> \<le> round_even q"
      by (auto simp: round_even_def Let_def)
    ultimately show ?thesis by linarith
  qed
qed

lemma rnd64_nonneg: "0 \<le> x \<Longrightarrow> 0 \<le> rnd64 x"
proof -
  assume "0 \<le> x"
  then have "0 \<le> x / ulp64 x" by (simp add: less_imp_le)
  then have "round_even 0 \<le> round_even (x / ulp64 x)" by (rule round_even_mono)
  then show ?thesis using round_even_int [of 0] by (simp add: rnd64_def less_imp_le)
qed

text \<open>A grid point with at most 53 significant bits is its own rounding.\<close>

lemma rnd64_grid:
  assumes "0 \<le> k" and "k \<le> 2 ^ 53" and "- 1074 \<le> e"
  shows "rnd64 (of_int k * 2 powi e) = of_int k * 2 powi e"
proof (cases "k = 0")
  case True
  then show ?thesis by (simp add: rnd64_def)
next
  case False
  define x :: rat where "x = of_int k * 2 powi e"
  have x: "0 < x" using False assms(1) by (simp add: x_def)
  have "\<exists>m. x = of_int m * ulp64 x"
  proof (cases "k = 2 ^ 53")
    case True
    have "x = 2 powi (53 + e)" by (simp add: x_def True powi_53)
    moreover have "ilog2 (2 powi (53 + e)) = 53 + e"
      by (rule ilog2_unique) (simp_all add: powi_strict_mono_rat)
    ultimately have "ulp64 x = 2 powi (1 + e)" using assms(3) by (simp add: ulp64_def max_def)
    then have "x = of_int (2 ^ 52) * ulp64 x"
      by (simp add: x_def True powi_add_rat)
    then show ?thesis by blast
  next
    case k: False
    have "(of_int k :: rat) < 2 ^ 53"
      using assms(2) k by (metis of_int_less_iff of_int_numeral of_int_power order_le_imp_less_or_eq)
    then have "x < 2 powi (53 + e)" by (simp add: x_def powi_53)
    with ilog2_bounds(1) [OF x] have "(2 :: rat) powi ilog2 x < 2 powi (53 + e)" by linarith
    then have "ilog2 x < 53 + e" by (meson powi_mono_rat not_le)
    then have le: "max (ilog2 x - 52) (- 1074) \<le> e" using assms(3) by simp
    define j where "j = nat (e - max (ilog2 x - 52) (- 1074))"
    have "(2 :: rat) powi e = 2 ^ j * ulp64 x"
      using le x
      by (simp add: ulp64_def j_def flip: power_int_of_nat powi_add_rat)
    then have "x = of_int (k * 2 ^ j) * ulp64 x" by (simp add: x_def)
    then show ?thesis by blast
  qed
  then obtain m where m: "x = of_int m * ulp64 x" by blast
  have "x / ulp64 x = of_int m" by (subst m) (simp add: less_imp_neq [OF ulp64_pos, symmetric])
  then have "rnd64 x = of_int m * ulp64 x" using x by (simp add: rnd64_def)
  with m show ?thesis by (simp add: x_def)
qed

lemma rnd64_form:
  assumes "0 < x"
  obtains k e where "rnd64 x = of_int k * 2 powi e" and "0 \<le> k" and "k \<le> 2 ^ 53"
    and "- 1074 \<le> e" and "e = max (ilog2 x - 52) (- 1074)"
proof -
  define e where "e = max (ilog2 x - 52) (- 1074)"
  define k where "k = round_even (x / ulp64 x)"
  have u: "ulp64 x = 2 powi e" using assms by (simp add: ulp64_def e_def)
  have "0 \<le> x / ulp64 x" using assms by (simp add: less_imp_le)
  then have k0: "0 \<le> k" using round_even_mono [of 0] round_even_int [of 0] by (simp add: k_def)
  have "x < 2 powi (53 + e)"
    using ilog2_bounds(2) [OF assms] powi_mono_rat [of "ilog2 x + 1" "53 + e"]
    by (auto simp: e_def max_def)
  then have "x / ulp64 x \<le> of_int (2 ^ 53)"
    by (simp add: u powi_53 divide_le_eq)
  then have "k \<le> 2 ^ 53"
    unfolding k_def by (metis round_even_mono round_even_int)
  moreover have "rnd64 x = of_int k * 2 powi e" using assms by (simp add: rnd64_def k_def u)
  ultimately show thesis using that k0 by (simp add: e_def)
qed

lemma rnd64_zero [simp]: "rnd64 0 = 0"
  by (simp add: rnd64_def)

lemma rnd64_idem: "0 \<le> x \<Longrightarrow> rnd64 (rnd64 x) = rnd64 x"
proof (cases "x = 0")
  case False
  assume "0 \<le> x"
  with False have "0 < x" by simp
  then obtain k e where "rnd64 x = of_int k * 2 powi e" "0 \<le> k" "k \<le> 2 ^ 53" "- 1074 \<le> e"
    by (rule rnd64_form)
  then show ?thesis using rnd64_grid [of k e] by simp
qed simp

text \<open>A value never rounds past the next power of two, nor below its own.\<close>

lemma rnd64_mono:
  assumes "0 \<le> x" and "x \<le> y"
  shows "rnd64 x \<le> rnd64 y"
proof (cases "x = 0")
  case True
  with assms show ?thesis using rnd64_nonneg [of y] by simp
next
  case False
  with assms have x: "0 < x" "0 < y" by auto
  have le: "ilog2 x \<le> ilog2 y" by (rule ilog2_mono [OF x(1) assms(2)])
  define ex ey where "ex = max (ilog2 x - 52) (- 1074)" and "ey = max (ilog2 y - 52) (- 1074)"
  have u: "ulp64 x = 2 powi ex" "ulp64 y = 2 powi ey" using x by (simp_all add: ulp64_def ex_def ey_def)
  show ?thesis
  proof (cases "ex = ey")
    case True
    have "round_even (x / ulp64 x) \<le> round_even (y / ulp64 y)"
      using assms(2) by (intro round_even_mono) (simp add: u True divide_right_mono)
    then show ?thesis using x by (simp add: rnd64_def u True)
  next
    case False
    with le have lt: "ex + 1 \<le> ey" by (auto simp: ex_def ey_def max_def split: if_splits)
    then have ey: "ey = ilog2 y - 52" by (auto simp: ex_def ey_def)
    obtain k where k: "rnd64 x = of_int k * 2 powi ex" "k \<le> 2 ^ 53"
      using rnd64_form [OF x(1)] by (metis ex_def)
    have "rnd64 x \<le> of_int (2 ^ 53) * 2 powi ex"
      unfolding k(1) using k(2) by (intro mult_right_mono) (simp_all only: of_int_le_iff, simp)
    also have "\<dots> = 2 powi (52 + (ex + 1))" by (simp add: powi_add_rat)
    also have "\<dots> \<le> 2 powi (52 + ey)" using lt by (intro powi_mono_rat) simp
    also have "\<dots> \<le> rnd64 y"
    proof -
      have "of_int (2 ^ 52) \<le> y / ulp64 y"
        using ilog2_bounds(1) [OF x(2)] powi_add_rat [of 52 "ilog2 y - 52"]
        by (simp add: u ey le_divide_eq)
      then have "round_even (of_int (2 ^ 52)) \<le> round_even (y / ulp64 y)" by (rule round_even_mono)
      then have "2 ^ 52 \<le> round_even (y / ulp64 y)" by (simp only: round_even_int)
      then have "of_int (2 ^ 52) * 2 powi ey \<le> (of_int (round_even (y / ulp64 y)) * 2 powi ey :: rat)"
        by (intro mult_right_mono) (simp_all only: of_int_le_iff, simp)
      then show ?thesis using x by (simp add: rnd64_def u powi_add_rat)
    qed
    finally show ?thesis .
  qed
qed

text \<open>The relative and the absolute error of one rounding.\<close>

definition u64 :: rat where
  "u64 = 1 / 2 ^ 53"

definition eta64 :: rat where
  "eta64 = 2 powi (- 1075)"

lemma eta64_le: "eta64 \<le> u64"
proof -
  have "u64 = 2 powi (- 53)" by (simp add: u64_def power_int_minus)
  moreover have "eta64 \<le> 2 powi (- 53)" unfolding eta64_def by (rule powi_mono_rat) simp
  ultimately show ?thesis by simp
qed

lemma rnd64_err:
  assumes "0 \<le> x"
  shows "rnd64 x \<le> x * (1 + u64) + eta64"
proof (cases "x = 0")
  case False
  with assms have x: "0 < x" by simp
  have "\<bar>of_int (round_even (x / ulp64 x)) - x / ulp64 x\<bar> * ulp64 x \<le> 1 / 2 * ulp64 x"
    by (intro mult_right_mono round_even_err) (simp add: less_imp_le)
  moreover have "(of_int (round_even (x / ulp64 x)) - x / ulp64 x) * ulp64 x = rnd64 x - x"
    using x by (simp add: rnd64_def left_diff_distrib less_imp_neq [OF ulp64_pos, symmetric])
  ultimately have "\<bar>rnd64 x - x\<bar> \<le> 1 / 2 * ulp64 x"
    by (metis abs_mult abs_of_pos ulp64_pos)
  moreover have "1 / 2 * ulp64 x \<le> x * u64 + eta64"
  proof -
    have "2 powi (ilog2 x - 52) = (2 powi ilog2 x :: rat) / 2 ^ 52" by (simp add: power_int_diff)
    also have "\<dots> \<le> x / 2 ^ 52" using ilog2_bounds(1) [OF x] by (simp add: divide_right_mono)
    finally have a: "2 powi (ilog2 x - 52) \<le> x / 2 ^ 52" .
    have b: "2 powi (- 1074) = 2 * eta64"
      unfolding eta64_def using powi_add_rat [of 1 "- 1075"] by simp
    have "0 \<le> eta64" "0 \<le> x / 2 ^ 52" using x by (simp_all add: eta64_def)
    then have "ulp64 x \<le> x / 2 ^ 52 + 2 * eta64"
      using a b x unfolding ulp64_def max_def by auto
    then show ?thesis by (simp add: u64_def)
  qed
  ultimately have "rnd64 x \<le> x + (x * u64 + eta64)" by (simp only: abs_le_iff) linarith
  then show ?thesis by (simp add: algebra_simps)
qed (simp add: eta64_def)

section \<open>The interface of a rounding\<close>

text \<open>
  What the analysis of the token bucket uses of floating-point arithmetic on non-negative values:
  rounding is monotone, leaves rounded values alone, and is off by at most a relative error
  \<open>u\<close> and an absolute error \<open>eta\<close>.
\<close>

locale rounding =
  fixes rnd :: "rat \<Rightarrow> rat" and u eta :: rat
  assumes rnd_mono: "0 \<le> x \<Longrightarrow> x \<le> y \<Longrightarrow> rnd x \<le> rnd y"
    and rnd_idem: "0 \<le> x \<Longrightarrow> rnd (rnd x) = rnd x"
    and rnd_zero: "rnd 0 = 0"
    and rnd_err: "0 \<le> x \<Longrightarrow> rnd x \<le> x * (1 + u) + eta"
    and u_bounds: "0 \<le> u" "u \<le> 1"
    and eta_nonneg: "0 \<le> eta"
begin

lemma rnd_nonneg: "0 \<le> x \<Longrightarrow> 0 \<le> rnd x"
  using rnd_mono [of 0 x] by (simp add: rnd_zero)

lemma rnd_le_fix: "0 \<le> x \<Longrightarrow> x \<le> b \<Longrightarrow> rnd b = b \<Longrightarrow> rnd x \<le> b"
  using rnd_mono [of x b] by simp

lemma rnd_ge_fix: "0 \<le> b \<Longrightarrow> b \<le> x \<Longrightarrow> rnd b = b \<Longrightarrow> b \<le> rnd x"
  using rnd_mono [of b x] by simp

text \<open>A value capped at \<open>b\<close> is off by a rounding error of \<open>b\<close> at most.\<close>

lemma capped_err:
  assumes "0 \<le> x" and "0 \<le> b"
  shows "min b (rnd x) \<le> x + (u * b + eta)"
proof (cases "x \<le> b")
  case True
  have "rnd x \<le> x + x * u + eta" using rnd_err [OF assms(1)] by (simp add: algebra_simps)
  moreover have "x * u \<le> u * b"
    using mult_right_mono [OF True u_bounds(1)] by (simp add: mult.commute)
  ultimately show ?thesis by simp
next
  case False
  then show ?thesis using assms(2) u_bounds(1) eta_nonneg by (simp add: min_le_iff_disj add_increasing2)
qed

lemma rnd_err2:
  assumes "0 \<le> x"
  shows "rnd (rnd x) \<le> x * (1 + u) + eta" "rnd x * (1 + u) \<le> x * (1 + u) ^ 2 + eta * (1 + u)"
proof -
  show "rnd (rnd x) \<le> x * (1 + u) + eta" using rnd_err [OF assms] rnd_idem [OF assms] by simp
  have "rnd x * (1 + u) \<le> (x * (1 + u) + eta) * (1 + u)"
    using rnd_err [OF assms] u_bounds(1) by (intro mult_right_mono) simp_all
  then show "rnd x * (1 + u) \<le> x * (1 + u) ^ 2 + eta * (1 + u)"
    by (simp add: power2_eq_square algebra_simps)
qed

end

lemma u64_bounds: "0 \<le> u64" "u64 \<le> 1" "0 \<le> eta64"
  by (simp_all add: u64_def eta64_def)

interpretation r64: rounding rnd64 u64 eta64
  by unfold_locales (simp_all add: rnd64_mono rnd64_idem rnd64_err u64_bounds)

section \<open>float64 values and operations\<close>

datatype f64 = Fin rat | PosInf | NegInf | NaN

definition max_f64 :: rat where
  "max_f64 = (2 ^ 53 - 1) * 2 ^ 971"

definition f64_of_rat :: "rat \<Rightarrow> f64" where
  "f64_of_rat x =
     (let r = rnd64 x in if max_f64 < r then PosInf else if r < - max_f64 then NegInf else Fin r)"

fun f_add :: "f64 \<Rightarrow> f64 \<Rightarrow> f64" where
  "f_add (Fin a) (Fin b) = f64_of_rat (a + b)"
| "f_add NaN _ = NaN"
| "f_add _ NaN = NaN"
| "f_add PosInf NegInf = NaN"
| "f_add NegInf PosInf = NaN"
| "f_add PosInf _ = PosInf"
| "f_add NegInf _ = NegInf"
| "f_add _ PosInf = PosInf"
| "f_add _ NegInf = NegInf"

fun f_neg :: "f64 \<Rightarrow> f64" where
  "f_neg (Fin a) = Fin (- a)"
| "f_neg PosInf = NegInf"
| "f_neg NegInf = PosInf"
| "f_neg NaN = NaN"

definition f_sub :: "f64 \<Rightarrow> f64 \<Rightarrow> f64" where
  "f_sub a b = f_add a (f_neg b)"

definition inf_of_sign :: "rat \<Rightarrow> f64" where
  "inf_of_sign s = (if s = 0 then NaN else if 0 < s then PosInf else NegInf)"

fun f_mul :: "f64 \<Rightarrow> f64 \<Rightarrow> f64" where
  "f_mul (Fin a) (Fin b) = f64_of_rat (a * b)"
| "f_mul NaN _ = NaN"
| "f_mul _ NaN = NaN"
| "f_mul (Fin a) PosInf = inf_of_sign a"
| "f_mul (Fin a) NegInf = inf_of_sign (- a)"
| "f_mul PosInf (Fin a) = inf_of_sign a"
| "f_mul NegInf (Fin a) = inf_of_sign (- a)"
| "f_mul PosInf PosInf = PosInf"
| "f_mul NegInf NegInf = PosInf"
| "f_mul _ _ = NegInf"

text \<open>Division by a positive constant, the only division the engine performs.\<close>

fun f_div_const :: "f64 \<Rightarrow> rat \<Rightarrow> f64" where
  "f_div_const (Fin a) c = f64_of_rat (a / c)"
| "f_div_const x c = x"

text \<open>math.Min.\<close>

fun f_min :: "f64 \<Rightarrow> f64 \<Rightarrow> f64" where
  "f_min NegInf _ = NegInf"
| "f_min _ NegInf = NegInf"
| "f_min NaN _ = NaN"
| "f_min _ NaN = NaN"
| "f_min PosInf x = x"
| "f_min x PosInf = x"
| "f_min (Fin a) (Fin b) = Fin (min a b)"

text \<open>The comparison \<open>x \<le> y\<close>, false on NaN.\<close>

fun f_le :: "f64 \<Rightarrow> f64 \<Rightarrow> bool" where
  "f_le NaN _ = False"
| "f_le _ NaN = False"
| "f_le NegInf _ = True"
| "f_le _ PosInf = True"
| "f_le (Fin a) (Fin b) = (a \<le> b)"
| "f_le _ _ = False"

lemma rnd64_of_nat: "n \<le> 2 ^ 53 \<Longrightarrow> rnd64 (of_nat n) = of_nat n"
  using rnd64_grid [of "int n" 0] by simp

lemma max_f64_pos: "0 < max_f64"
  by (simp add: max_f64_def)

lemma max_f64_fix: "rnd64 max_f64 = max_f64"
  using rnd64_grid [of "2 ^ 53 - 1" 971] by (simp add: max_f64_def)

lemma f64_of_rat_nonneg:
  "0 \<le> x \<Longrightarrow> f64_of_rat x = (if max_f64 < rnd64 x then PosInf else Fin (rnd64 x))"
  using rnd64_nonneg [of x] max_f64_pos by (simp add: f64_of_rat_def Let_def)

lemma f64_of_rat_fin:
  "0 \<le> x \<Longrightarrow> x \<le> max_f64 \<Longrightarrow> f64_of_rat x = Fin (rnd64 x)"
  using r64.rnd_le_fix [OF _ _ max_f64_fix, of x] by (simp add: f64_of_rat_nonneg)

lemma of_nat_le_max_f64: "n \<le> 2 ^ 53 \<Longrightarrow> of_nat n \<le> max_f64"
proof -
  assume "n \<le> 2 ^ 53"
  then have "(of_nat n :: rat) \<le> of_nat (2 ^ 53)" by (simp only: of_nat_le_iff)
  also have "\<dots> \<le> max_f64" by (simp add: max_f64_def)
  finally show ?thesis .
qed

lemma f64_of_nat: "n \<le> 2 ^ 53 \<Longrightarrow> f64_of_rat (of_nat n) = Fin (of_nat n)"
  by (simp add: f64_of_rat_fin of_nat_le_max_f64 rnd64_of_nat)

end
