(* ===== verification/Go_Text.thy ===== *)
theory Go_Text
  imports Go_Strings
begin

text \<open>
  The Unicode-aware functions of Go's \<open>strings\<close> package: \<open>TrimSpace\<close>, and \<open>ToLower\<close> as far
  as a comparison with ASCII words can see it.
\<close>

section \<open>strings.TrimSpace\<close>

definition is_space_rune :: "nat \<Rightarrow> bool" where
  "is_space_rune r \<longleftrightarrow>
     9 \<le> r \<and> r \<le> 13 \<or> r = 32 \<or> r = 133 \<or> r = 160 \<or> r = 5760 \<or> 8192 \<le> r \<and> r \<le> 8202 \<or>
     r = 8232 \<or> r = 8233 \<or> r = 8239 \<or> r = 8287 \<or> r = 12288"

text \<open>
  utf8.DecodeLastRuneInString: back over at most three continuation bytes to a byte that can
  start a rune, which must then decode to exactly the rest of the string.
\<close>

definition decode_last_rune :: "string \<Rightarrow> nat \<times> nat" where
  "decode_last_rune s =
     (case rev s of
        [] \<Rightarrow> (rune_error, 0)
      | c # r \<Rightarrow>
          if byte c < 128 then (byte c, 1)
          else
            (let m = length (takeWhile (\<lambda>d. is_cont (byte d)) (take 3 r)) + 2;
                 d = decode_rune (drop (length s - m) s) in
             if snd d = m then d else (rune_error, 1)))"

lemma decode_last_rune_size_pos: "s \<noteq> [] \<Longrightarrow> 0 < snd (decode_last_rune s)"
  by (auto simp: decode_last_rune_def Let_def split: list.splits)

lemma decode_last_rune_ascii: "byte c < 128 \<Longrightarrow> decode_last_rune (s @ [c]) = (byte c, 1)"
  by (simp add: decode_last_rune_def)

function trim_left_space :: "string \<Rightarrow> string" where
  "trim_left_space s =
     (if s \<noteq> [] \<and> is_space_rune (fst (decode_rune s))
      then trim_left_space (drop (snd (decode_rune s)) s) else s)"
  by pat_completeness auto
termination
  by (relation "measure length") (auto simp: decode_rune_size_pos)

function trim_right_space :: "string \<Rightarrow> string" where
  "trim_right_space s =
     (if s \<noteq> [] \<and> is_space_rune (fst (decode_last_rune s))
      then trim_right_space (take (length s - snd (decode_last_rune s)) s) else s)"
  by pat_completeness auto
termination
proof (relation "measure length")
  fix s :: string
  assume "s \<noteq> [] \<and> is_space_rune (fst (decode_last_rune s))"
  then show "(take (length s - snd (decode_last_rune s)) s, s) \<in> measure length"
    using decode_last_rune_size_pos [of s] by (cases s) auto
qed simp

declare trim_left_space.simps [simp del] trim_right_space.simps [simp del]

definition trim_space :: "string \<Rightarrow> string" where
  "trim_space s = trim_right_space (trim_left_space s)"

text \<open>A visible ASCII character: the trimming stops there.\<close>

definition visible :: "char \<Rightarrow> bool" where
  "visible c \<longleftrightarrow> 32 < byte c \<and> byte c < 127"

lemma visible_not_space: "visible c \<Longrightarrow> \<not> is_space_rune (byte c)"
  by (auto simp: visible_def is_space_rune_def)

lemma trim_space_Nil [simp]: "trim_space [] = []"
  by (simp add: trim_space_def trim_left_space.simps [of "[]"] trim_right_space.simps [of "[]"])

lemma trim_left_visible: "visible c \<Longrightarrow> trim_left_space (c # s) = c # s"
  by (subst trim_left_space.simps) (simp add: visible_not_space visible_def [of c])

lemma trim_right_visible: "visible c \<Longrightarrow> trim_right_space (s @ [c]) = s @ [c]"
  by (subst trim_right_space.simps)
    (simp add: visible_not_space decode_last_rune_ascii visible_def [of c])

lemma trim_space_visible:
  assumes "s \<noteq> []" and "visible (hd s)" and "visible (last s)"
  shows "trim_space s = s"
proof -
  have "trim_left_space s = s" using assms trim_left_visible [of "hd s" "tl s"] by simp
  moreover have "trim_right_space s = s"
    using assms trim_right_visible [of "last s" "butlast s"] by simp
  ultimately show ?thesis by (simp add: trim_space_def)
qed

lemma trim_space_all_visible: "(\<forall>c \<in> set s. visible c) \<Longrightarrow> trim_space s = s"
  by (cases "s = []") (auto intro!: trim_space_visible)

lemma trim_left_blank [simp]: "trim_left_space (CHR '' '' # s) = trim_left_space s"
  by (subst trim_left_space.simps) (simp add: is_space_rune_def)

lemma trim_space_blank [simp]: "trim_space (CHR '' '' # s) = trim_space s"
  by (simp add: trim_space_def)

lemma digit_visible: "is_digit c \<Longrightarrow> visible c"
  by (simp add: is_digit_def visible_def)

section \<open>strings.ToLower\<close>

text \<open>
  Of the runes outside ASCII exactly two have an ASCII lower case: U+0130 and U+212A. The others
  are left alone, which no comparison with an ASCII word can tell from their lower-case form.
\<close>

definition lower_rune :: "nat \<Rightarrow> nat" where
  "lower_rune r =
     (if 65 \<le> r \<and> r \<le> 90 then r + 32 else if r = 304 then 105 else if r = 8490 then 107 else r)"

function to_lower :: "string \<Rightarrow> string" where
  "to_lower s =
     (if s = [] then []
      else encode_rune (lower_rune (fst (decode_rune s))) @ to_lower (drop (snd (decode_rune s)) s))"
  by pat_completeness auto
termination
  by (relation "measure length") (auto simp: decode_rune_size_pos)

declare to_lower.simps [simp del]

lemma to_lower_Nil [simp]: "to_lower [] = []"
  by (simp add: to_lower.simps)

lemma to_lower_ascii [simp]:
  "byte c < 128 \<Longrightarrow> to_lower (c # s) = chr (lower_rune (byte c)) # to_lower s"
  by (subst to_lower.simps)
    (auto simp: encode_rune_def encode_valid_rune_def valid_rune_def lower_rune_def)

lemma to_lower_id:
  "(\<forall>c \<in> set s. byte c < 128 \<and> (byte c < 65 \<or> 90 < byte c)) \<Longrightarrow> to_lower s = s"
  by (induction s) (auto simp: lower_rune_def)

section \<open>Valid UTF-8\<close>

text \<open>
  Conversion through runes, \<open>string([]rune(s))\<close>: every invalid byte becomes U+FFFD. A string it
  leaves alone is valid UTF-8.
\<close>

function to_valid :: "string \<Rightarrow> string" where
  "to_valid s =
     (if s = [] then []
      else encode_rune (fst (decode_rune s)) @ to_valid (drop (snd (decode_rune s)) s))"
  by pat_completeness auto
termination
  by (relation "measure length") (auto simp: decode_rune_size_pos)

declare to_valid.simps [simp del]

lemma to_valid_Nil [simp]: "to_valid [] = []"
  by (simp add: to_valid.simps)

lemma to_valid_ascii_Cons [simp]: "byte c < 128 \<Longrightarrow> to_valid (c # s) = c # to_valid s"
  by (subst to_valid.simps) (simp add: encode_rune_def encode_valid_rune_def valid_rune_def)

lemma to_valid_ascii: "is_ascii s \<Longrightarrow> to_valid s = s"
  by (induction s) auto

lemma decode_encode2:
  assumes "194 \<le> b" "b < 224" "is_cont c"
  shows "encode_rune ((b - 192) * 64 + (c - 128)) = [chr b, chr c]"
proof -
  define x y where "x = b - 192" and "y = c - 128"
  have xy: "2 \<le> x" "x < 32" "y < 64" "b = 192 + x" "c = 128 + y"
    using assms by (auto simp: x_def y_def is_cont_def)
  then have "128 \<le> x * 64 + y" "x * 64 + y < 2048" by simp_all
  with xy show ?thesis
    by (simp add: encode_rune_def encode_valid_rune_def valid_rune_def)
qed

lemma decode_encode3:
  assumes "224 \<le> b" "b < 240" "second_lo b \<le> c" "c \<le> second_hi b" "is_cont d"
  shows "encode_rune ((b - 224) * 4096 + (c - 128) * 64 + (d - 128)) = [chr b, chr c, chr d]"
proof -
  define x y z where "x = b - 224" and "y = c - 128" and "z = d - 128"
  have xyz: "x < 16" "y < 64" "z < 64" "b = 224 + x" "c = 128 + y" "d = 128 + z"
    "x = 0 \<Longrightarrow> 32 \<le> y" "x = 13 \<Longrightarrow> y < 32"
    using assms by (auto simp: x_def y_def z_def is_cont_def second_lo_def second_hi_def split: if_splits)
  define r where "r = x * 4096 + y * 64 + z"
  have yz: "y * 64 + z < 4096" using xyz by simp
  have lo: "2048 \<le> r" using xyz(7) unfolding r_def by (cases "x = 0") auto
  have hi: "r < 65536" using xyz yz by (simp add: r_def)
  have ok: "valid_rune r"
  proof (cases "x \<le> 13")
    case True
    then have "r < 55296" using xyz(8) xyz(3) yz unfolding r_def by (cases "x = 13") auto
    then show ?thesis by (simp add: valid_rune_def)
  next
    case False
    then have "57344 \<le> r" unfolding r_def by simp
    with hi show ?thesis by (simp add: valid_rune_def)
  qed
  have "r div 4096 = x" "r div 64 mod 64 = y" "r mod 64 = z"
  proof -
    show "r div 4096 = x" unfolding r_def using yz by (simp add: div_nat_eqI)
    have "r div 64 = x * 64 + y" unfolding r_def using xyz(3) by (intro div_nat_eqI) simp_all
    then show "r div 64 mod 64 = y" using xyz(2) by simp
    have "r = 64 * (x * 64 + y) + z" by (simp add: r_def)
    then show "r mod 64 = z" using xyz(3) by (metis mod_less mod_mult_self4)
  qed
  with ok lo hi xyz(4-6) have "encode_rune r = [chr b, chr c, chr d]"
    by (simp add: encode_rune_def encode_valid_rune_def)
  then show ?thesis by (simp add: r_def x_def y_def z_def)
qed

lemma decode_encode4:
  assumes "240 \<le> b" "b < 245" "second_lo b \<le> c" "c \<le> second_hi b" "is_cont d" "is_cont e"
  shows "encode_rune ((b - 240) * 262144 + (c - 128) * 4096 + (d - 128) * 64 + (e - 128)) =
    [chr b, chr c, chr d, chr e]"
proof -
  define x y z w where "x = b - 240" and "y = c - 128" and "z = d - 128" and "w = e - 128"
  have xyz: "x < 5" "y < 64" "z < 64" "w < 64" "b = 240 + x" "c = 128 + y" "d = 128 + z" "e = 128 + w"
    "x = 0 \<Longrightarrow> 16 \<le> y" "x = 4 \<Longrightarrow> y < 16"
    using assms
    by (auto simp: x_def y_def z_def w_def is_cont_def second_lo_def second_hi_def split: if_splits)
  define r where "r = x * 262144 + y * 4096 + z * 64 + w"
  have zw: "z * 64 + w < 4096" "y * 4096 + z * 64 + w < 262144" using xyz by simp_all
  have lo: "65536 \<le> r" using xyz(9) unfolding r_def by (cases "x = 0") auto
  have hi: "r \<le> 1114111" using xyz(1,10) zw unfolding r_def by (cases "x = 4") auto
  have "r div 262144 = x" "r div 4096 mod 64 = y" "r div 64 mod 64 = z" "r mod 64 = w"
  proof -
    show "r div 262144 = x" unfolding r_def using zw by (intro div_nat_eqI) simp_all
    have "r div 4096 = x * 64 + y" unfolding r_def using zw by (intro div_nat_eqI) simp_all
    then show "r div 4096 mod 64 = y" using xyz(2) by simp
    have "r div 64 = 64 * (x * 64 + y) + z" unfolding r_def using xyz(4) by (intro div_nat_eqI) simp_all
    then show "r div 64 mod 64 = z" using xyz(3) by (metis mod_less mod_mult_self4)
    have "r = 64 * (64 * (x * 64 + y) + z) + w" by (simp add: r_def)
    then show "r mod 64 = w" using xyz(4) by (metis mod_less mod_mult_self4)
  qed
  with lo hi xyz(5-8) have "encode_rune r = [chr b, chr c, chr d, chr e]"
    by (simp add: encode_rune_def encode_valid_rune_def valid_rune_def)
  then show ?thesis by (simp add: r_def x_def y_def z_def w_def)
qed

text \<open>A rune that decodes re-encodes to the bytes it came from.\<close>

definition decode_good :: "string \<Rightarrow> bool" where
  "decode_good s \<longleftrightarrow>
     encode_rune (fst (decode_rune s)) = take (snd (decode_rune s)) s \<and>
     (\<forall>t. decode_rune (take (snd (decode_rune s)) s @ t) = decode_rune s)"

lemma decode2_good:
  assumes "194 \<le> byte c" "byte c < 224" "decode2 (byte c) r \<noteq> (rune_error, 1)"
  shows "decode_good (c # r)"
proof (cases r)
  case Nil
  with assms show ?thesis by (simp add: decode2_def)
next
  case (Cons d r')
  with assms have d: "is_cont (byte d)" by (simp add: decode2_def split: if_splits)
  have "decode_rune (c # d # t) = ((byte c - 192) * 64 + (byte d - 128), 2)" for t
    using assms d by (simp add: decode_rune.simps decode2_def)
  then show ?thesis
    using decode_encode2 [OF assms(1,2) d] by (simp add: decode_good_def Cons numeral_2_eq_2)
qed

lemma decode3_good:
  assumes "224 \<le> byte c" "byte c < 240" "decode3 (byte c) r \<noteq> (rune_error, 1)"
  shows "decode_good (c # r)"
proof -
  obtain d e r' where r: "r = d # e # r'"
    using assms(3) by (auto simp: decode3_def split: list.splits)
  with assms have d: "second_lo (byte c) \<le> byte d" "byte d \<le> second_hi (byte c)" "is_cont (byte e)"
    by (simp_all add: decode3_def split: if_splits)
  have "decode_rune (c # d # e # t) =
      ((byte c - 224) * 4096 + (byte d - 128) * 64 + (byte e - 128), 3)" for t
    using assms d by (simp add: decode_rune.simps decode3_def)
  then show ?thesis
    using decode_encode3 [OF assms(1,2) d] by (simp add: decode_good_def r numeral_3_eq_3)
qed

lemma decode4_good:
  assumes "240 \<le> byte c" "byte c < 245" "decode4 (byte c) r \<noteq> (rune_error, 1)"
  shows "decode_good (c # r)"
proof -
  obtain d e f r' where r: "r = d # e # f # r'"
    using assms(3) by (auto simp: decode4_def split: list.splits)
  with assms have d: "second_lo (byte c) \<le> byte d" "byte d \<le> second_hi (byte c)"
    "is_cont (byte e)" "is_cont (byte f)"
    by (simp_all add: decode4_def split: if_splits)
  have "decode_rune (c # d # e # f # t) = ((byte c - 240) * 262144 + (byte d - 128) * 4096
      + (byte e - 128) * 64 + (byte f - 128), 4)" for t
    using assms d by (simp add: decode_rune.simps decode4_def)
  then show ?thesis
    using decode_encode4 [OF assms(1,2) d] by (simp add: decode_good_def r take_Cons')
qed

lemma decode_rune_good:
  assumes "s \<noteq> []" and "decode_rune s \<noteq> (rune_error, 1)"
  shows "decode_good s"
proof -
  obtain c r where s: "s = c # r" using assms(1) by (cases s) auto
  show ?thesis
  proof (cases "byte c < 128")
    case True
    then show ?thesis
      by (simp add: s decode_good_def encode_rune_def encode_valid_rune_def valid_rune_def)
  next
    case False
    then have d: "decode_rune s = (if byte c < 194 then (rune_error, 1)
      else if byte c < 224 then decode2 (byte c) r
      else if byte c < 240 then decode3 (byte c) r
      else if byte c < 245 then decode4 (byte c) r
      else (rune_error, 1))"
      by (simp add: s decode_rune.simps)
    with assms(2) show ?thesis
      using decode2_good [of c r] decode3_good [of c r] decode4_good [of c r] s
      by (auto split: if_splits)
  qed
qed

lemmas encode_decode_rune = decode_rune_good [unfolded decode_good_def, THEN conjunct1]
lemmas decode_rune_take = decode_rune_good [unfolded decode_good_def, THEN conjunct2, rule_format]

end
