(* ===== verification/Go_Float.thy ===== *)
theory Go_Float
  imports Float64 Go_Text
begin

text \<open>
  strconv.ParseFloat for 64-bit values: the grammar (signs, \<open>inf\<close>, \<open>infinity\<close> and \<open>nan\<close>
  in any case, decimal and hexadecimal mantissas, underscores, exponents) and the correctly
  rounded value.
\<close>

section \<open>Special values\<close>

definition lower_byte :: "char \<Rightarrow> char" where
  "lower_byte c = (if 65 \<le> byte c \<and> byte c \<le> 90 then chr (byte c + 32) else c)"

fun common_prefix_len :: "string \<Rightarrow> string \<Rightarrow> nat" where
  "common_prefix_len (c # s) (p # ps) = (if lower_byte c = p then Suc (common_prefix_len s ps) else 0)"
| "common_prefix_len _ _ = 0"

text \<open>The value and the number of bytes read, with the sign in front already read.\<close>

definition special_inf :: "f64 \<Rightarrow> string \<Rightarrow> (f64 \<times> nat) option" where
  "special_inf v s =
     (let n = common_prefix_len s ''infinity''; m = (if 3 < n \<and> n < 8 then 3 else n) in
      if m = 3 \<or> m = 8 then Some (v, m) else None)"

definition special :: "string \<Rightarrow> (f64 \<times> nat) option" where
  "special s =
     (case s of
        [] \<Rightarrow> None
      | c # r \<Rightarrow>
          if c = CHR ''+'' then map_option (apsnd Suc) (special_inf PosInf r)
          else if c = CHR ''-'' then map_option (apsnd Suc) (special_inf NegInf r)
          else if lower_byte c = CHR ''i'' then special_inf PosInf s
          else if lower_byte c = CHR ''n'' then
            (if common_prefix_len s ''nan'' = 3 then Some (NaN, 3) else None)
          else None)"

section \<open>Mantissa and exponent\<close>

text \<open>
  The state of the digit loop: whether a dot and a digit were seen, whether an underscore was,
  the digits read so far as one number, and how many of them stand after the dot.
\<close>

record mant_state =
  ms_dot :: bool
  ms_digits :: bool
  ms_underscore :: bool
  ms_mant :: nat
  ms_frac :: nat

definition hex_digit :: "char \<Rightarrow> nat option" where
  "hex_digit c =
     (if is_digit c then Some (digit_val c)
      else (let b = byte (lower_byte c) in if 97 \<le> b \<and> b \<le> 102 then Some (b - 87) else None))"

definition mant_digit :: "nat \<Rightarrow> char \<Rightarrow> nat option" where
  "mant_digit base c =
     (if is_digit c then Some (digit_val c) else if base = 16 then hex_digit c else None)"

fun read_mant :: "nat \<Rightarrow> mant_state \<Rightarrow> string \<Rightarrow> mant_state \<times> string" where
  "read_mant base st [] = (st, [])"
| "read_mant base st (c # s) =
     (if c = CHR ''_'' then read_mant base (st\<lparr>ms_underscore := True\<rparr>) s
      else if c = CHR ''.'' then
        (if ms_dot st then (st, c # s) else read_mant base (st\<lparr>ms_dot := True\<rparr>) s)
      else
        (case mant_digit base c of
           None \<Rightarrow> (st, c # s)
         | Some d \<Rightarrow>
             read_mant base
               (st\<lparr>ms_digits := True, ms_mant := ms_mant st * base + d,
                   ms_frac := ms_frac st + (if ms_dot st then 1 else 0)\<rparr>) s))"

text \<open>
  The exponent digits: accumulation stops once the exponent has reached 10000; the second result
  says whether an underscore was read.
\<close>

fun read_exp :: "nat \<Rightarrow> string \<Rightarrow> nat \<times> bool \<times> string" where
  "read_exp e [] = (e, False, [])"
| "read_exp e (c # s) =
     (if c = CHR ''_'' then (case read_exp e s of (e', _, r) \<Rightarrow> (e', True, r))
      else if is_digit c then read_exp (if e < 10000 then e * 10 + digit_val c else e) s
      else (e, False, c # s))"

text \<open>An underscore must stand between digits, or between a base prefix and a digit.\<close>

datatype saw = SawStart | SawDigit | SawUnderscore | SawOther

fun underscore_loop :: "bool \<Rightarrow> saw \<Rightarrow> string \<Rightarrow> bool" where
  "underscore_loop hex saw [] = (saw \<noteq> SawUnderscore)"
| "underscore_loop hex saw (c # s) =
     (if is_digit c \<or> hex \<and> hex_digit c \<noteq> None then underscore_loop hex SawDigit s
      else if c = CHR ''_'' then saw = SawDigit \<and> underscore_loop hex SawUnderscore s
      else saw \<noteq> SawUnderscore \<and> underscore_loop hex SawOther s)"

definition underscore_ok :: "string \<Rightarrow> bool" where
  "underscore_ok s =
     (let t = snd (parse_sign s) in
      case t of
        z # x # r \<Rightarrow>
          if z = CHR ''0'' \<and> lower_byte x \<in> {CHR ''b'', CHR ''o'', CHR ''x''}
          then underscore_loop (lower_byte x = CHR ''x'') SawDigit r
          else underscore_loop False SawStart t
      | _ \<Rightarrow> underscore_loop False SawStart t)"

definition pow_signed :: "nat \<Rightarrow> int \<Rightarrow> rat" where
  "pow_signed b e = (of_nat b :: rat) powi e"

text \<open>
  \<open>readFloat\<close> and the conversion: the signed exact value of a number and the rest of the input,
  or None on a syntax error.
\<close>

definition exp_part :: "bool \<Rightarrow> string \<Rightarrow> (int \<times> bool \<times> string) option" where
  "exp_part hex s =
     (case s of
        c # r \<Rightarrow>
          if lower_byte c = (if hex then CHR ''p'' else CHR ''e'') then
            (case parse_sign r of
               (neg, ds) \<Rightarrow>
                 if ds = [] \<or> \<not> is_digit (hd ds) then None
                 else (case read_exp 0 ds of
                         (e, us, rest) \<Rightarrow> Some (if neg then - int e else int e, us, rest)))
          else if hex then None else Some (0, False, s)
      | [] \<Rightarrow> if hex then None else Some (0, False, s))"

definition is_hex :: "string \<Rightarrow> bool" where
  "is_hex t \<longleftrightarrow> 2 < length t \<and> t ! 0 = CHR ''0'' \<and> lower_byte (t ! 1) = CHR ''x''"

definition read_float :: "string \<Rightarrow> (rat \<times> string) option" where
  "read_float s =
     (case parse_sign s of
        (neg, t) \<Rightarrow>
          (let hex = is_hex t; base = (if hex then 16 else 10) in
           case read_mant base \<lparr>ms_dot = False, ms_digits = False, ms_underscore = False,
                  ms_mant = 0, ms_frac = 0\<rparr> (if hex then drop 2 t else t) of
             (st, r) \<Rightarrow>
               if \<not> ms_digits st then None
               else (case exp_part hex r of
                       None \<Rightarrow> None
                     | Some (e, us, rest) \<Rightarrow>
                         if (ms_underscore st \<or> us) \<and>
                            \<not> underscore_ok (take (length s - length rest) s)
                         then None
                         else Some ((if neg then - 1 else 1) * of_nat (ms_mant st)
                                * pow_signed base (- int (ms_frac st))
                                * pow_signed (if hex then 2 else 10) e, rest))))"

definition parse_float :: "string \<Rightarrow> (num_error, f64) result" where
  "parse_float s =
     (case special s of
        Some (v, n) \<Rightarrow> if n = length s then Inr v else Inl ErrSyntax
      | None \<Rightarrow>
          (case read_float s of
             None \<Rightarrow> Inl ErrSyntax
           | Some (x, rest) \<Rightarrow>
               if rest \<noteq> [] then Inl ErrSyntax
               else (case f64_of_rat x of Fin y \<Rightarrow> Inr (Fin y) | _ \<Rightarrow> Inl ErrRange)))"

section \<open>Decimal integers\<close>

lemma read_mant_digits:
  assumes "\<forall>c \<in> set s. is_digit c" and "ms_dot st = False" and "s \<noteq> []"
  shows "\<exists>st'. read_mant 10 st s = (st', []) \<and> ms_digits st' \<and>
    ms_underscore st' = ms_underscore st \<and> ms_frac st' = ms_frac st \<and>
    read_digits (ms_mant st) s = Some (ms_mant st')"
  using assms
proof (induction s arbitrary: st)
  case (Cons c s)
  then have c: "is_digit c" "c \<noteq> CHR ''_''" "c \<noteq> CHR ''.''" by (auto simp: is_digit_def)
  show ?case
  proof (cases "s = []")
    case True
    with c Cons.prems show ?thesis by (simp add: mant_digit_def mult.commute)
  next
    case False
    with Cons.prems c Cons.IH [of "st\<lparr>ms_digits := True, ms_mant := ms_mant st * 10 + digit_val c\<rparr>"]
    show ?thesis by (simp add: mant_digit_def mult.commute)
  qed
qed simp

lemma lower_byte_digit: "is_digit c \<Longrightarrow> lower_byte c = c"
  by (simp add: lower_byte_def is_digit_def)

lemma special_digits:
  assumes "is_digit c"
  shows "special (c # s) = None"
proof -
  have "c \<noteq> CHR ''+''" "c \<noteq> CHR ''-''" "c \<noteq> CHR ''i''" "c \<noteq> CHR ''n''"
    using assms by (auto simp: is_digit_def)
  then show ?thesis using lower_byte_digit [OF assms] by (simp add: special_def)
qed

lemma is_hex_digits: "(\<forall>c \<in> set s. is_digit c) \<Longrightarrow> \<not> is_hex s"
proof
  assume d: "\<forall>c \<in> set s. is_digit c" and h: "is_hex s"
  then have "s ! 1 \<in> set s" by (simp add: is_hex_def)
  with d have "is_digit (s ! 1)" by blast
  with h show False using lower_byte_digit by (auto simp: is_hex_def is_digit_def)
qed

lemma parse_sign_digits: "is_digit c \<Longrightarrow> parse_sign (c # s) = (False, c # s)"
  by (auto simp: parse_sign_def is_digit_def)

lemma parse_float_show_nat:
  assumes "n \<le> 2 ^ 53"
  shows "parse_float (show_nat n) = Inr (Fin (of_nat n))"
proof -
  obtain c r where cr: "show_nat n = c # r" by (cases "show_nat n") auto
  have dig: "\<forall>c \<in> set (show_nat n). is_digit c" using show_nat_digits by blast
  then have c: "is_digit c" by (simp add: cr)
  let ?st = "\<lparr>ms_dot = False, ms_digits = False, ms_underscore = False, ms_mant = 0, ms_frac = 0\<rparr>"
  from read_mant_digits [OF dig, of ?st] obtain st' where st':
    "read_mant 10 ?st (show_nat n) = (st', [])" "ms_digits st'" "\<not> ms_underscore st'"
    "ms_frac st' = 0" "read_digits 0 (show_nat n) = Some (ms_mant st')"
    by auto
  from st'(5) have m: "ms_mant st' = n" by (simp add: read_show_nat)
  have "read_float (show_nat n) = Some (of_nat n, [])"
    using is_hex_digits [OF dig] parse_sign_digits [OF c, of r]
    unfolding read_float_def cr
    by (simp add: st' [unfolded cr] m Let_def exp_part_def pow_signed_def del: read_mant.simps)
  moreover have "special (show_nat n) = None" using special_digits [OF c] by (simp add: cr)
  ultimately show ?thesis using f64_of_nat [OF assms] by (simp add: parse_float_def)
qed

end
