(* ===== verification/Egress_Limits.thy ===== *)
theory Egress_Limits
  imports Go_Float
begin

text \<open>
  \<open>internal/limits/limits.go\<close>: the request counter and the token budget on wrapping 64-bit
  integers, the token-bucket rate limiter on \<open>float64\<close>, and the parser of rate specifications.
  An atomic operation is one step. A clock reading is the monotonic clock's, in nanoseconds, and
  an argument of the operations that read it.
\<close>

section \<open>RequestCounter\<close>

record request_counter =
  rc_max :: int64
  rc_n :: int64

definition new_request_counter :: "int64 \<Rightarrow> request_counter" where
  "new_request_counter m = \<lparr>rc_max = m, rc_n = 0\<rparr>"

definition counter_allow :: "request_counter \<Rightarrow> (bool \<times> int64) \<times> request_counter" where
  "counter_allow c =
     (let nxt = rc_n c + 1; c' = c\<lparr>rc_n := nxt\<rparr> in
      if sint (rc_max c) \<le> 0 then ((True, nxt), c')
      else ((sint nxt \<le> sint (rc_max c), nxt), c'))"

definition counter_max :: "request_counter \<Rightarrow> int64" where
  "counter_max c = rc_max c"

fun counter_run :: "nat \<Rightarrow> request_counter \<Rightarrow> bool list \<times> request_counter" where
  "counter_run 0 c = ([], c)"
| "counter_run (Suc k) c =
     (case counter_allow c of
        ((ok, _), c') \<Rightarrow> (case counter_run k c' of (oks, c'') \<Rightarrow> (ok # oks, c'')))"

section \<open>TokenBudget\<close>

record token_budget =
  tb_max :: int64
  tb_used :: int64

definition new_token_budget :: "int64 \<Rightarrow> token_budget" where
  "new_token_budget m = \<lparr>tb_max = m, tb_used = 0\<rparr>"

definition budget_add :: "int64 \<Rightarrow> token_budget \<Rightarrow> (bool \<times> int64) \<times> token_budget" where
  "budget_add n t =
     (let total = tb_used t + n; t' = t\<lparr>tb_used := total\<rparr> in
      if sint (tb_max t) \<le> 0 then ((True, total), t')
      else ((sint total < sint (tb_max t), total), t'))"

definition budget_used :: "token_budget \<Rightarrow> int64" where
  "budget_used b = tb_used b"

definition budget_max :: "token_budget \<Rightarrow> int64" where
  "budget_max b = tb_max b"

definition over_budget :: "token_budget \<Rightarrow> bool" where
  "over_budget t = (if sint (tb_max t) \<le> 0 then False else sint (tb_max t) \<le> sint (tb_used t))"

definition budget_run :: "int64 list \<Rightarrow> token_budget \<Rightarrow> token_budget" where
  "budget_run ns t = fold (\<lambda>n t. snd (budget_add n t)) ns t"

section \<open>RateLimiter\<close>

record rate_limiter =
  rl_tokens :: f64
  rl_burst :: f64
  rl_rate :: f64
  rl_last :: int

text \<open>A nil limiter is \<open>None\<close>.\<close>

definition new_rate_limiter :: "f64 \<Rightarrow> f64 \<Rightarrow> int \<Rightarrow> rate_limiter option" where
  "new_rate_limiter tokens_per_second burst now =
     (if f_le tokens_per_second (Fin 0) \<or> f_le burst (Fin 0) then None
      else Some \<lparr>rl_tokens = burst, rl_burst = burst, rl_rate = tokens_per_second, rl_last = now\<rparr>)"

text \<open>\<open>now.Sub(last)\<close> saturates at the bounds of a duration.\<close>

definition time_sub :: "int \<Rightarrow> int \<Rightarrow> int" where
  "time_sub t u = max int64_min (min int64_max (t - u))"

text \<open>\<open>Duration.Seconds\<close>: whole seconds and remaining nanoseconds, each truncated towards zero.\<close>

definition dur_seconds :: "int \<Rightarrow> f64" where
  "dur_seconds d =
     f_add (f64_of_rat (of_int (sgn d * (\<bar>d\<bar> div 10 ^ 9))))
       (f_div_const (f64_of_rat (of_int (sgn d * (\<bar>d\<bar> mod 10 ^ 9)))) (10 ^ 9))"

definition rl_allow :: "rate_limiter option \<Rightarrow> int \<Rightarrow> bool \<times> rate_limiter option" where
  "rl_allow r now =
     (case r of
        None \<Rightarrow> (True, None)
      | Some l \<Rightarrow>
          (let elapsed = dur_seconds (time_sub now (rl_last l));
               tokens = f_min (rl_burst l) (f_add (rl_tokens l) (f_mul elapsed (rl_rate l)));
               l' = l\<lparr>rl_tokens := tokens, rl_last := now\<rparr> in
           if f_le (Fin 1) tokens then (True, Some (l'\<lparr>rl_tokens := f_sub tokens (Fin 1)\<rparr>))
           else (False, Some l')))"

definition rl_rate_of :: "rate_limiter option \<Rightarrow> f64" where
  "rl_rate_of r = (case r of None \<Rightarrow> Fin 0 | Some l \<Rightarrow> rl_rate l)"

definition rl_burst_of :: "rate_limiter option \<Rightarrow> f64" where
  "rl_burst_of r = (case r of None \<Rightarrow> Fin 0 | Some l \<Rightarrow> rl_burst l)"

text \<open>The answers to a sequence of requests at the given clock readings.\<close>

fun rl_run :: "rate_limiter option \<Rightarrow> int list \<Rightarrow> bool list" where
  "rl_run r [] = []"
| "rl_run r (t # ts) = (case rl_allow r t of (ok, r') \<Rightarrow> ok # rl_run r' ts)"

section \<open>ParseRateSpec\<close>

datatype rate_error = BadForm string | BadCount string | BadUnit string | ZeroRate

definition rate_divisor :: "string \<Rightarrow> rat option" where
  "rate_divisor unit =
     (if unit \<in> {''s'', ''sec'', ''second'', ''seconds''} then Some 1
      else if unit \<in> {''m'', ''min'', ''minute'', ''minutes''} then Some 60
      else if unit \<in> {''h'', ''hr'', ''hour'', ''hours''} then Some 3600
      else None)"

definition parse_rate_spec :: "string \<Rightarrow> int \<Rightarrow> (rate_error, rate_limiter option) result" where
  "parse_rate_spec spec0 now =
     (let spec = trim_space spec0 in
      if spec = [] then Inr None
      else
        (case split_once (CHR ''/'') spec of
           (_, None) \<Rightarrow> Inl (BadForm spec)
         | (count, Some unit0) \<Rightarrow>
             (case parse_float (trim_space count) of
                Inl _ \<Rightarrow> Inl (BadCount spec)
              | Inr n \<Rightarrow>
                  if f_le n (Fin 0) then Inl (BadCount spec)
                  else
                    (case rate_divisor (to_lower (trim_space unit0)) of
                       None \<Rightarrow> Inl (BadUnit spec)
                     | Some d \<Rightarrow>
                         (let per_second = (if d = 1 then n else f_div_const n d) in
                          if per_second = Fin 0 then Inl ZeroRate
                          else Inr (new_rate_limiter per_second n now))))))"

section \<open>Lemmas: counter and budget\<close>

lemma sint_of_nat_int64: "int k \<le> int64_max \<Longrightarrow> sint (of_nat k :: int64) = int k"
  using sint_of_int_int64 [of "int k"] by (simp add: int64_min_def)

lemma counter_run_from:
  assumes "0 < sint m" and "int (i + k) \<le> int64_max"
  shows "counter_run k \<lparr>rc_max = m, rc_n = of_nat i\<rparr> =
    (map (\<lambda>j. int j < sint m) [i..<i + k], \<lparr>rc_max = m, rc_n = of_nat (i + k)\<rparr>)"
  using assms
proof (induction k arbitrary: i)
  case (Suc k)
  have "sint (of_nat (Suc i) :: int64) = int (Suc i)"
    using Suc.prems by (intro sint_of_nat_int64) simp
  moreover have "[i..<i + Suc k] = i # [Suc i..<Suc i + k]" by (simp add: upt_rec)
  moreover have "counter_run k \<lparr>rc_max = m, rc_n = of_nat (Suc i)\<rparr> =
    (map (\<lambda>j. int j < sint m) [Suc i..<Suc i + k], \<lparr>rc_max = m, rc_n = of_nat (Suc i + k)\<rparr>)"
    using Suc.prems by (intro Suc.IH) simp_all
  ultimately show ?case
    using Suc.prems by (auto simp: counter_allow_def Let_def add.commute)
qed simp

lemma budget_run_sum:
  assumes "0 \<le> sint (tb_used t)" and "\<forall>n \<in> set ns. 0 \<le> sint n"
    and "sint (tb_used t) + sum_list (map sint ns) \<le> int64_max"
  shows "tb_max (budget_run ns t) = tb_max t \<and>
    sint (tb_used (budget_run ns t)) = sint (tb_used t) + sum_list (map sint ns)"
  using assms
proof (induction ns arbitrary: t)
  case (Cons n ns)
  have nn: "0 \<le> sum_list (map sint ns)"
    using Cons.prems(2) by (intro sum_list_nonneg) auto
  have s: "sint (tb_used t + n) = sint (tb_used t) + sint n"
    using Cons.prems nn by (intro sint_add_int64) (auto simp: int64_min_def)
  let ?t = "t\<lparr>tb_used := tb_used t + n\<rparr>"
  have r: "budget_run (n # ns) t = budget_run ns ?t"
    by (simp add: budget_run_def budget_add_def Let_def)
  have "0 \<le> sint (tb_used ?t)" "\<forall>n \<in> set ns. 0 \<le> sint n"
    "sint (tb_used ?t) + sum_list (map sint ns) \<le> int64_max"
    using Cons.prems s by simp_all
  from Cons.IH [OF this] show ?case by (simp add: r s)
qed (simp add: budget_run_def)

section \<open>Lemmas: the token bucket\<close>

text \<open>Elapsed seconds are finite, non-negative, and exceed the exact time by two roundings.\<close>

definition secs :: "int \<Rightarrow> rat" where
  "secs d = rnd64 (of_int (d div 10 ^ 9) + rnd64 (of_int (d mod 10 ^ 9) / 10 ^ 9))"

lemma f64_of_small_int: "0 \<le> k \<Longrightarrow> k \<le> 2 ^ 53 \<Longrightarrow> f64_of_rat (of_int k) = Fin (of_int k)"
  using f64_of_nat [of "nat k"] by (simp add: nat_le_iff)

lemma secs_parts:
  assumes "0 \<le> d"
  shows "0 \<le> (of_int (d mod 10 ^ 9) / 10 ^ 9 :: rat)" "(of_int (d mod 10 ^ 9) / 10 ^ 9 :: rat) \<le> 1"
    "(of_int (d div 10 ^ 9) :: rat) + of_int (d mod 10 ^ 9) / 10 ^ 9 = of_int d / 10 ^ 9"
proof -
  have m: "0 \<le> d mod 10 ^ 9" "d mod 10 ^ 9 < 10 ^ 9" by simp_all
  then show "0 \<le> (of_int (d mod 10 ^ 9) / 10 ^ 9 :: rat)" by simp
  have "(of_int (d mod 10 ^ 9) :: rat) \<le> of_int (10 ^ 9)" using m(2) by (simp only: of_int_le_iff)
  then show "(of_int (d mod 10 ^ 9) / 10 ^ 9 :: rat) \<le> 1" by simp
  have "(of_int d :: rat) = of_int (d div 10 ^ 9 * 10 ^ 9 + d mod 10 ^ 9)" by (simp only: div_mult_mod_eq)
  then show "(of_int (d div 10 ^ 9) :: rat) + of_int (d mod 10 ^ 9) / 10 ^ 9 = of_int d / 10 ^ 9"
    by (simp only: of_int_add of_int_mult add_divide_distrib) simp
qed

lemma dur_seconds_fin:
  assumes "0 \<le> d" and "d \<le> int64_max"
  shows "dur_seconds d = Fin (secs d)"
proof -
  have q: "sgn d * (\<bar>d\<bar> div 10 ^ 9) = d div 10 ^ 9" "sgn d * (\<bar>d\<bar> mod 10 ^ 9) = d mod 10 ^ 9"
    using assms(1) by (cases "d = 0"; simp)+
  have b: "0 \<le> d div 10 ^ 9" "d div 10 ^ 9 \<le> 10 ^ 10" "0 \<le> d mod 10 ^ 9" "d mod 10 ^ 9 \<le> 10 ^ 9"
    using assms pos_mod_bound [of "10 ^ 9" d] by (simp_all add: int64_max_def pos_imp_zdiv_nonneg_iff)
  let ?f = "of_int (d mod 10 ^ 9) / 10 ^ 9 :: rat"
  note f = secs_parts(1,2) [OF assms(1)]
  have r1: "0 \<le> rnd64 ?f" "rnd64 ?f \<le> 1"
    using f rnd64_nonneg [of ?f] r64.rnd_le_fix [of ?f 1] rnd64_of_nat [of 1] by simp_all
  have "(of_int (d div 10 ^ 9) :: rat) \<le> of_int (10 ^ 10)" using b(2) by (simp only: of_int_le_iff)
  moreover have "(10 :: rat) ^ 10 + 1 \<le> max_f64" by (simp add: max_f64_def)
  ultimately have s: "of_int (d div 10 ^ 9) + rnd64 ?f \<le> max_f64" using r1(2) by simp
  have "f64_of_rat ?f = Fin (rnd64 ?f)"
    using f max_f64_pos by (intro f64_of_rat_fin) (simp_all add: max_f64_def)
  moreover have "f64_of_rat (of_int (d div 10 ^ 9) + rnd64 ?f) = Fin (secs d)"
    unfolding secs_def using s b(1) r1(1) by (intro f64_of_rat_fin) simp_all
  ultimately show ?thesis
    unfolding dur_seconds_def q using b by (simp add: f64_of_small_int)
qed

lemma secs_bounds:
  assumes "0 \<le> d"
  shows "0 \<le> secs d" and "d div 10 ^ 9 \<le> 2 ^ 53 \<Longrightarrow> of_int (d div 10 ^ 9) \<le> secs d"
    and "secs d \<le> of_int d / 10 ^ 9 * (1 + u64) ^ 2 + 3 * eta64"
proof -
  let ?f = "of_int (d mod 10 ^ 9) / 10 ^ 9 :: rat" and ?q = "of_int (d div 10 ^ 9) :: rat"
  note f = secs_parts [OF assms]
  have q: "0 \<le> ?q" using assms by (simp add: pos_imp_zdiv_nonneg_iff)
  have rf: "0 \<le> rnd64 ?f" "rnd64 ?f \<le> ?f * (1 + u64) + eta64"
    using rnd64_nonneg [OF f(1)] rnd64_err [OF f(1)] by simp_all
  show "0 \<le> secs d" unfolding secs_def using q rf(1) by (intro rnd64_nonneg) simp
  show "?q \<le> secs d" if "d div 10 ^ 9 \<le> 2 ^ 53"
  proof -
    have "rnd64 ?q = ?q" using rnd64_grid [OF _ that, of 0] q by simp
    then show ?thesis unfolding secs_def using q rf(1) by (intro r64.rnd_ge_fix) simp_all
  qed
  have "?q \<le> ?q * (1 + u64)" using q u64_bounds by (simp add: algebra_simps)
  with rf(2) have "?q + rnd64 ?f \<le> (?q + ?f) * (1 + u64) + eta64"
    by (simp add: distrib_right)
  then have s: "?q + rnd64 ?f \<le> of_int d / 10 ^ 9 * (1 + u64) + eta64" by (simp only: f(3))
  have "secs d \<le> (?q + rnd64 ?f) * (1 + u64) + eta64"
    unfolding secs_def using q rf(1) by (intro rnd64_err) simp
  also have "\<dots> \<le> (of_int d / 10 ^ 9 * (1 + u64) + eta64) * (1 + u64) + eta64"
    using s u64_bounds by (intro add_right_mono mult_right_mono) simp_all
  also have "\<dots> = of_int d / 10 ^ 9 * (1 + u64) ^ 2 + eta64 * (2 + u64)"
    by (simp add: power2_eq_square algebra_simps)
  also have "\<dots> \<le> of_int d / 10 ^ 9 * (1 + u64) ^ 2 + 3 * eta64"
    using mult_left_mono [OF _ u64_bounds(3), of "2 + u64" 3] u64_bounds by simp
  finally show "secs d \<le> of_int d / 10 ^ 9 * (1 + u64) ^ 2 + 3 * eta64" .
qed

text \<open>One call on a limiter with finite fields, as one equation.\<close>

definition refill :: "rat \<Rightarrow> rat \<Rightarrow> rat \<Rightarrow> int \<Rightarrow> rat" where
  "refill b r tok d = min b (rnd64 (tok + rnd64 (secs d * r)))"

lemma rl_allow_fin:
  assumes "0 \<le> tok" and "tok \<le> b" and b: "b \<le> max_f64" "rnd64 b = b" and "0 < r"
    and "u \<le> t" and "t - u \<le> int64_max"
  shows "rl_allow (Some \<lparr>rl_tokens = Fin tok, rl_burst = Fin b, rl_rate = Fin r, rl_last = u\<rparr>) t =
    (let k = refill b r tok (t - u) in
     (1 \<le> k, Some \<lparr>rl_tokens = Fin (if 1 \<le> k then rnd64 (k - 1) else k),
                rl_burst = Fin b, rl_rate = Fin r, rl_last = t\<rparr>))"
proof -
  have ts: "time_sub t u = t - u" using assms by (simp add: time_sub_def int64_min_def)
  have d: "0 \<le> t - u" using assms by simp
  note ds = dur_seconds_fin [OF d assms(7)]
  define g where "g = rnd64 (secs (t - u) * r)"
  have e0: "0 \<le> secs (t - u) * r" using secs_bounds(1) [OF d] assms(5) by simp
  have g0: "0 \<le> g" unfolding g_def by (rule rnd64_nonneg [OF e0])
  have "f_min (Fin b) (f_add (Fin tok) (f_mul (dur_seconds (time_sub t u)) (Fin r))) =
    Fin (refill b r tok (t - u))"
  proof (cases "max_f64 < g")
    case True
    have "max_f64 \<le> rnd64 (tok + g)"
      using True assms(1) max_f64_pos by (intro r64.rnd_ge_fix max_f64_fix) simp_all
    with True b(1) e0 show ?thesis
      by (simp add: ts ds f64_of_rat_nonneg refill_def g_def [symmetric])
  next
    case False
    have "0 \<le> tok + g" using assms(1) g0 by simp
    with False b(1) e0 show ?thesis
      by (simp add: ts ds f64_of_rat_nonneg refill_def g_def [symmetric])
  qed
  moreover have "f_sub (Fin k) (Fin 1) = Fin (rnd64 (k - 1))" if "k \<le> b" "1 \<le> k" for k
    using that b(1) by (simp add: f_sub_def f64_of_rat_fin)
  moreover have "refill b r tok (t - u) \<le> b" by (simp add: refill_def)
  ultimately show ?thesis by (simp add: rl_allow_def Let_def)
qed

lemma refill_bounds:
  assumes "0 \<le> tok" and "0 \<le> b" and "0 < r" and "0 \<le> d"
  shows "0 \<le> refill b r tok d" and "refill b r tok d \<le> b"
    and "refill b r tok d \<le>
      tok + r * (of_int d / 10 ^ 9) * (1 + u64) ^ 3 + (u64 * b + 6 * r * eta64 + 2 * eta64)"
proof -
  have e0: "0 \<le> secs d * r" using secs_bounds(1) [OF assms(4)] assms(3) by simp
  have x0: "0 \<le> tok + rnd64 (secs d * r)" using assms(1) rnd64_nonneg [OF e0] by simp
  show "0 \<le> refill b r tok d" using assms(2) rnd64_nonneg [OF x0] by (simp add: refill_def)
  show "refill b r tok d \<le> b" by (simp add: refill_def)
  have "secs d * r \<le> (of_int d / 10 ^ 9 * (1 + u64) ^ 2 + 3 * eta64) * r"
    using secs_bounds(3) [OF assms(4)] assms(3) by (intro mult_right_mono) simp_all
  then have "secs d * r * (1 + u64) \<le> (of_int d / 10 ^ 9 * (1 + u64) ^ 2 + 3 * eta64) * r * (1 + u64)"
    by (rule mult_right_mono) (use u64_bounds in simp)
  also have "\<dots> = r * (of_int d / 10 ^ 9) * (1 + u64) ^ 3 + r * eta64 * (3 * (1 + u64))"
    by (simp add: power3_eq_cube power2_eq_square algebra_simps)
  also have "\<dots> \<le> r * (of_int d / 10 ^ 9) * (1 + u64) ^ 3 + r * eta64 * 6"
    using u64_bounds assms(3) by (intro add_left_mono mult_left_mono) simp_all
  finally have "rnd64 (secs d * r) \<le> r * (of_int d / 10 ^ 9) * (1 + u64) ^ 3 + 6 * r * eta64 + eta64"
    using rnd64_err [OF e0] by (simp add: mult.commute)
  moreover have "refill b r tok d \<le> tok + rnd64 (secs d * r) + (u64 * b + eta64)"
    unfolding refill_def by (rule r64.capped_err [OF x0 assms(2)])
  ultimately show "refill b r tok d \<le>
      tok + r * (of_int d / 10 ^ 9) * (1 + u64) ^ 3 + (u64 * b + 6 * r * eta64 + 2 * eta64)"
    by simp
qed

lemma take_token_bounds:
  assumes "1 \<le> k" and "k \<le> b" and "rnd64 b = b"
  shows "0 \<le> rnd64 (k - 1)" and "rnd64 (k - 1) \<le> b" and "rnd64 (k - 1) \<le> k - 1 + (u64 * b + eta64)"
proof -
  have k: "0 \<le> k - 1" "k - 1 \<le> b" "0 \<le> b" using assms by simp_all
  show "0 \<le> rnd64 (k - 1)" by (rule rnd64_nonneg [OF k(1)])
  show b: "rnd64 (k - 1) \<le> b" by (rule r64.rnd_le_fix [OF k(1,2) assms(3)])
  show "rnd64 (k - 1) \<le> k - 1 + (u64 * b + eta64)" using r64.capped_err [OF k(1,3)] b by simp
qed

text \<open>A sequence of calls, from any state of the bucket.\<close>

lemma rl_run_bound:
  assumes "0 \<le> tok" and "tok \<le> b" and b: "b \<le> max_f64" "rnd64 b = b" and "0 < r"
    and "sorted (u # ts)" and "last (u # ts) - u \<le> int64_max"
  shows "of_nat (count_list (rl_run
      (Some \<lparr>rl_tokens = Fin tok, rl_burst = Fin b, rl_rate = Fin r, rl_last = u\<rparr>) ts) True)
    \<le> tok + r * (of_int (last (u # ts) - u) / 10 ^ 9) * (1 + u64) ^ 3
      + of_nat (length ts) * (2 * u64 * b + 6 * r * eta64 + 3 * eta64)"
  using assms
proof (induction ts arbitrary: tok u)
  case (Cons t ts)
  let ?l = "last (t # ts)" and ?err = "2 * u64 * b + 6 * r * eta64 + 3 * eta64"
  have ord: "u \<le> t" "t \<le> ?l" "sorted (t # ts)"
    using Cons.prems(6) by (cases ts rule: rev_cases; force)+
  have tu: "0 \<le> t - u" "t - u \<le> int64_max" "?l - t \<le> int64_max"
    using ord Cons.prems(7) by simp_all
  define k where "k = refill b r tok (t - u)"
  define tok' where "tok' = (if 1 \<le> k then rnd64 (k - 1) else k)"
  have b0: "0 \<le> b" using Cons.prems by simp
  note k = refill_bounds [OF Cons.prems(1) b0 Cons.prems(5) tu(1), folded k_def]
  have e0: "0 \<le> u64 * b" "0 \<le> eta64" using u64_bounds b0 by simp_all
  have tok': "0 \<le> tok'" "tok' \<le> b" "tok' + of_bool (1 \<le> k) \<le> k + (u64 * b + eta64)"
    using take_token_bounds [OF _ k(2) Cons.prems(4)] k(1,2) e0 by (auto simp: tok'_def)
  let ?s = "\<lparr>rl_tokens = Fin tok', rl_burst = Fin b, rl_rate = Fin r, rl_last = t\<rparr>"
  have step: "rl_allow (Some \<lparr>rl_tokens = Fin tok, rl_burst = Fin b, rl_rate = Fin r, rl_last = u\<rparr>) t
    = (1 \<le> k, Some ?s)"
    using rl_allow_fin [OF Cons.prems(1-5) ord(1) tu(2)] by (simp add: k_def tok'_def Let_def)
  note IH = Cons.IH [OF tok'(1,2) Cons.prems(3-5) ord(3) tu(3)]
  have split: "r * (of_int (?l - u) / 10 ^ 9) * (1 + u64) ^ 3 =
    r * (of_int (t - u) / 10 ^ 9) * (1 + u64) ^ 3 + r * (of_int (?l - t) / 10 ^ 9) * (1 + u64) ^ 3"
    by (simp add: diff_divide_distrib algebra_simps)
  have cnt: "(of_nat (count_list (rl_run (Some \<lparr>rl_tokens = Fin tok, rl_burst = Fin b,
      rl_rate = Fin r, rl_last = u\<rparr>) (t # ts)) True) :: rat) =
    of_bool (1 \<le> k) + of_nat (count_list (rl_run (Some ?s) ts) True)"
    by (simp add: step of_bool_def)
  have len: "of_nat (length (t # ts)) * ?err =
    (u64 * b + 6 * r * eta64 + 2 * eta64) + (u64 * b + eta64) + of_nat (length ts) * ?err"
    by (simp add: algebra_simps)
  have last: "last (u # t # ts) = ?l" by simp
  show ?case unfolding cnt len last split using IH tok'(3) k(3) by linarith
qed simp

text \<open>From integer tokens a call takes one and leaves at least the rest.\<close>

lemma rl_run_burst:
  assumes "of_nat k \<le> tok" and "tok \<le> b" and b: "b \<le> max_f64" "rnd64 b = b" and "0 < r"
    and "sorted (u # ts)" and "last (u # ts) - u \<le> int64_max" and "k \<le> 2 ^ 53" and "length ts \<le> k"
  shows "rl_run (Some \<lparr>rl_tokens = Fin tok, rl_burst = Fin b, rl_rate = Fin r, rl_last = u\<rparr>) ts =
    replicate (length ts) True"
  using assms
proof (induction ts arbitrary: tok u k)
  case (Cons t ts)
  then obtain j where j: "k = Suc j" by (cases k) auto
  have ord: "u \<le> t" "t \<le> last (t # ts)" "sorted (t # ts)"
    using Cons.prems(6) by (cases ts rule: rev_cases; force)+
  have tu: "0 \<le> t - u" "t - u \<le> int64_max" "last (t # ts) - t \<le> int64_max"
    using ord Cons.prems(7) by simp_all
  have tok0: "0 \<le> tok" using Cons.prems(1) j by simp
  define q where "q = refill b r tok (t - u)"
  have e0: "0 \<le> rnd64 (secs (t - u) * r)"
    using secs_bounds(1) [OF tu(1)] Cons.prems(5) by (intro rnd64_nonneg) simp
  have "of_nat k \<le> rnd64 (tok + rnd64 (secs (t - u) * r))"
    using e0 Cons.prems(1,8) by (intro r64.rnd_ge_fix rnd64_of_nat) simp_all
  then have q: "of_nat k \<le> q" "q \<le> b"
    using Cons.prems(1,2) by (simp_all add: q_def refill_def)
  then have q1: "1 \<le> q" by (simp add: j)
  have "of_nat j \<le> rnd64 (q - 1)"
    using q Cons.prems(8) by (intro r64.rnd_ge_fix rnd64_of_nat) (simp_all add: j)
  moreover have "rnd64 (q - 1) \<le> b" using take_token_bounds [OF q1 q(2) Cons.prems(4)] by simp
  ultimately have "rl_run (Some \<lparr>rl_tokens = Fin (rnd64 (q - 1)), rl_burst = Fin b,
      rl_rate = Fin r, rl_last = t\<rparr>) ts = replicate (length ts) True"
    using Cons.prems(3-5,8,9) ord(3) tu(3) by (intro Cons.IH [of j]) (simp_all add: j)
  then show ?case
    using rl_allow_fin [OF tok0 Cons.prems(2-5) ord(1) tu(2)] q1
    by (simp add: q_def [symmetric] Let_def)
qed simp

section \<open>Lemmas: rate specifications\<close>

lemma split_once_append: "c \<notin> set s \<Longrightarrow> split_once c (s @ c # t) = (s, Some t)"
  by (induction s) auto

lemma rate_unit_plain:
  assumes "rate_divisor w = Some d"
  shows "w \<noteq> []" "trim_space w = w" "to_lower w = w" "d \<in> {1, 60, 3600}" "visible (last w)"
proof -
  from assms have "w \<in> {''s'', ''sec'', ''second'', ''seconds'', ''m'', ''min'', ''minute'', ''minutes'',
    ''h'', ''hr'', ''hour'', ''hours''}" and "d \<in> {1, 60, 3600}"
    by (auto simp: rate_divisor_def split: if_splits)
  then show "w \<noteq> []" "trim_space w = w" "to_lower w = w" "d \<in> {1, 60, 3600}" "visible (last w)"
    by (auto simp: trim_space_visible visible_def to_lower_id)
qed

lemma rate_pos:
  assumes "0 < n" and "n \<le> 2 ^ 53" and "d \<in> {1, 60, 3600}"
  shows "f_div_const (Fin (of_nat n)) d = Fin (rnd64 (of_nat n / d))" and "0 < rnd64 (of_nat n / d)"
proof -
  have n: "(1 :: rat) \<le> of_nat n" using assms(1) by simp
  have d: "1 \<le> d" "d \<le> 3600" using assms(3) by auto
  have "of_nat n / d \<le> of_nat n" using n d(1) by (simp add: divide_le_eq)
  then have "of_nat n / d \<le> max_f64" using of_nat_le_max_f64 [OF assms(2)] by linarith
  then show "f_div_const (Fin (of_nat n)) d = Fin (rnd64 (of_nat n / d))"
    using d(1) by (simp add: f64_of_rat_fin)
  have "1 / 4096 \<le> of_nat n / d" using n d by (simp add: le_divide_eq)
  moreover have "rnd64 (1 / 4096) = 1 / 4096" using rnd64_grid [of 1 "- 12"] by (simp add: power_int_minus)
  ultimately have "1 / 4096 \<le> rnd64 (of_nat n / d)" by (intro r64.rnd_ge_fix) simp_all
  then show "0 < rnd64 (of_nat n / d)" by linarith
qed

section \<open>Properties\<close>

text \<open>
  The request cap is exact: of the first \<open>N\<close> calls (fewer than 2^63) on a fresh counter
  exactly the first \<open>max\<close> are allowed, and with a cap of zero or below every one is.
\<close>

theorem counter_caps_requests:
  assumes "int N \<le> int64_max"
  shows "fst (counter_run N (new_request_counter m)) =
    map (\<lambda>i. sint m \<le> 0 \<or> int i < sint m) [0..<N]"
proof (cases "0 < sint m")
  case True
  with counter_run_from [of m 0 N] assms show ?thesis by (simp add: new_request_counter_def)
next
  case False
  have "fst (counter_run N \<lparr>rc_max = m, rc_n = n\<rparr>) = replicate N True" for n
    using False by (induction N arbitrary: n) (simp_all add: counter_allow_def Let_def split_beta)
  with False show ?thesis by (simp add: new_request_counter_def map_replicate_const)
qed

theorem counter_caps_requests_witness:
  "fst (counter_run 3 (new_request_counter 2)) = [True, True, False]"
  using counter_caps_requests [of 3 2] by (simp add: int64_max_def upt_rec)

text \<open>
  The token budget: after usage has been added that is non-negative and sums to no more than
  an int64, the budget is exhausted exactly when it is set and the sum has reached it; and the
  answer of every \<open>Add\<close> is that the budget is not exhausted by it.
\<close>

theorem budget_exhausted_iff:
  assumes "\<forall>n \<in> set ns. 0 \<le> sint n" and "sum_list (map sint ns) \<le> int64_max"
  shows "(over_budget (budget_run ns (new_token_budget m)) \<longleftrightarrow>
      0 < sint m \<and> sint m \<le> sum_list (map sint ns)) \<and>
    fst (fst (budget_add k t)) = (\<not> over_budget (snd (budget_add k t)))"
  using budget_run_sum [of "new_token_budget m" ns] assms
  by (auto simp: new_token_budget_def over_budget_def budget_add_def Let_def)

theorem budget_exhausted_iff_witness:
  "over_budget (budget_run [60, 40] (new_token_budget 100)) \<and>
   \<not> over_budget (budget_run [60, 39] (new_token_budget 100))"
  using budget_exhausted_iff [of "[60, 40]" 100] budget_exhausted_iff [of "[60, 39]" 100]
  by (simp add: int64_max_def)

text \<open>
  C15. The limiter limits: over any sequence of requests at non-decreasing clock readings, a
  limiter of burst \<open>b\<close> and rate \<open>r\<close> lets through at most \<open>b + r * T\<close> requests in \<open>T\<close>
  seconds, up to the accumulated floating-point error (a relative \<open>2 ^ - 53\<close> per operation).
\<close>

theorem limiter_bound:
  assumes "0 < b" and "b \<le> max_f64" and "rnd64 b = b" and "0 < r"
    and "sorted (t0 # ts)" and "last (t0 # ts) - t0 \<le> int64_max"
  shows "of_nat (count_list (rl_run (new_rate_limiter (Fin r) (Fin b) t0) ts) True)
    \<le> b + r * (of_int (last (t0 # ts) - t0) / 10 ^ 9) * (1 + u64) ^ 3
      + of_nat (length ts) * (2 * u64 * b + 6 * r * eta64 + 3 * eta64)"
proof -
  have "new_rate_limiter (Fin r) (Fin b) t0 =
    Some \<lparr>rl_tokens = Fin b, rl_burst = Fin b, rl_rate = Fin r, rl_last = t0\<rparr>"
    using assms by (simp add: new_rate_limiter_def)
  then show ?thesis using rl_run_bound [of b b r t0 ts] assms by simp
qed

theorem limiter_bound_witness:
  "of_nat (count_list (rl_run (new_rate_limiter (Fin 1) (Fin 2) 0) [0, 0, 0]) True) < (3 :: rat)"
proof -
  have b: "(2 :: rat) \<le> max_f64" "rnd64 2 = 2" by (simp_all add: max_f64_def rnd64_of_nat [of 2, simplified])
  have e: "3 * (2 * u64 * 2 + 6 * eta64 + 3 * eta64) < (1 :: rat)"
    using eta64_le by (simp add: u64_def)
  show ?thesis
    using limiter_bound [OF _ b, of 1 0 "[0, 0, 0]"] e by (simp add: int64_max_def)
qed

text \<open>
  A full burst passes: from a fresh limiter whose burst is an integer \<open>n\<close> up to 2^53, the
  first \<open>n\<close> requests are allowed, whatever the clock readings.
\<close>

theorem limiter_full_burst:
  assumes "0 < n" and "n \<le> 2 ^ 53" and "0 < r"
    and "sorted (t0 # ts)" and "last (t0 # ts) - t0 \<le> int64_max" and "length ts \<le> n"
  shows "rl_run (new_rate_limiter (Fin r) (Fin (of_nat n)) t0) ts = replicate (length ts) True"
proof -
  have "new_rate_limiter (Fin r) (Fin (of_nat n)) t0 =
    Some \<lparr>rl_tokens = Fin (of_nat n), rl_burst = Fin (of_nat n), rl_rate = Fin r, rl_last = t0\<rparr>"
    using assms by (simp add: new_rate_limiter_def)
  then show ?thesis
    using rl_run_burst [of n "of_nat n" "of_nat n" r t0 ts] assms of_nat_le_max_f64 rnd64_of_nat by simp
qed

theorem limiter_full_burst_witness:
  "rl_run (new_rate_limiter (Fin 1) (Fin 3) 0) [0, 0, 7] = [True, True, True]"
  using limiter_full_burst [of 3 1 0 "[0, 0, 7]"] by (simp add: int64_max_def numeral_3_eq_3)



text \<open>
  A rate specification means what the documentation says: \<open>n/unit\<close> with a positive integer
  up to 2^53 gives a limiter of burst \<open>n\<close>, full, that refills at \<open>n\<close> per second, minute or
  hour (the quotient rounded to a float); an empty specification gives no limiter.
\<close>

theorem rate_spec_integer:
  assumes "0 < n" and "n \<le> 2 ^ 53" and "rate_divisor w = Some d"
  shows "parse_rate_spec (show_nat n @ ''/'' @ w) now =
      Inr (Some \<lparr>rl_tokens = Fin (of_nat n), rl_burst = Fin (of_nat n),
                 rl_rate = Fin (if d = 1 then of_nat n else rnd64 (of_nat n / d)), rl_last = now\<rparr>) \<and>
    parse_rate_spec [] now = Inr None"
proof -
  note w = rate_unit_plain [OF assms(3)]
  have dig: "\<forall>c \<in> set (show_nat n). is_digit c" using show_nat_digits by blast
  have slash: "CHR ''/'' \<notin> set (show_nat n)" using dig by (auto simp: is_digit_def)
  have tn: "trim_space (show_nat n) = show_nat n"
    using dig digit_visible by (intro trim_space_all_visible) blast
  have "visible (hd (show_nat n))" using dig digit_visible by simp
  with w(5) have t: "trim_space (show_nat n @ ''/'' @ w) = show_nat n @ CHR ''/'' # w"
    using w(1) trim_space_visible [of "show_nat n @ ''/'' @ w"] by simp
  note r = rate_pos [OF assms(1,2) w(4)]
  have "parse_rate_spec (show_nat n @ ''/'' @ w) now =
    Inr (new_rate_limiter (if d = 1 then Fin (of_nat n) else f_div_const (Fin (of_nat n)) d)
      (Fin (of_nat n)) now)"
    unfolding parse_rate_spec_def t
    using assms(1) r
    by (simp add: split_once_append [OF slash] tn parse_float_show_nat [OF assms(2)] w assms(3) Let_def)
  moreover have "parse_rate_spec [] now = Inr None" by (simp add: parse_rate_spec_def)
  ultimately show ?thesis using r assms(1) by (simp add: new_rate_limiter_def)
qed

theorem rate_spec_integer_witness:
  "\<exists>l. parse_rate_spec (show_nat 10 @ ''/sec'') 7 = Inr (Some l) \<and> rl_rate l = Fin 10"
  using rate_spec_integer [of 10 "''sec''" 1 7] by (simp add: rate_divisor_def)

text \<open>
  A specification that passes the parser and is not a limit: \<open>nan/sec\<close> is accepted, and the
  limiter it gives denies every request for ever.
\<close>

theorem nan_rate_denies_all:
  "\<exists>l. parse_rate_spec ''nan/sec'' now = Inr (Some l) \<and> rl_run (Some l) ts = replicate (length ts) False"
proof -
  have t: "trim_space ''nan/sec'' = ''nan/sec''" "trim_space ''nan'' = ''nan''" "trim_space ''sec'' = ''sec''"
    by (simp_all add: trim_space_visible visible_def)
  have p: "parse_float ''nan'' = Inr NaN"
    by (simp add: parse_float_def special_def lower_byte_def)
  have "parse_rate_spec ''nan/sec'' now =
    Inr (Some \<lparr>rl_tokens = NaN, rl_burst = NaN, rl_rate = NaN, rl_last = now\<rparr>)"
    unfolding parse_rate_spec_def t(1)
    by (simp add: t(2,3) p to_lower_id rate_divisor_def new_rate_limiter_def)
  moreover have "rl_run (Some \<lparr>rl_tokens = NaN, rl_burst = NaN, rl_rate = NaN, rl_last = u\<rparr>) ts =
    replicate (length ts) False" for u
  proof (induction ts arbitrary: u)
    case (Cons t ts)
    have "f_add NaN x = NaN" "f_min NaN NaN = NaN" for x by (cases x; simp)+
    then show ?case using Cons by (simp add: rl_allow_def Let_def)
  qed simp
  ultimately show ?thesis by blast
qed

end
