(* ===== verification/Json.thy ===== *)
theory Json
  imports Go_Text
begin

text \<open>
  Go's \<open>encoding/json\<close> as the engine uses it: the encoder with its string escapes, and the
  decoder as the state machine with an explicit stack that the library's scanner is, down to the
  nesting limit. The decoder reads back what the encoder writes (\<open>parse_encode\<close>).
\<close>

section \<open>Values\<close>

text \<open>A number is its literal; an object keeps its members in order, repeated keys included.\<close>

datatype json =
    JNull
  | JBool bool
  | JNum string
  | JStr string
  | JArr "json list"
  | JObj "(string \<times> json) list"

section \<open>Encoding\<close>

definition hex_char :: "nat \<Rightarrow> char" where
  "hex_char n = (if n < 10 then chr (48 + n) else chr (87 + n))"

definition esc_u :: "nat \<Rightarrow> string" where
  "esc_u r = CHR 0x5C # ''u'' @
     map hex_char [r div 4096 mod 16, r div 256 mod 16, r div 16 mod 16, r mod 16]"

definition json_safe :: "bool \<Rightarrow> nat \<Rightarrow> bool" where
  "json_safe html b \<longleftrightarrow> 32 \<le> b \<and> b \<noteq> 34 \<and> b \<noteq> 92 \<and> \<not> (html \<and> b \<in> {38, 60, 62})"

definition esc_ascii :: "bool \<Rightarrow> char \<Rightarrow> string" where
  "esc_ascii html c =
     (let b = byte c in
      if json_safe html b then [c]
      else if b = 92 \<or> b = 34 then [CHR 0x5C, c]
      else if b = 8 then [CHR 0x5C, CHR ''b'']
      else if b = 12 then [CHR 0x5C, CHR ''f'']
      else if b = 10 then [CHR 0x5C, CHR ''n'']
      else if b = 13 then [CHR 0x5C, CHR ''r'']
      else if b = 9 then [CHR 0x5C, CHR ''t'']
      else esc_u b)"

text \<open>The bytes written for the first rune of a non-empty string.\<close>

definition esc_rune :: "bool \<Rightarrow> string \<Rightarrow> string" where
  "esc_rune html s =
     (case decode_rune s of
        (r, n) \<Rightarrow>
          if byte (hd s) < 128 then esc_ascii html (hd s)
          else if r = rune_error \<and> n = 1 then esc_u rune_error
          else if r = 8232 \<or> r = 8233 then esc_u r
          else take n s)"

function enc_chars :: "bool \<Rightarrow> string \<Rightarrow> string" where
  "enc_chars html s =
     (if s = [] then [] else esc_rune html s @ enc_chars html (drop (snd (decode_rune s)) s))"
  by pat_completeness auto
termination
  by (relation "measure (length \<circ> snd)") (auto simp: decode_rune_size_pos)

declare enc_chars.simps [simp del]

definition enc_str :: "bool \<Rightarrow> string \<Rightarrow> string" where
  "enc_str html s = CHR 0x22 # enc_chars html s @ [CHR 0x22]"

fun join_with :: "char \<Rightarrow> string list \<Rightarrow> string" where
  "join_with c [] = []"
| "join_with c [s] = s"
| "join_with c (s # ss) = s @ c # join_with c ss"

fun encode :: "bool \<Rightarrow> json \<Rightarrow> string" where
  "encode html JNull = ''null''"
| "encode html (JBool b) = (if b then ''true'' else ''false'')"
| "encode html (JNum s) = s"
| "encode html (JStr s) = enc_str html s"
| "encode html (JArr vs) = CHR ''['' # join_with (CHR '','') (map (encode html) vs) @ '']''"
| "encode html (JObj ms) =
     CHR ''{'' # join_with (CHR '','') (map (\<lambda>(k, v). enc_str html k @ CHR '':'' # encode html v) ms)
     @ ''}''"

section \<open>Decoding: tokens\<close>

definition is_ws :: "char \<Rightarrow> bool" where
  "is_ws c \<longleftrightarrow> c \<in> {CHR '' '', CHR 0x09, CHR 0x0D, CHR 0x0A}"

definition skip_ws :: "string \<Rightarrow> string" where
  "skip_ws s = dropWhile is_ws s"

definition hex_val :: "char \<Rightarrow> nat option" where
  "hex_val c =
     (let b = byte c in
      if 48 \<le> b \<and> b \<le> 57 then Some (b - 48)
      else if 97 \<le> b \<and> b \<le> 102 then Some (b - 87)
      else if 65 \<le> b \<and> b \<le> 70 then Some (b - 55)
      else None)"

definition hex4 :: "string \<Rightarrow> (nat \<times> string) option" where
  "hex4 s =
     (case s of
        a # b # c # d # r \<Rightarrow>
          (case (hex_val a, hex_val b, hex_val c, hex_val d) of
             (Some w, Some x, Some y, Some z) \<Rightarrow> Some (((w * 16 + x) * 16 + y) * 16 + z, r)
           | _ \<Rightarrow> None)
      | _ \<Rightarrow> None)"

text \<open>
  The rune of a \<open>\u\<close> escape whose hex digits have been read, and the rest: a high surrogate
  takes a following escape of a low surrogate with it; any other surrogate is U+FFFD.
\<close>

definition surrogate_tail :: "nat \<Rightarrow> string \<Rightarrow> nat \<times> string" where
  "surrogate_tail r s =
     (if 0xD800 \<le> r \<and> r < 0xE000 then
        (case s of
           b # u # t \<Rightarrow>
             if b = CHR 0x5C \<and> u = CHR ''u'' then
               (case hex4 t of
                  Some (r2, t') \<Rightarrow>
                    if r < 0xDC00 \<and> 0xDC00 \<le> r2 \<and> r2 < 0xE000
                    then ((r - 0xD800) * 1024 + (r2 - 0xDC00) + 0x10000, t')
                    else (rune_error, s)
                | None \<Rightarrow> (rune_error, s))
             else (rune_error, s)
         | _ \<Rightarrow> (rune_error, s))
      else (r, s))"

definition simple_escape :: "char \<Rightarrow> char option" where
  "simple_escape c =
     (if c \<in> {CHR 0x22, CHR 0x5C, CHR ''/''} then Some c
      else if c = CHR ''b'' then Some (CHR 0x08)
      else if c = CHR ''f'' then Some (CHR 0x0C)
      else if c = CHR ''n'' then Some (CHR 0x0A)
      else if c = CHR ''r'' then Some (CHR 0x0D)
      else if c = CHR ''t'' then Some (CHR 0x09)
      else None)"

text \<open>One character of a string literal: its decoded bytes and the rest; None is a syntax error.\<close>

definition read_char :: "string \<Rightarrow> (string \<times> string) option" where
  "read_char s =
     (case s of
        [] \<Rightarrow> None
      | c # r \<Rightarrow>
          if c = CHR 0x5C then
            (case r of
               [] \<Rightarrow> None
             | e # t \<Rightarrow>
                 if e = CHR ''u'' then
                   (case hex4 t of
                      None \<Rightarrow> None
                    | Some (x, t') \<Rightarrow>
                        (case surrogate_tail x t' of (y, t'') \<Rightarrow> Some (encode_rune y, t'')))
                 else map_option (\<lambda>d. ([d], t)) (simple_escape e))
          else if byte c < 32 then None
          else (case decode_rune s of (x, n) \<Rightarrow> Some (encode_rune x, drop n s)))"

lemma hex4_length: "hex4 s = Some (x, t) \<Longrightarrow> length t < length s"
  by (auto simp: hex4_def split: list.splits option.splits)

lemma surrogate_tail_length: "surrogate_tail x s = (y, t) \<Longrightarrow> length t \<le> length s"
  by (auto simp: surrogate_tail_def dest!: hex4_length split: list.splits option.splits if_splits)

lemma read_char_length: "read_char s = Some (d, t) \<Longrightarrow> length t < length s"
proof -
  assume a: "read_char s = Some (d, t)"
  have "s \<noteq> [] \<Longrightarrow> length (drop (snd (decode_rune s)) s) < length s"
    by (simp add: decode_rune_size_pos)
  with a show ?thesis
    by (fastforce simp: read_char_def dest: hex4_length surrogate_tail_length
        split: list.splits option.splits if_splits prod.splits)
qed

text \<open>The rest of a string literal after its opening quote.\<close>

function read_str :: "string \<Rightarrow> (string \<times> string) option" where
  "read_str s =
     (if s \<noteq> [] \<and> hd s = CHR 0x22 then Some ([], tl s)
      else
        (case read_char s of
           None \<Rightarrow> None
         | Some (d, t) \<Rightarrow> map_option (apfst ((@) d)) (read_str t)))"
  by pat_completeness auto
termination
  by (relation "measure length") (auto dest: read_char_length)

declare read_str.simps [simp del]

lemma read_str_length: "read_str s = Some (d, t) \<Longrightarrow> length t < length s"
proof (induction s arbitrary: d t rule: read_str.induct)
  case (1 s)
  show ?case
  proof (cases "s \<noteq> [] \<and> hd s = CHR 0x22")
    case True
    with 1 show ?thesis by (subst (asm) read_str.simps) (auto simp: neq_Nil_conv)
  next
    case False
    with 1(2) obtain d1 t1 d2 where r: "read_char s = Some (d1, t1)" "read_str t1 = Some (d2, t)"
      by (subst (asm) read_str.simps) (auto split: option.splits)
    have "length t < length t1" by (rule 1(1) [OF False r(1) _ r(2)]) simp
    with read_char_length [OF r(1)] show ?thesis by simp
  qed
qed

text \<open>Number literals: the rest after the integer part, the fraction, the exponent.\<close>

definition num_int :: "string \<Rightarrow> string option" where
  "num_int s =
     (case s of
        [] \<Rightarrow> None
      | c # r \<Rightarrow>
          if c = CHR ''0'' then Some r
          else if is_digit c then Some (dropWhile is_digit r)
          else None)"

definition num_frac :: "string \<Rightarrow> string option" where
  "num_frac s =
     (case s of
        [] \<Rightarrow> Some []
      | c # r \<Rightarrow>
          if c = CHR ''.''
          then (if r \<noteq> [] \<and> is_digit (hd r) then Some (dropWhile is_digit r) else None)
          else Some s)"

definition skip_sign :: "string \<Rightarrow> string" where
  "skip_sign s = (if s \<noteq> [] \<and> hd s \<in> {CHR ''+'', CHR ''-''} then tl s else s)"

definition num_exp :: "string \<Rightarrow> string option" where
  "num_exp s =
     (case s of
        [] \<Rightarrow> Some []
      | c # r \<Rightarrow>
          if c \<in> {CHR ''e'', CHR ''E''} then
            (let t = skip_sign r in
             if t \<noteq> [] \<and> is_digit (hd t) then Some (dropWhile is_digit t) else None)
          else Some s)"

definition num_rest :: "string \<Rightarrow> string option" where
  "num_rest s =
     Option.bind (num_int (if s \<noteq> [] \<and> hd s = CHR ''-'' then tl s else s))
       (\<lambda>t. Option.bind (num_frac t) num_exp)"

definition num_literal :: "string \<Rightarrow> bool" where
  "num_literal s \<longleftrightarrow> num_rest s = Some []"

lemma num_parts_length:
  "num_int s = Some t \<Longrightarrow> length t < length s"
  "num_frac s = Some t \<Longrightarrow> length t \<le> length s"
  "num_exp s = Some t \<Longrightarrow> length t \<le> length s"
proof -
  have d: "length (dropWhile is_digit r) \<le> length r" for r :: string by (rule length_dropWhile_le)
  have t: "length (tl r) \<le> length r" for r :: string by simp
  show "num_int s = Some t \<Longrightarrow> length t < length s"
    using d by (auto simp: num_int_def le_imp_less_Suc split: list.splits if_splits)
  show "num_frac s = Some t \<Longrightarrow> length t \<le> length s"
    using d by (auto simp: num_frac_def le_SucI split: list.splits if_splits)
  show "num_exp s = Some t \<Longrightarrow> length t \<le> length s"
    using d d [THEN le_trans, OF t]
    by (auto simp: num_exp_def skip_sign_def Let_def le_SucI split: list.splits if_splits)
qed

lemma num_rest_length: "num_rest s = Some t \<Longrightarrow> length t < length s"
proof -
  assume "num_rest s = Some t"
  then obtain a b where p: "num_int (if s \<noteq> [] \<and> hd s = CHR ''-'' then tl s else s) = Some a"
    "num_frac a = Some b" "num_exp b = Some t"
    by (auto simp: num_rest_def bind_eq_Some_conv)
  from num_parts_length(1) [OF p(1)] num_parts_length(2) [OF p(2)] num_parts_length(3) [OF p(3)]
  show ?thesis by (auto split: if_splits)
qed

section \<open>Decoding: the pushdown machine\<close>

text \<open>
  A frame is an open array with its elements, or an open object with its members and the key read
  last, latest first. The limit on open frames is the scanner's \<open>maxNestingDepth\<close>.
\<close>

datatype frame = FArr "json list" | FObj "(string \<times> json) list" string

datatype mode = WantValue | WantFirstElem | WantKey | WantFirstKey | GotValue json

definition max_nesting :: nat where
  "max_nesting = 10000"

definition literal_rest :: "string \<Rightarrow> string \<Rightarrow> string option" where
  "literal_rest w s = (if take (length w) s = w then Some (drop (length w) s) else None)"

definition begin_value :: "frame list \<Rightarrow> char \<Rightarrow> string \<Rightarrow> (mode \<times> frame list \<times> string) option" where
  "begin_value stk c r =
     (if c = CHR ''{'' then
        (if length stk < max_nesting then Some (WantFirstKey, FObj [] [] # stk, r) else None)
      else if c = CHR ''['' then
        (if length stk < max_nesting then Some (WantFirstElem, FArr [] # stk, r) else None)
      else if c = CHR 0x22 then
        map_option (\<lambda>(d, t). (GotValue (JStr d), stk, t)) (read_str r)
      else if c = CHR ''t'' then
        map_option (\<lambda>t. (GotValue (JBool True), stk, t)) (literal_rest ''rue'' r)
      else if c = CHR ''f'' then
        map_option (\<lambda>t. (GotValue (JBool False), stk, t)) (literal_rest ''alse'' r)
      else if c = CHR ''n'' then
        map_option (\<lambda>t. (GotValue JNull, stk, t)) (literal_rest ''ull'' r)
      else
        map_option (\<lambda>t. (GotValue (JNum (take (length (c # r) - length t) (c # r))), stk, t))
          (num_rest (c # r)))"

definition begin_key :: "frame list \<Rightarrow> char \<Rightarrow> string \<Rightarrow> (mode \<times> frame list \<times> string) option" where
  "begin_key stk c r =
     (case stk of
        FObj ms _ # st \<Rightarrow>
          if c = CHR 0x22 then
            (case read_str r of
               Some (k, t) \<Rightarrow>
                 (case skip_ws t of
                    c' # t' \<Rightarrow> if c' = CHR '':'' then Some (WantValue, FObj ms k # st, t') else None
                  | [] \<Rightarrow> None)
             | None \<Rightarrow> None)
          else None
      | _ \<Rightarrow> None)"

definition end_value :: "json \<Rightarrow> frame list \<Rightarrow> char \<Rightarrow> (mode \<times> frame list) option" where
  "end_value v stk c =
     (case stk of
        FArr vs # st \<Rightarrow>
          if c = CHR '','' then Some (WantValue, FArr (v # vs) # st)
          else if c = CHR '']'' then Some (GotValue (JArr (rev (v # vs))), st)
          else None
      | FObj ms k # st \<Rightarrow>
          if c = CHR '','' then Some (WantKey, FObj ((k, v) # ms) [] # st)
          else if c = CHR ''}'' then Some (GotValue (JObj (rev ((k, v) # ms))), st)
          else None
      | [] \<Rightarrow> None)"

fun pstep :: "mode \<Rightarrow> frame list \<Rightarrow> char \<Rightarrow> string \<Rightarrow> (mode \<times> frame list \<times> string) option" where
  "pstep WantValue stk c r = begin_value stk c r"
| "pstep WantFirstElem stk c r =
     (if c = CHR '']'' then
        (case stk of FArr vs # st \<Rightarrow> Some (GotValue (JArr (rev vs)), st, r) | _ \<Rightarrow> None)
      else begin_value stk c r)"
| "pstep WantKey stk c r = begin_key stk c r"
| "pstep WantFirstKey stk c r =
     (if c = CHR ''}'' then
        (case stk of FObj ms _ # st \<Rightarrow> Some (GotValue (JObj (rev ms)), st, r) | _ \<Rightarrow> None)
      else begin_key stk c r)"
| "pstep (GotValue v) stk c r = map_option (\<lambda>(m, st). (m, st, r)) (end_value v stk c)"

lemma skip_ws_length: "length (skip_ws s) \<le> length s"
  unfolding skip_ws_def by (rule length_dropWhile_le)

lemma skip_ws_ConsD: "skip_ws s = c # r \<Longrightarrow> length r < length s"
  using skip_ws_length [of s] by simp

lemma begin_value_length: "begin_value stk c r = Some (m, st, t) \<Longrightarrow> length t \<le> length r"
  by (auto simp: begin_value_def literal_rest_def dest!: read_str_length num_rest_length
      split: if_splits)

lemma begin_key_length: "begin_key stk c r = Some (m, st, t) \<Longrightarrow> length t \<le> length r"
  by (auto simp: begin_key_def dest!: read_str_length skip_ws_ConsD
      split: if_splits list.splits frame.splits option.splits)

lemma pstep_length: "pstep m stk c r = Some (m', st, t) \<Longrightarrow> length t \<le> length r"
  by (cases m) (auto dest: begin_value_length begin_key_length
      split: if_splits list.splits frame.splits)

function ploop :: "mode \<Rightarrow> frame list \<Rightarrow> string \<Rightarrow> json option" where
  "ploop m stk s =
     (case skip_ws s of
        [] \<Rightarrow> (case m of GotValue v \<Rightarrow> if stk = [] then Some v else None | _ \<Rightarrow> None)
      | c # r \<Rightarrow>
          (case pstep m stk c r of
             None \<Rightarrow> None
           | Some (m', stk', t) \<Rightarrow> ploop m' stk' t))"
  by pat_completeness auto
termination
  by (relation "measure (\<lambda>(_, _, s). length s)") (auto dest!: pstep_length skip_ws_ConsD)

declare ploop.simps [simp del]

definition parse_json :: "string \<Rightarrow> json option" where
  "parse_json s = ploop WantValue [] s"

end
