(* ===== verification/Json_Roundtrip.thy ===== *)
theory Json_Roundtrip
  imports Json
begin

text \<open>
  The decoder inverts the encoder: strings come back as valid UTF-8 with U+FFFD for every invalid
  byte, everything else as it was written.
\<close>

section \<open>Strings\<close>

lemma hex_val_char: "n < 16 \<Longrightarrow> hex_val (hex_char n) = Some n"
  by (simp add: hex_val_def hex_char_def Let_def)

lemma hex4_chars:
  "a < 16 \<Longrightarrow> b < 16 \<Longrightarrow> c < 16 \<Longrightarrow> d < 16 \<Longrightarrow>
   hex4 (map hex_char [a, b, c, d] @ t) = Some (((a * 16 + b) * 16 + c) * 16 + d, t)"
  by (simp add: hex4_def hex_val_char)

lemma hex4_digits:
  assumes "r < 65536"
  shows "hex4 (map hex_char [r div 4096 mod 16, r div 256 mod 16, r div 16 mod 16, r mod 16] @ t) =
    Some (r, t)"
proof -
  have d: "r div 4096 = r div 256 div 16" "r div 256 = r div 16 div 16"
    by (simp_all add: div_mult2_eq [symmetric])
  have "r div 256 div 16 < 16" using assms by (simp add: div_mult2_eq [symmetric] less_mult_imp_div_less)
  then have "((r div 4096 mod 16 * 16 + r div 256 mod 16) * 16 + r div 16 mod 16) * 16 + r mod 16 = r"
    unfolding d by simp
  moreover have "x mod 16 < 16" for x :: nat by simp
  ultimately show ?thesis by (simp only: hex4_chars)
qed

lemma read_char_esc_u:
  assumes "r < 65536" and "r < 55296 \<or> 57344 \<le> r"
  shows "read_char (esc_u r @ t) = Some (encode_rune r, t)"
  using assms hex4_digits [OF assms(1), of t]
  by (auto simp: read_char_def esc_u_def surrogate_tail_def)

lemma encode_rune_ascii: "byte c < 128 \<Longrightarrow> encode_rune (byte c) = [c]"
  by (simp add: encode_rune_def encode_valid_rune_def valid_rune_def)

lemma byte_escaped:
  "byte c = 92 \<longleftrightarrow> c = CHR 0x5C" "byte c = 34 \<longleftrightarrow> c = CHR 0x22" "byte c = 8 \<longleftrightarrow> c = CHR 0x08"
  "byte c = 12 \<longleftrightarrow> c = CHR 0x0C" "byte c = 10 \<longleftrightarrow> c = CHR 0x0A" "byte c = 13 \<longleftrightarrow> c = CHR 0x0D"
  "byte c = 9 \<longleftrightarrow> c = CHR 0x09"
  using of_char_eq_iff [where 'a = nat, of c "CHR 0x5C"] of_char_eq_iff [where 'a = nat, of c "CHR 0x22"]
    of_char_eq_iff [where 'a = nat, of c "CHR 0x08"] of_char_eq_iff [where 'a = nat, of c "CHR 0x0C"]
    of_char_eq_iff [where 'a = nat, of c "CHR 0x0A"] of_char_eq_iff [where 'a = nat, of c "CHR 0x0D"]
    of_char_eq_iff [where 'a = nat, of c "CHR 0x09"]
  by simp_all

lemma read_char_esc_ascii:
  assumes "byte c < 128"
  shows "read_char (esc_ascii html c @ t) = Some ([c], t)"
proof (cases "json_safe html (byte c)")
  case True
  then have "c \<noteq> CHR 0x5C" "\<not> byte c < 32" by (auto simp: json_safe_def)
  with True assms show ?thesis
    by (simp add: esc_ascii_def read_char_def encode_rune_ascii)
next
  case False
  show ?thesis
  proof (cases "byte c \<in> {92, 34, 8, 12, 10, 13, 9}")
    case True
    then have "c \<in> {CHR 0x5C, CHR 0x22, CHR 0x08, CHR 0x0C, CHR 0x0A, CHR 0x0D, CHR 0x09}"
      by (simp add: byte_escaped)
    with False show ?thesis by (auto simp: esc_ascii_def json_safe_def read_char_def simple_escape_def)
  next
    case other: False
    with False have "esc_ascii html c = esc_u (byte c)" by (simp add: esc_ascii_def Let_def)
    then show ?thesis using read_char_esc_u [of "byte c" t] assms by (simp add: encode_rune_ascii)
  qed
qed

lemma esc_ascii_hd: "esc_ascii html c \<noteq> [] \<and> hd (esc_ascii html c) \<noteq> CHR 0x22"
  by (auto simp: esc_ascii_def json_safe_def esc_u_def Let_def)

lemma read_char_esc_rune:
  assumes "s \<noteq> []"
  shows "read_char (esc_rune html s @ t) = Some (encode_rune (fst (decode_rune s)), t)"
    and "esc_rune html s \<noteq> []" and "hd (esc_rune html s) \<noteq> CHR 0x22"
proof -
  obtain c u where s: "s = c # u" using assms by (cases s) auto
  obtain r n where rn: "decode_rune s = (r, n)" by fastforce
  have n: "0 < n" "n \<le> length s"
    using decode_rune_size_pos [OF assms] decode_rune_size_le [of s] by (simp_all add: rn)
  let ?p = "esc_rune html s"
  have "read_char (?p @ t) = Some (encode_rune r, t) \<and> ?p \<noteq> [] \<and> hd ?p \<noteq> CHR 0x22"
  proof (cases "byte c < 128")
    case True
    then have "?p = esc_ascii html c" "r = byte c" using rn by (simp_all add: s esc_rune_def)
    with True show ?thesis using esc_ascii_hd by (simp add: read_char_esc_ascii encode_rune_ascii)
  next
    case False
    then have c: "c \<noteq> CHR 0x22" "c \<noteq> CHR 0x5C" "\<not> byte c < 32" by auto
    show ?thesis
    proof (cases "r = rune_error \<and> n = 1 \<or> r = 8232 \<or> r = 8233")
      case True
      with False have "?p = esc_u r" unfolding esc_rune_def rn by (auto simp: s)
      moreover have "esc_u r \<noteq> [] \<and> hd (esc_u r) \<noteq> CHR 0x22" by (simp add: esc_u_def)
      ultimately show ?thesis using True read_char_esc_u [of r t] by (auto simp: rune_error_def)
    next
      case raw: False
      with False have p: "?p = take n s" unfolding esc_rune_def rn by (auto simp: s)
      have "decode_rune s \<noteq> (rune_error, 1)" using raw rn by auto
      from decode_rune_take [OF assms this, of t] have "decode_rune (take n s @ t) = (r, n)" by (simp add: rn)
      moreover obtain v where v: "take n s @ t = c # v" using n(1) by (cases n) (auto simp: s)
      ultimately have "read_char (take n s @ t) = Some (encode_rune r, drop n (take n s @ t))"
        using c by (simp add: read_char_def)
      then have "read_char (?p @ t) = Some (encode_rune r, t)" using n(2) by (simp add: p)
      moreover have "take n s \<noteq> []" "hd (take n s) = c" using n(1) by (cases n; simp add: s)+
      ultimately show ?thesis unfolding p using c(1) by simp
    qed
  qed
  then show "read_char (?p @ t) = Some (encode_rune (fst (decode_rune s)), t)"
    and "?p \<noteq> []" and "hd ?p \<noteq> CHR 0x22" by (simp_all add: rn)
qed

lemma read_str_enc_chars: "read_str (enc_chars html s @ CHR 0x22 # t) = Some (to_valid s, t)"
proof (induction html s rule: enc_chars.induct)
  case (1 html s)
  show ?case
  proof (cases "s = []")
    case True
    then show ?thesis by (simp add: enc_chars.simps read_str.simps [of "CHR 0x22 # t"])
  next
    case False
    note p = read_char_esc_rune [OF False, of html]
    let ?r = "enc_chars html (drop (snd (decode_rune s)) s)"
    have e: "enc_chars html s @ CHR 0x22 # t = esc_rune html s @ (?r @ CHR 0x22 # t)"
      using False by (simp add: enc_chars.simps [of html s])
    have v: "to_valid s = encode_rune (fst (decode_rune s)) @ to_valid (drop (snd (decode_rune s)) s)"
      using False by (simp add: to_valid.simps [of s])
    show ?thesis
      unfolding e v using 1 [OF False] p
      by (subst read_str.simps) (simp add: p(1))
  qed
qed

section \<open>Numbers\<close>

text \<open>What may follow a number without becoming part of it.\<close>

definition num_stop :: "string \<Rightarrow> bool" where
  "num_stop t \<longleftrightarrow> (t \<noteq> [] \<longrightarrow> \<not> is_digit (hd t) \<and> hd t \<notin> {CHR ''.'', CHR ''e'', CHR ''E''})"

lemma num_stop_simps [simp]:
  "num_stop []" "num_stop (CHR '','' # t)" "num_stop (CHR '']'' # t)" "num_stop (CHR ''}'' # t)"
  "num_stop (CHR 0x0A # t)"
  by (simp_all add: num_stop_def is_digit_def)

lemma drop_digits_append: "num_stop t \<Longrightarrow> dropWhile is_digit (s @ t) = dropWhile is_digit s @ t"
proof (induction s)
  case Nil
  then show ?case by (cases t) (simp_all add: num_stop_def)
qed simp

lemma num_int_append: "num_int s = Some u \<Longrightarrow> num_stop t \<Longrightarrow> num_int (s @ t) = Some (u @ t)"
  by (cases s) (auto simp: num_int_def drop_digits_append split: if_splits)

lemma num_frac_append: "num_frac s = Some u \<Longrightarrow> num_stop t \<Longrightarrow> num_frac (s @ t) = Some (u @ t)"
proof (cases s)
  case Nil
  then show "num_frac s = Some u \<Longrightarrow> num_stop t \<Longrightarrow> ?thesis"
    by (cases t) (auto simp: num_frac_def num_stop_def)
qed (auto simp: num_frac_def drop_digits_append split: if_splits)

lemma num_exp_append: "num_exp s = Some u \<Longrightarrow> num_stop t \<Longrightarrow> num_exp (s @ t) = Some (u @ t)"
proof (cases s)
  case Nil
  then show "num_exp s = Some u \<Longrightarrow> num_stop t \<Longrightarrow> ?thesis"
    by (cases t) (auto simp: num_exp_def num_stop_def)
next
  case (Cons c r)
  have "skip_sign (r @ t) = skip_sign r @ t" if "skip_sign r \<noteq> []"
    using that by (cases r) (auto simp: skip_sign_def)
  then show "num_exp s = Some u \<Longrightarrow> num_stop t \<Longrightarrow> ?thesis"
    by (auto simp: Cons num_exp_def Let_def drop_digits_append split: if_splits)
qed

lemma num_literal_hd: "num_literal s \<Longrightarrow> s \<noteq> [] \<and> (hd s = CHR ''-'' \<or> is_digit (hd s))"
  by (cases s)
    (auto simp: num_literal_def num_rest_def num_int_def is_digit_def split: if_splits)

lemma num_rest_append: "num_literal s \<Longrightarrow> num_stop t \<Longrightarrow> num_rest (s @ t) = Some t"
proof -
  assume l: "num_literal s" and t: "num_stop t"
  let ?d = "\<lambda>s. if s \<noteq> [] \<and> hd s = CHR ''-'' then tl s else s"
  have s: "s \<noteq> []" using num_literal_hd [OF l] by simp
  from l obtain a b where p: "num_int (?d s) = Some a" "num_frac a = Some b" "num_exp b = Some []"
    by (auto simp: num_literal_def num_rest_def bind_eq_Some_conv)
  have "?d (s @ t) = ?d s @ t" using s by (cases s) auto
  then show ?thesis
    using num_int_append [OF p(1) t] num_frac_append [OF p(2) t] num_exp_append [OF p(3) t]
    by (simp add: num_rest_def)
qed

lemma show_nat_hd_zero: "hd (show_nat n) = CHR ''0'' \<Longrightarrow> n = 0"
proof (induction n rule: show_nat.induct)
  case (1 n)
  show ?case
  proof (cases "n < 10")
    case True
    with 1(2) have "byte (digit n) = byte (CHR ''0'')" by (simp add: show_nat.simps [of n])
    with True show ?thesis by (simp add: digit_def byte_chr)
  next
    case False
    with 1(2) have "hd (show_nat (n div 10)) = CHR ''0''" by (simp add: show_nat.simps [of n])
    with 1(1) [OF False] False show ?thesis by simp
  qed
qed

lemma num_int_show_nat: "num_int (show_nat n) = Some []"
proof -
  obtain c r where cr: "show_nat n = c # r" by (cases "show_nat n") auto
  have dig: "\<forall>x \<in> set (c # r). is_digit x" using show_nat_digits [of _ n] cr by simp
  have "r = []" if "c = CHR ''0''"
  proof -
    have "n = 0" using that show_nat_hd_zero [of n] by (simp add: cr)
    then show ?thesis using cr by (simp add: show_nat.simps)
  qed
  with dig show ?thesis by (auto simp: cr num_int_def)
qed

lemma num_literal_show_int: "num_literal (show_int i)"
proof -
  have "hd (show_nat n) \<noteq> CHR ''-''" for n using show_nat_hd_not_sign [of n] by auto
  then show ?thesis
    by (auto simp: num_literal_def num_rest_def show_int_def num_int_show_nat num_frac_def num_exp_def)
qed

section \<open>Values\<close>

fun coerce :: "json \<Rightarrow> json" where
  "coerce (JStr s) = JStr (to_valid s)"
| "coerce (JArr vs) = JArr (map coerce vs)"
| "coerce (JObj ms) = JObj (map (\<lambda>(k, v). (to_valid k, coerce v)) ms)"
| "coerce v = v"

fun nums_ok :: "json \<Rightarrow> bool" where
  "nums_ok (JNum s) \<longleftrightarrow> num_literal s"
| "nums_ok (JArr vs) \<longleftrightarrow> (\<forall>v \<in> set vs. nums_ok v)"
| "nums_ok (JObj ms) \<longleftrightarrow> (\<forall>(k, v) \<in> set ms. nums_ok v)"
| "nums_ok _ \<longleftrightarrow> True"

fun jdepth :: "json \<Rightarrow> nat" where
  "jdepth (JArr vs) = Suc (fold max (map jdepth vs) 0)"
| "jdepth (JObj ms) = Suc (fold max (map (\<lambda>(k, v). jdepth v) ms) 0)"
| "jdepth _ = 0"

lemma fold_max_le: "(n :: nat) \<le> fold max ns n \<and> (\<forall>x \<in> set ns. x \<le> fold max ns n)"
proof (induction ns arbitrary: n)
  case (Cons k ns)
  from Cons [of "max k n"] show ?case by auto
qed simp

lemma jdepth_arr: "v \<in> set vs \<Longrightarrow> Suc (jdepth v) \<le> jdepth (JArr vs)"
  using fold_max_le [of 0 "map jdepth vs"] by auto

lemma jdepth_obj: "(k, v) \<in> set ms \<Longrightarrow> Suc (jdepth v) \<le> jdepth (JObj ms)"
  using fold_max_le [of 0 "map (\<lambda>(k, v). jdepth v) ms"] by force

lemma ploop_step:
  assumes "\<not> is_ws c" and "pstep m stk c r = Some (m', stk', t)"
  shows "ploop m stk (c # r) = ploop m' stk' t"
  using assms by (subst ploop.simps) (simp add: skip_ws_def)

lemma ploop_value_step:
  assumes "\<not> is_ws c" and "begin_value stk c r = Some (m', stk', t)"
  shows "ploop WantValue stk (c # r) = ploop m' stk' t"
  using assms by (intro ploop_step) simp_all

lemma not_ws [simp]: "\<not> is_ws (CHR ''{'')" "\<not> is_ws (CHR ''['')" "\<not> is_ws (CHR 0x22)"
  "\<not> is_ws (CHR ''t'')" "\<not> is_ws (CHR ''f'')" "\<not> is_ws (CHR ''n'')" "\<not> is_ws (CHR '','')"
  "\<not> is_ws (CHR '']'')" "\<not> is_ws (CHR ''}'')" "\<not> is_ws (CHR '':'')"
  by (simp_all add: is_ws_def)

lemma ploop_str:
  "ploop WantValue stk (enc_str html s @ t) = ploop (GotValue (JStr (to_valid s))) stk t"
  using read_str_enc_chars [of html s t]
  by (auto simp: enc_str_def begin_value_def intro!: ploop_value_step)

lemma ploop_num:
  assumes "num_literal s" and "num_stop t"
  shows "ploop WantValue stk (s @ t) = ploop (GotValue (JNum s)) stk t"
proof -
  obtain c r where s: "s = c # r" using num_literal_hd [OF assms(1)] by (cases s) auto
  have c: "c = CHR ''-'' \<or> is_digit c" using num_literal_hd [OF assms(1)] by (simp add: s)
  then have "\<not> is_ws c" "c \<notin> {CHR ''{'', CHR ''['', CHR 0x22, CHR ''t'', CHR ''f'', CHR ''n''}"
    by (auto simp: is_ws_def is_digit_def)
  moreover have "num_rest (c # r @ t) = Some t" using num_rest_append [OF assms] by (simp add: s)
  ultimately show ?thesis by (auto simp: s begin_value_def intro!: ploop_value_step)
qed

lemma ploop_literal:
  "ploop WantValue stk (''null'' @ t) = ploop (GotValue JNull) stk t"
  "ploop WantValue stk (''true'' @ t) = ploop (GotValue (JBool True)) stk t"
  "ploop WantValue stk (''false'' @ t) = ploop (GotValue (JBool False)) stk t"
  by (auto simp: begin_value_def literal_rest_def intro!: ploop_value_step)

lemma encode_hd:
  assumes "nums_ok v"
  shows "\<exists>c r. encode html v = c # r \<and> \<not> is_ws c \<and> c \<notin> {CHR '']'', CHR ''}''}"
proof (cases v)
  case (JNum s)
  then obtain c r where s: "s = c # r" "c = CHR ''-'' \<or> is_digit c"
    using assms num_literal_hd [of s] by (cases s) auto
  then have "\<not> is_ws c" "c \<notin> {CHR '']'', CHR ''}''}" by (auto simp: is_ws_def is_digit_def)
  with JNum s(1) show ?thesis by simp
qed (auto simp: enc_str_def)

lemma ploop_first_elem:
  assumes "nums_ok v"
  shows "ploop WantFirstElem stk (encode html v @ t) = ploop WantValue stk (encode html v @ t)"
proof -
  from encode_hd [OF assms, of html] obtain c r where
    c: "encode html v = c # r" "\<not> is_ws c" "c \<noteq> CHR '']''" by auto
  have "ploop m stk (c # r @ t) = (case pstep m stk c (r @ t) of None \<Rightarrow> None
    | Some (m', stk', t) \<Rightarrow> ploop m' stk' t)" for m
    using c(2) by (subst ploop.simps) (simp add: skip_ws_def)
  with c show ?thesis by simp
qed

text \<open>A value is read back when every call of this shape returns it to the machine.\<close>

definition reads_back :: "bool \<Rightarrow> json \<Rightarrow> bool" where
  "reads_back html v \<longleftrightarrow>
     (\<forall>stk t. length stk + jdepth v \<le> max_nesting \<longrightarrow> num_stop t \<longrightarrow>
        ploop WantValue stk (encode html v @ t) = ploop (GotValue (coerce v)) stk t)"

lemma reads_backD:
  "reads_back html v \<Longrightarrow> length stk + jdepth v \<le> max_nesting \<Longrightarrow> num_stop t \<Longrightarrow>
   ploop WantValue stk (encode html v @ t) = ploop (GotValue (coerce v)) stk t"
  by (simp add: reads_back_def)

lemma ploop_elems:
  assumes "vs \<noteq> []" and "\<forall>v \<in> set vs. reads_back html v"
    and "\<forall>v \<in> set vs. Suc (length stk) + jdepth v \<le> max_nesting"
  shows "ploop WantValue (FArr acc # stk) (join_with (CHR '','') (map (encode html) vs) @ CHR '']'' # t) =
    ploop (GotValue (JArr (rev acc @ map coerce vs))) stk t"
  using assms
proof (induction vs arbitrary: acc)
  case (Cons v vs)
  let ?f = "FArr acc # stk"
  have v: "ploop WantValue ?f (encode html v @ u) = ploop (GotValue (coerce v)) ?f u" if "num_stop u" for u
    using Cons.prems that by (intro reads_backD) simp_all
  show ?case
  proof (cases vs)
    case Nil
    have "ploop (GotValue (coerce v)) ?f (CHR '']'' # t) =
      ploop (GotValue (JArr (rev acc @ [coerce v]))) stk t"
      by (rule ploop_step) (simp_all add: end_value_def)
    with Nil v show ?thesis by simp
  next
    case (Cons w ws)
    let ?s = "join_with (CHR '','') (map (encode html) vs) @ CHR '']'' # t"
    have "ploop (GotValue (coerce v)) ?f (CHR '','' # ?s) =
      ploop WantValue (FArr (coerce v # acc) # stk) ?s"
      by (rule ploop_step) (simp_all add: end_value_def)
    also have "\<dots> = ploop (GotValue (JArr (rev (coerce v # acc) @ map coerce vs))) stk t"
      using Cons Cons.prems by (intro Cons.IH) simp_all
    finally show ?thesis using v [of "CHR '','' # ?s"] Cons by simp
  qed
qed simp

definition enc_member :: "bool \<Rightarrow> string \<times> json \<Rightarrow> string" where
  "enc_member html m = enc_str html (fst m) @ CHR '':'' # encode html (snd m)"

lemma begin_key_str:
  "begin_key (FObj ms k0 # stk) (CHR 0x22) (enc_chars html k @ CHR 0x22 # CHR '':'' # t) =
   Some (WantValue, FObj ms (to_valid k) # stk, t)"
  by (simp add: begin_key_def read_str_enc_chars skip_ws_def)

lemma ploop_members:
  assumes "ms \<noteq> []" and "\<forall>m \<in> set ms. reads_back html (snd m)"
    and "\<forall>m \<in> set ms. Suc (length stk) + jdepth (snd m) \<le> max_nesting"
    and "m0 = WantKey \<or> m0 = WantFirstKey"
  shows "ploop m0 (FObj acc k0 # stk) (join_with (CHR '','') (map (enc_member html) ms) @ CHR ''}'' # t) =
    ploop (GotValue (JObj (rev acc @ map (\<lambda>(k, v). (to_valid k, coerce v)) ms))) stk t"
  using assms
proof (induction ms arbitrary: acc k0 m0)
  case (Cons m ms)
  obtain k v where m: "m = (k, v)" by (cases m)
  let ?f = "FObj acc (to_valid k) # stk"
  have v: "ploop m0 (FObj acc k0 # stk) (enc_member html m @ u) = ploop (GotValue (coerce v)) ?f u"
    if "num_stop u" for u
  proof -
    have "ploop m0 (FObj acc k0 # stk) (enc_member html m @ u) = ploop WantValue ?f (encode html v @ u)"
      using Cons.prems(4) by (auto simp: m enc_member_def enc_str_def begin_key_str intro!: ploop_step)
    also have "\<dots> = ploop (GotValue (coerce v)) ?f u"
      using Cons.prems that by (intro reads_backD) (simp_all add: m)
    finally show ?thesis .
  qed
  show ?case
  proof (cases ms)
    case Nil
    have "ploop (GotValue (coerce v)) ?f (CHR ''}'' # t) =
      ploop (GotValue (JObj (rev acc @ [(to_valid k, coerce v)]))) stk t"
      by (rule ploop_step) (simp_all add: end_value_def)
    with Nil v show ?thesis by (simp add: m)
  next
    case (Cons w ws)
    let ?s = "join_with (CHR '','') (map (enc_member html) ms) @ CHR ''}'' # t"
    have "ploop (GotValue (coerce v)) ?f (CHR '','' # ?s) =
      ploop WantKey (FObj ((to_valid k, coerce v) # acc) [] # stk) ?s"
      by (rule ploop_step) (simp_all add: end_value_def)
    also have "\<dots> = ploop (GotValue (JObj (rev ((to_valid k, coerce v) # acc)
        @ map (\<lambda>(k, v). (to_valid k, coerce v)) ms))) stk t"
      using Cons Cons.prems by (intro Cons.IH) simp_all
    finally show ?thesis using v [of "CHR '','' # ?s"] Cons by (simp add: m)
  qed
qed simp

lemma reads_back_all: "nums_ok v \<Longrightarrow> reads_back html v"
proof (induction v)
  case (JArr vs)
  show ?case unfolding reads_back_def
  proof (intro allI impI)
    fix stk :: "frame list" and t :: string
    assume d: "length stk + jdepth (JArr vs) \<le> max_nesting" and t: "num_stop t"
    then have l: "length stk < max_nesting" by simp
    have s: "ploop WantValue stk (encode html (JArr vs) @ t) =
      ploop WantFirstElem (FArr [] # stk) (join_with (CHR '','') (map (encode html) vs) @ CHR '']'' # t)"
      using l by (auto simp: begin_value_def intro!: ploop_value_step)
    show "ploop WantValue stk (encode html (JArr vs) @ t) = ploop (GotValue (coerce (JArr vs))) stk t"
    proof (cases vs)
      case Nil
      have "ploop WantFirstElem (FArr [] # stk) (CHR '']'' # t) = ploop (GotValue (JArr [])) stk t"
        by (rule ploop_step) simp_all
      with Nil s show ?thesis by simp
    next
      case (Cons w ws)
      obtain u where u: "join_with (CHR '','') (map (encode html) vs) @ CHR '']'' # t = encode html w @ u"
        using Cons by (cases ws) auto
      have "\<forall>v \<in> set vs. Suc (length stk) + jdepth v \<le> max_nesting"
        using d jdepth_arr [of _ vs] by fastforce
      then have "ploop WantValue (FArr [] # stk) (encode html w @ u) =
        ploop (GotValue (JArr (rev [] @ map coerce vs))) stk t"
        unfolding u [symmetric] using JArr Cons by (intro ploop_elems) auto
      moreover have "nums_ok w" using JArr.prems Cons by simp
      ultimately show ?thesis unfolding s u using ploop_first_elem by simp
    qed
  qed
next
  case (JObj ms)
  show ?case unfolding reads_back_def
  proof (intro allI impI)
    fix stk :: "frame list" and t :: string
    assume d: "length stk + jdepth (JObj ms) \<le> max_nesting" and t: "num_stop t"
    then have l: "length stk < max_nesting" by simp
    have e: "map (\<lambda>(k, v). enc_str html k @ CHR '':'' # encode html v) ms = map (enc_member html) ms"
      by (auto simp: enc_member_def)
    have s: "ploop WantValue stk (encode html (JObj ms) @ t) =
      ploop WantFirstKey (FObj [] [] # stk) (join_with (CHR '','') (map (enc_member html) ms) @ CHR ''}'' # t)"
      using l by (auto simp: e begin_value_def intro!: ploop_value_step)
    show "ploop WantValue stk (encode html (JObj ms) @ t) = ploop (GotValue (coerce (JObj ms))) stk t"
    proof (cases "ms = []")
      case True
      have "ploop WantFirstKey (FObj [] [] # stk) (CHR ''}'' # t) = ploop (GotValue (JObj [])) stk t"
        by (rule ploop_step) simp_all
      with True s show ?thesis by simp
    next
      case False
      have "\<forall>m \<in> set ms. Suc (length stk) + jdepth (snd m) \<le> max_nesting"
        using d jdepth_obj [of _ _ ms] by fastforce
      moreover have "\<forall>m \<in> set ms. reads_back html (snd m)"
        using JObj by (auto intro: JObj.IH)
      ultimately show ?thesis unfolding s using False ploop_members [of ms html stk WantFirstKey "[]" "[]" t]
        by simp
    qed
  qed
qed (auto simp: reads_back_def ploop_str ploop_num ploop_literal [simplified])

theorem parse_encode:
  assumes "nums_ok v" and "jdepth v \<le> max_nesting"
  shows "parse_json (encode html v) = Some (coerce v)"
  using reads_backD [OF reads_back_all [OF assms(1)], of "[]" "[]" html] assms(2)
  by (simp add: parse_json_def ploop.simps [of "GotValue (coerce v)" "[]" "[]"] skip_ws_def)

end
