(* ===== verification/Json_Values.thy ===== *)
theory Json_Values
  imports Json_Roundtrip Float64
begin

text \<open>
  Between Go values and JSON: \<open>json.Marshal\<close> on the dynamic values the engine audits (with the
  sorting of map keys and the text of numbers), and \<open>json.Unmarshal\<close> into a struct (exact, then
  case-folded field names, null as no value, type errors that do not stop the decoding).
\<close>

section \<open>Text of floating-point numbers\<close>

text \<open>The power of ten just above a positive value: \<open>10 powi (k - 1) \<le> x < 10 powi k\<close>.\<close>

definition dec_exp :: "rat \<Rightarrow> int" where
  "dec_exp x = (case List.find (\<lambda>k. x < 10 powi k) [- 330..310] of Some k \<Rightarrow> k | None \<Rightarrow> 310)"

text \<open>
  The shortest decimal that rounds to \<open>x\<close>, as an integer and the number of digits asked for: the
  nearer of the two neighbours of \<open>x\<close> on the grid of \<open>n\<close> digits, if it rounds to \<open>x\<close>, else
  the other one, else one digit more. Seventeen digits always suffice.
\<close>

function shortest :: "rat \<Rightarrow> int \<Rightarrow> nat \<Rightarrow> nat \<times> nat" where
  "shortest x dp n =
     (let s = 10 powi (int n - dp); lo = \<lfloor>x * s\<rfloor>; hi = lo + 1;
          ok = (\<lambda>m. rnd64 (of_int m / s) = x);
          near = (if x * s - of_int lo \<le> 1 / 2 then lo else hi);
          far = (if near = lo then hi else lo) in
      if 0 < near \<and> ok near then (nat near, n)
      else if 0 < far \<and> ok far then (nat far, n)
      else if 17 \<le> n then (nat (max 1 near), n)
      else shortest x dp (Suc n))"
  by pat_completeness auto
termination
  by (relation "measure (\<lambda>(_, _, n). 17 - n)") auto

declare shortest.simps [simp del]

definition strip_zeros :: "string \<Rightarrow> string" where
  "strip_zeros s = rev (dropWhile (\<lambda>c. c = CHR ''0'') (rev s))"

text \<open>The digits without trailing zeros, and the position of the decimal point.\<close>

definition float_digits :: "rat \<Rightarrow> string \<times> int" where
  "float_digits x =
     (let dp = dec_exp x; (m, n) = shortest x dp 1; ds = show_nat m in
      (strip_zeros ds, int (length ds) + dp - int n))"

definition fmt_f :: "string \<Rightarrow> int \<Rightarrow> string" where
  "fmt_f ds pp =
     (if pp \<le> 0 then ''0.'' @ replicate (nat (- pp)) (CHR ''0'') @ ds
      else if int (length ds) \<le> pp then ds @ replicate (nat pp - length ds) (CHR ''0'')
      else take (nat pp) ds @ CHR ''.'' # drop (nat pp) ds)"

definition fmt_e :: "string \<Rightarrow> int \<Rightarrow> string" where
  "fmt_e ds pp =
     (let e = pp - 1 in
      take 1 ds @ (if length ds \<le> 1 then [] else CHR ''.'' # drop 1 ds) @
      CHR ''e'' # (if e < 0 then CHR ''-'' else CHR ''+'') # show_nat (nat \<bar>e\<bar>))"

definition pos_float_text :: "rat \<Rightarrow> string" where
  "pos_float_text x =
     (case float_digits x of
        (ds, pp) \<Rightarrow> if x < 1 / 10 ^ 6 \<or> 10 ^ 21 \<le> x then fmt_e ds pp else fmt_f ds pp)"

definition float_text :: "rat \<Rightarrow> string" where
  "float_text x =
     (if x = 0 then ''0'' else if x < 0 then CHR ''-'' # pos_float_text (- x) else pos_float_text x)"

section \<open>json.Marshal\<close>

text \<open>
  The dynamic values an audit payload holds. A Go map is an association list with distinct keys;
  a nil map, slice or pointer is \<open>GNull\<close>.
\<close>

datatype gval =
    GNull
  | GBool bool
  | GInt int64
  | GFloat f64
  | GStr string
  | GList "gval list"
  | GMap "(string \<times> gval) list"

type_synonym gmap = "(string \<times> gval) list"

datatype json_error = UnsupportedValue

fun to_json :: "gval \<Rightarrow> (json_error, json) result" where
  "to_json GNull = Inr JNull"
| "to_json (GBool b) = Inr (JBool b)"
| "to_json (GInt i) = Inr (JNum (show_int (sint i)))"
| "to_json (GFloat f) = (case f of Fin x \<Rightarrow> Inr (JNum (float_text x)) | _ \<Rightarrow> Inl UnsupportedValue)"
| "to_json (GStr s) = Inr (JStr s)"
| "to_json (GList vs) = rbind (rmap to_json vs) (\<lambda>js. Inr (JArr js))"
| "to_json (GMap m) =
     rbind (rmap (\<lambda>(k, v). rbind (to_json v) (\<lambda>j. Inr (k, j))) m) (\<lambda>ms. Inr (JObj (sort_key fst ms)))"

definition marshal :: "bool \<Rightarrow> gval \<Rightarrow> (json_error, string) result" where
  "marshal html v = rbind (to_json v) (\<lambda>j. Inr (encode html j))"

section \<open>json.Unmarshal into a struct\<close>

text \<open>
  The case folding of field names: to upper case in ASCII; of the other runes only U+017F and
  U+212A fold to ASCII letters.
\<close>

definition fold_rune :: "nat \<Rightarrow> nat" where
  "fold_rune r = (if 97 \<le> r \<and> r \<le> 122 then r - 32 else if r = 383 then 83 else if r = 8490 then 75 else r)"

function fold_name :: "string \<Rightarrow> nat list" where
  "fold_name s =
     (if s = [] then []
      else fold_rune (fst (decode_rune s)) # fold_name (drop (snd (decode_rune s)) s))"
  by pat_completeness auto
termination
  by (relation "measure length") (auto simp: decode_rune_size_pos)

declare fold_name.simps [simp del]

text \<open>
  A field is its name and what decoding a value into it does to the record; the flag says that
  the value had the wrong type (the decoding goes on and the error is returned at the end).
\<close>

type_synonym 'r field = "string \<times> (json \<Rightarrow> 'r \<Rightarrow> 'r \<times> bool)"

definition find_field :: "'r field list \<Rightarrow> string \<Rightarrow> 'r field option" where
  "find_field fs k =
     (case List.find (\<lambda>f. fst f = k) fs of
        Some f \<Rightarrow> Some f
      | None \<Rightarrow> List.find (\<lambda>f. fold_name (fst f) = fold_name k) fs)"

declare find_field_def [decode_simps]

fun um_members :: "'r field list \<Rightarrow> (string \<times> json) list \<Rightarrow> 'r \<times> bool \<Rightarrow> 'r \<times> bool" where
  "um_members fs [] acc = acc"
| "um_members fs ((k, v) # ms) (r, e) =
     um_members fs ms
       (case find_field fs k of
          None \<Rightarrow> (r, e)
        | Some (_, setf) \<Rightarrow> (case setf v r of (r', e') \<Rightarrow> (r', e \<or> e')))"

fun um_struct :: "'r field list \<Rightarrow> json \<Rightarrow> 'r \<Rightarrow> 'r \<times> bool" where
  "um_struct fs (JObj ms) r = um_members fs ms (r, False)"
| "um_struct fs JNull r = (r, False)"
| "um_struct fs _ r = (r, True)"

fun um_string :: "(string \<Rightarrow> 'r \<Rightarrow> 'r) \<Rightarrow> json \<Rightarrow> 'r \<Rightarrow> 'r \<times> bool" where
  "um_string f (JStr s) r = (f s r, False)"
| "um_string f JNull r = (r, False)"
| "um_string f _ r = (r, True)"

fun um_int :: "(int64 \<Rightarrow> 'r \<Rightarrow> 'r) \<Rightarrow> json \<Rightarrow> 'r \<Rightarrow> 'r \<times> bool" where
  "um_int f (JNum s) r = (case parse_int64 s of Inr n \<Rightarrow> (f n r, False) | Inl _ \<Rightarrow> (r, True))"
| "um_int f JNull r = (r, False)"
| "um_int f _ r = (r, True)"

definition um_nested :: "('r \<Rightarrow> 's) \<Rightarrow> ('s \<Rightarrow> 'r \<Rightarrow> 'r) \<Rightarrow> 's field list \<Rightarrow> json \<Rightarrow> 'r \<Rightarrow> 'r \<times> bool" where
  "um_nested get put fs v r = (case um_struct fs v (get r) of (s, e) \<Rightarrow> (put s r, e))"

text \<open>The decoded record and whether \<open>Unmarshal\<close> returned an error.\<close>

definition unmarshal :: "'r field list \<Rightarrow> string \<Rightarrow> 'r \<Rightarrow> 'r \<times> bool" where
  "unmarshal fs s r = (case parse_json s of None \<Rightarrow> (r, True) | Some v \<Rightarrow> um_struct fs v r)"

section \<open>Lemmas\<close>

lemma shortest_pos: "0 < fst (shortest x dp n)"
proof (induction x dp n rule: shortest.induct)
  case (1 x dp n)
  then show ?case by (subst shortest.simps) (auto simp: Let_def max_def)
qed

definition good_digits :: "string \<Rightarrow> bool" where
  "good_digits ds \<longleftrightarrow> ds \<noteq> [] \<and> hd ds \<noteq> CHR ''0'' \<and> (\<forall>c \<in> set ds. is_digit c)"

lemma drop_all_digits: "\<forall>c \<in> set ds. is_digit c \<Longrightarrow> dropWhile is_digit (ds @ t) = dropWhile is_digit t"
  by (induction ds) auto

lemma num_rest_pos: "s \<noteq> [] \<Longrightarrow> hd s \<noteq> CHR ''-'' \<Longrightarrow>
    num_rest s = Option.bind (num_int s) (\<lambda>t. Option.bind (num_frac t) num_exp)"
  by (simp add: num_rest_def)

lemma num_int_digits:
  "good_digits ds \<Longrightarrow> num_int (ds @ t) = Some (dropWhile is_digit t)"
  by (cases ds) (auto simp: good_digits_def num_int_def drop_all_digits)

lemma good_digits_hd: "good_digits ds \<Longrightarrow> hd ds \<noteq> CHR ''-''"
  by (cases ds) (auto simp: good_digits_def is_digit_def)

lemma num_frac_digits:
  "ds \<noteq> [] \<Longrightarrow> \<forall>c \<in> set ds. is_digit c \<Longrightarrow> num_frac (CHR ''.'' # ds @ t) = Some (dropWhile is_digit t)"
  by (cases ds) (simp_all add: num_frac_def drop_all_digits)

lemma num_exp_nat:
  "num_exp (CHR ''e'' # (if b then CHR ''-'' else CHR ''+'') # show_nat n) = Some []"
proof -
  have "\<forall>c \<in> set (show_nat n). is_digit c" using show_nat_digits by blast
  then show ?thesis
    using drop_all_digits [of "show_nat n" "[]"] by (simp add: num_exp_def skip_sign_def)
qed

lemma good_digits_fmt_f:
  assumes "good_digits ds"
  shows "num_literal (fmt_f ds pp) \<and> hd (fmt_f ds pp) \<noteq> CHR ''-'' \<and> fmt_f ds pp \<noteq> []"
proof -
  have d: "ds \<noteq> []" "\<forall>c \<in> set ds. is_digit c" "hd ds \<noteq> CHR ''-''"
    using assms good_digits_hd by (auto simp: good_digits_def)
  have z: "\<forall>c \<in> set (replicate k (CHR ''0'')). is_digit c" for k by (simp add: is_digit_def)
  consider "pp \<le> 0" | "0 < pp" "int (length ds) \<le> pp" | "0 < pp" "pp < int (length ds)" by linarith
  then show ?thesis
  proof cases
    case 1
    have "\<forall>c \<in> set (replicate (nat (- pp)) (CHR ''0'') @ ds). is_digit c" using d(2) by (auto simp: is_digit_def)
    then have "num_frac (CHR ''.'' # replicate (nat (- pp)) (CHR ''0'') @ ds) = Some []"
      using d(1) num_frac_digits [of "replicate (nat (- pp)) (CHR ''0'') @ ds" "[]"] by simp
    with 1 show ?thesis by (simp add: fmt_f_def num_literal_def num_rest_pos num_int_def num_exp_def)
  next
    case 2
    then show ?thesis
      using d z drop_all_digits [OF z, of _ "[]"] num_int_digits [OF assms]
      by (auto simp: fmt_f_def num_literal_def num_rest_pos num_frac_def num_exp_def)
  next
    case 3
    define a b where "a = take (nat pp) ds" and "b = drop (nat pp) ds"
    have ab: "ds = a @ b" "a \<noteq> []" "b \<noteq> []" using 3 by (auto simp: a_def b_def)
    have "good_digits a" using assms ab(1,2) by (simp add: good_digits_def)
    moreover have "\<forall>c \<in> set b. is_digit c" using d(2) ab(1) by simp
    ultimately have "num_literal (a @ CHR ''.'' # b)" "hd a \<noteq> CHR ''-''"
      using ab(2) num_frac_digits [OF ab(3), of "[]"] num_int_digits [of a "CHR ''.'' # b"] good_digits_hd [of a]
      by (simp_all add: num_literal_def num_rest_pos is_digit_def num_exp_def)
    moreover have "fmt_f ds pp = a @ CHR ''.'' # b" using 3 by (simp add: fmt_f_def a_def b_def)
    ultimately show ?thesis using ab(2) by simp
  qed
qed

lemma good_digits_fmt_e:
  assumes "good_digits ds"
  shows "num_literal (fmt_e ds pp) \<and> hd (fmt_e ds pp) \<noteq> CHR ''-'' \<and> fmt_e ds pp \<noteq> []"
proof -
  obtain d r where ds: "ds = d # r" using assms by (cases ds) (auto simp: good_digits_def)
  have d: "is_digit d" "d \<noteq> CHR ''0''" "d \<noteq> CHR ''-''" "\<forall>c \<in> set r. is_digit c"
    using assms good_digits_hd [OF assms] by (auto simp: ds good_digits_def)
  define e where "e = CHR ''e'' # (if pp - 1 < 0 then CHR ''-'' else CHR ''+'') # show_nat (nat \<bar>pp - 1\<bar>)"
  have e: "num_exp e = Some []" unfolding e_def by (rule num_exp_nat)
  have f: "fmt_e ds pp = d # (if r = [] then [] else CHR ''.'' # r) @ e"
    by (cases r) (simp_all add: fmt_e_def ds e_def Let_def)
  have e1: "dropWhile is_digit e = e" "num_frac e = Some e"
    by (simp_all add: e_def is_digit_def num_frac_def)
  have "num_rest (d # (if r = [] then [] else CHR ''.'' # r) @ e) = Some []"
  proof (cases "r = []")
    case True
    then show ?thesis using d e e1 by (simp add: num_rest_pos num_int_def)
  next
    case False
    then show ?thesis
      using d e e1 num_frac_digits [OF False d(4), of e] by (simp add: num_rest_pos num_int_def is_digit_def [of "CHR ''.''"])
  qed
  then show ?thesis using d(3) by (simp add: f num_literal_def)
qed

lemma good_digits_strip:
  assumes "0 < m"
  shows "good_digits (strip_zeros (show_nat m))"
proof -
  have "hd (show_nat m) \<noteq> CHR ''0''" using assms show_nat_hd_zero [of m] by auto
  moreover have "\<forall>c \<in> set (show_nat m). is_digit c" using show_nat_digits by blast
  ultimately have g: "good_digits (show_nat m)" by (simp add: good_digits_def)
  have "good_digits s \<Longrightarrow> good_digits (strip_zeros s)" for s
  proof (induction s rule: rev_induct)
    case (snoc c s)
    then show ?case
    proof (cases "c = CHR ''0''")
      case True
      with snoc.prems have "good_digits s" by (cases s) (auto simp: good_digits_def)
      with snoc.IH True show ?thesis by (simp add: strip_zeros_def)
    next
      case False
      with snoc.prems show ?thesis by (simp add: strip_zeros_def)
    qed
  qed (simp add: good_digits_def)
  with g show ?thesis by blast
qed

lemma pos_float_text_ok: "num_literal (pos_float_text x) \<and> hd (pos_float_text x) \<noteq> CHR ''-'' \<and> pos_float_text x \<noteq> []"
  using good_digits_strip [OF shortest_pos] good_digits_fmt_f good_digits_fmt_e
  by (auto simp: pos_float_text_def float_digits_def Let_def split_beta)

lemma num_literal_float_text: "num_literal (float_text x)"
proof -
  have m: "num_literal s \<Longrightarrow> hd s \<noteq> CHR ''-'' \<Longrightarrow> s \<noteq> [] \<Longrightarrow> num_literal (CHR ''-'' # s)" for s
    by (simp add: num_literal_def num_rest_def)
  have "num_literal ''0''"
    by (simp add: num_literal_def num_rest_def num_int_def num_frac_def num_exp_def)
  then show ?thesis using pos_float_text_ok m by (simp add: float_text_def)
qed

lemma to_json_nums_ok: "to_json g = Inr j \<Longrightarrow> nums_ok j"
proof (induction g arbitrary: j rule: to_json.induct)
  case (3 i)
  then show ?case by (auto simp: num_literal_show_int)
next
  case (4 f)
  then show ?case by (auto simp: num_literal_float_text split: f64.splits)
next
  case (6 vs)
  then obtain js where js: "list_all2 (\<lambda>v j. to_json v = Inr j) vs js" "j = JArr js"
    by (auto simp: rbind_eq_Inr rmap_Inr_iff)
  have "\<forall>j \<in> set js. nums_ok j"
  proof
    fix x
    assume "x \<in> set js"
    then obtain i where i: "i < length js" "x = js ! i" by (auto simp: in_set_conv_nth)
    with js(1) have "to_json (vs ! i) = Inr x" "vs ! i \<in> set vs"
      by (auto simp: list_all2_conv_all_nth)
    then show "nums_ok x" using 6(1) by blast
  qed
  with js(2) show ?case by simp
next
  case (7 m)
  let ?R = "\<lambda>(k, v). rbind (to_json v) (\<lambda>j. Inr (k, j))"
  from 7 obtain ms where ms: "list_all2 (\<lambda>x y. ?R x = Inr y) m ms" "j = JObj (sort_key fst ms)"
    by (auto simp: rbind_eq_Inr rmap_Inr_iff)
  have "\<forall>y \<in> set ms. nums_ok (snd y)"
  proof
    fix y
    assume "y \<in> set ms"
    then obtain i where i: "i < length ms" "y = ms ! i" by (auto simp: in_set_conv_nth)
    with ms(1) have "?R (m ! i) = Inr y" and mem: "m ! i \<in> set m"
      by (auto simp: list_all2_conv_all_nth)
    then have "to_json (snd (m ! i)) = Inr (snd y)" by (auto simp: rbind_eq_Inr split: prod.splits)
    then show "nums_ok (snd y)" using 7(1) [OF mem, of "fst (m ! i)" "snd (m ! i)"] by simp
  qed
  with ms(2) show ?case by auto
qed auto

end
