(* ===== verification/Sha256.thy ===== *)
theory Sha256
  imports Go_Strings
begin

text \<open>
  Go's \<open>crypto/sha256\<close> and \<open>encoding/hex\<close> on byte strings: the digest that links the audit
  chain. What the chain's theorems use of it is its type alone: 64 lower-case hex digits.
\<close>

unbundle bit_operations_syntax

type_synonym w32 = "32 word"

section \<open>The compression function\<close>

text \<open>Fractional parts of the cube roots of the first 64 primes, and of the square roots of the first 8.\<close>

definition round_constants :: "w32 list" where
  "round_constants =
    [1116352408, 1899447441, 3049323471, 3921009573, 961987163, 1508970993, 2453635748, 2870763221,
     3624381080, 310598401, 607225278, 1426881987, 1925078388, 2162078206, 2614888103, 3248222580,
     3835390401, 4022224774, 264347078, 604807628, 770255983, 1249150122, 1555081692, 1996064986,
     2554220882, 2821834349, 2952996808, 3210313671, 3336571891, 3584528711, 113926993, 338241895,
     666307205, 773529912, 1294757372, 1396182291, 1695183700, 1986661051, 2177026350, 2456956037,
     2730485921, 2820302411, 3259730800, 3345764771, 3516065817, 3600352804, 4094571909, 275423344,
     430227734, 506948616, 659060556, 883997877, 958139571, 1322822218, 1537002063, 1747873779,
     1955562222, 2024104815, 2227730452, 2361852424, 2428436474, 2756734187, 3204031479, 3329325298]"

definition initial_state :: "w32 list" where
  "initial_state =
    [1779033703, 3144134277, 1013904242, 2773480762, 1359893119, 2600822924, 528734635, 1541459225]"

definition rotr32 :: "nat \<Rightarrow> w32 \<Rightarrow> w32" where
  "rotr32 n x = drop_bit n x OR push_bit (32 - n) x"

definition small_sigma :: "nat \<Rightarrow> nat \<Rightarrow> nat \<Rightarrow> w32 \<Rightarrow> w32" where
  "small_sigma a b c x = rotr32 a x XOR rotr32 b x XOR drop_bit c x"

definition big_sigma :: "nat \<Rightarrow> nat \<Rightarrow> nat \<Rightarrow> w32 \<Rightarrow> w32" where
  "big_sigma a b c x = rotr32 a x XOR rotr32 b x XOR rotr32 c x"

text \<open>The message schedule, newest word first, grown from the 16 words of the block.\<close>

fun grow_schedule :: "nat \<Rightarrow> w32 list \<Rightarrow> w32 list" where
  "grow_schedule 0 ws = ws"
| "grow_schedule (Suc k) ws =
     grow_schedule k
       ((small_sigma 17 19 10 (ws ! 1) + ws ! 6 + small_sigma 7 18 3 (ws ! 14) + ws ! 15) # ws)"

definition schedule :: "w32 list \<Rightarrow> w32 list" where
  "schedule block = rev (grow_schedule 48 (rev block))"

fun sha_round :: "w32 \<times> w32 \<Rightarrow> w32 list \<Rightarrow> w32 list" where
  "sha_round (k, w) [a, b, c, d, e, f, g, h] =
     (let t1 = h + big_sigma 6 11 25 e + ((e AND f) XOR (NOT e AND g)) + k + w;
          t2 = big_sigma 2 13 22 a + ((a AND b) XOR (a AND c) XOR (b AND c)) in
      [t1 + t2, a, b, c, d + t1, e, f, g])"
| "sha_round _ st = st"

definition compress :: "w32 list \<Rightarrow> w32 list \<Rightarrow> w32 list" where
  "compress block st =
     map2 (+) st (fold sha_round (zip round_constants (schedule block)) st)"

section \<open>Padding and digest\<close>

definition be_bytes :: "nat \<Rightarrow> nat \<Rightarrow> string" where
  "be_bytes k n = map (\<lambda>i. chr (n div 256 ^ i mod 256)) (rev [0..<k])"

definition pad :: "string \<Rightarrow> string" where
  "pad m =
     m @ chr 128 # replicate ((119 - length m mod 64) mod 64) (chr 0)
       @ be_bytes 8 (8 * length m mod 2 ^ 64)"

fun be_words :: "string \<Rightarrow> w32 list" where
  "be_words (a # b # c # d # s) =
     of_nat (((byte a * 256 + byte b) * 256 + byte c) * 256 + byte d) # be_words s"
| "be_words _ = []"

function blocks :: "w32 list \<Rightarrow> w32 list list" where
  "blocks ws = (if ws = [] then [] else take 16 ws # blocks (drop 16 ws))"
  by pat_completeness auto
termination
  by (relation "measure length") auto

declare blocks.simps [simp del]

definition sha256 :: "string \<Rightarrow> string" where
  "sha256 m =
     concat (map (\<lambda>w. be_bytes 4 (unat w)) (fold compress (blocks (be_words (pad m))) initial_state))"

text \<open>hex.EncodeToString.\<close>

definition hex_nibble :: "nat \<Rightarrow> char" where
  "hex_nibble n = (if n < 10 then chr (48 + n) else chr (87 + n))"

definition hex_encode :: "string \<Rightarrow> string" where
  "hex_encode s = concat (map (\<lambda>c. [hex_nibble (byte c div 16), hex_nibble (byte c mod 16)]) s)"

section \<open>The shape of a digest\<close>

definition is_hex_digest :: "string \<Rightarrow> bool" where
  "is_hex_digest s \<longleftrightarrow> length s = 64 \<and> (\<forall>c \<in> set s. 48 \<le> byte c \<and> byte c \<le> 57 \<or> 97 \<le> byte c \<and> byte c \<le> 102)"

lemma sha_round_length: "length st = 8 \<Longrightarrow> length (sha_round kw st) = 8"
  by (induction kw st rule: sha_round.induct) (auto simp: Let_def)

lemma sha_rounds_length: "length st = 8 \<Longrightarrow> length (fold sha_round kws st) = 8"
  by (induction kws arbitrary: st) (simp_all add: sha_round_length)

lemma compress_length: "length st = 8 \<Longrightarrow> length (compress b st) = 8"
  by (simp add: compress_def sha_rounds_length)

lemma compress_all_length: "length st = 8 \<Longrightarrow> length (fold compress bs st) = 8"
  by (induction bs arbitrary: st) (simp_all add: compress_length)

lemma length_concat_const: "(\<And>x. length (f x) = k) \<Longrightarrow> length (concat (map f xs)) = k * length xs"
  by (induction xs) simp_all

lemma be_bytes_length [simp]: "length (be_bytes k n) = k"
  by (simp add: be_bytes_def)

lemma sha256_length: "length (sha256 m) = 32"
proof -
  have "length (fold compress (blocks (be_words (pad m))) initial_state) = 8"
    by (rule compress_all_length) (simp add: initial_state_def)
  then show ?thesis
    unfolding sha256_def by (subst length_concat_const [where k = 4]) simp_all
qed

lemma hex_nibble_digit:
  "n < 16 \<Longrightarrow> 48 \<le> byte (hex_nibble n) \<and> byte (hex_nibble n) \<le> 57 \<or>
   97 \<le> byte (hex_nibble n) \<and> byte (hex_nibble n) \<le> 102"
  by (simp add: hex_nibble_def byte_chr)

lemma hex_digest: "is_hex_digest (hex_encode (sha256 m))"
proof -
  have "length (hex_encode s) = 2 * length s" for s
    unfolding hex_encode_def by (rule length_concat_const) simp
  moreover have "byte c div 16 < 16" "byte c mod 16 < 16" for c
    by (simp_all add: less_mult_imp_div_less)
  ultimately show ?thesis
    using hex_nibble_digit by (auto simp: is_hex_digest_def sha256_length hex_encode_def)
qed

lemma hex_digest_ascii: "is_hex_digest s \<Longrightarrow> is_ascii s"
  by (fastforce simp: is_hex_digest_def is_ascii_def)

text \<open>Padding fills whole blocks, so no part of the message is left out.\<close>

lemma pad_length: "64 dvd length (pad m)"
proof -
  have "length (pad m) = length m + 9 + (119 - length m mod 64) mod 64" by (simp add: pad_def)
  moreover have "(n + 9 + (119 - n mod 64) mod 64) mod 64 = 0" for n :: nat
  proof -
    have "n mod 64 < 64" by simp
    then have "((n mod 64) + 9 + (119 - n mod 64) mod 64) mod 64 = 0"
      by (simp add: mod_add_right_eq)
    then show ?thesis by (metis (no_types, lifting) mod_add_left_eq)
  qed
  ultimately show ?thesis by (simp add: mod_eq_0_iff_dvd)
qed

end
