(* ===== verification/Audit_Chain.thy ===== *)
theory Audit_Chain
  imports Json_Values Sha256
begin

text \<open>
  \<open>internal/audit/event.go\<close>, \<open>canonical.go\<close> and \<open>chain.go\<close>: the event record, its canonical
  serialisation, the hash that links it to its predecessor, and the verification of a chain. The
  argument about linked records is made once, in the locale \<open>linked_log\<close>.
\<close>

section \<open>Events\<close>

text \<open>A nil string pointer and a nil map are \<open>None\<close>.\<close>

record event =
  ev_ts :: string
  ev_session_id :: string
  ev_agent_identity :: string
  ev_invoking_user :: "string option"
  ev_principal :: string
  ev_type :: string
  ev_payload :: "gmap option"
  ev_budget :: "gmap option"
  ev_prev_hash :: "string option"
  ev_event_hash :: string

definition type_engine_start :: string where "type_engine_start = ''engine_start''"
definition type_engine_heartbeat :: string where "type_engine_heartbeat = ''engine_heartbeat''"
definition type_engine_shutdown :: string where "type_engine_shutdown = ''engine_shutdown''"
definition type_egress_allowed :: string where "type_egress_allowed = ''egress_allowed''"
definition type_egress_denied :: string where "type_egress_denied = ''egress_denied''"
definition type_egress_error :: string where "type_egress_error = ''egress_error''"

lemmas event_types = type_engine_start_def type_engine_shutdown_def type_egress_allowed_def
  type_egress_denied_def type_egress_error_def

definition g_opt_str :: "string option \<Rightarrow> gval" where
  "g_opt_str s = (case s of None \<Rightarrow> GNull | Some t \<Rightarrow> GStr t)"

definition g_opt_map :: "gmap option \<Rightarrow> gval" where
  "g_opt_map m = (case m of None \<Rightarrow> GNull | Some t \<Rightarrow> GMap t)"

section \<open>Canonical serialisation and the event hash\<close>

definition normalise_payload :: "gmap option \<Rightarrow> gmap option" where
  "normalise_payload p = (case p of None \<Rightarrow> Some [] | Some m \<Rightarrow> Some m)"

text \<open>The encoder ends its output with a newline, which is stripped again.\<close>

definition canonical_json :: "gval \<Rightarrow> (json_error, string) result" where
  "canonical_json value =
     rbind (marshal False value) (\<lambda>s.
       let out = s @ [CHR 0x0A] in
       Inr (if out \<noteq> [] \<and> last out = CHR 0x0A then butlast out else out))"

definition canonical_body :: "event \<Rightarrow> string option \<Rightarrow> gval" where
  "canonical_body e prev =
     GMap
       [(''ts'', GStr (ev_ts e)),
        (''session_id'', GStr (ev_session_id e)),
        (''agent_identity'', GStr (ev_agent_identity e)),
        (''invoking_user'', g_opt_str (ev_invoking_user e)),
        (''principal'', GStr (ev_principal e)),
        (''event'', GStr (ev_type e)),
        (''payload'', g_opt_map (normalise_payload (ev_payload e))),
        (''budget'', g_opt_map (normalise_payload (ev_budget e))),
        (''prev_hash'', g_opt_str prev)]"

definition compute_event_hash :: "event \<Rightarrow> string option \<Rightarrow> (json_error, string) result" where
  "compute_event_hash e prev =
     rbind (canonical_json (canonical_body e prev)) (\<lambda>payload. Inr (hex_encode (sha256 payload)))"

text \<open>The results of \<open>VerifyChain\<close>: the verdict, the index, the error.\<close>

fun verify_from :: "string option \<Rightarrow> int \<Rightarrow> event list \<Rightarrow> bool \<times> int \<times> json_error option" where
  "verify_from prev i [] = (True, - 1, None)"
| "verify_from prev i (e # es) =
     (case compute_event_hash e prev of
        Inl err \<Rightarrow> (False, i, Some err)
      | Inr expected \<Rightarrow>
          if ev_event_hash e \<noteq> expected then (False, i, None)
          else verify_from (Some (ev_event_hash e)) (i + 1) es)"

definition verify_chain :: "event list \<Rightarrow> bool \<times> int \<times> json_error option" where
  "verify_chain es = verify_from None 0 es"

section \<open>Linked logs\<close>

text \<open>
  A log is linked when every record carries the hash of its own content and of its predecessor's
  hash; the tip is the last record's hash.
\<close>

fun linked :: "('e \<Rightarrow> string option \<Rightarrow> ('x, string) result) \<Rightarrow> ('e \<Rightarrow> string) \<Rightarrow> string option \<Rightarrow> 'e list \<Rightarrow> bool"
  where
  "linked hash hash_of prev [] \<longleftrightarrow> True"
| "linked hash hash_of prev (e # es) \<longleftrightarrow>
     hash e prev = Inr (hash_of e) \<and> linked hash hash_of (Some (hash_of e)) es"

fun tip_of :: "('e \<Rightarrow> string) \<Rightarrow> string option \<Rightarrow> 'e list \<Rightarrow> string option" where
  "tip_of hash_of prev [] = prev"
| "tip_of hash_of prev (e # es) = tip_of hash_of (Some (hash_of e)) es"

fun link_inputs :: "('e \<Rightarrow> string option \<Rightarrow> 'b) \<Rightarrow> ('e \<Rightarrow> string) \<Rightarrow> string option \<Rightarrow> 'e list \<Rightarrow> 'b list" where
  "link_inputs inp hash_of prev [] = []"
| "link_inputs inp hash_of prev (e # es) = inp e prev # link_inputs inp hash_of (Some (hash_of e)) es"

lemma linked_append:
  "linked hash hash_of p (xs @ ys) \<longleftrightarrow>
     linked hash hash_of p xs \<and> linked hash hash_of (tip_of hash_of p xs) ys"
  by (induction xs arbitrary: p) auto

lemma tip_of_append: "tip_of hash_of p (xs @ ys) = tip_of hash_of (tip_of hash_of p xs) ys"
  by (induction xs arbitrary: p) auto

lemma tip_of_snoc [simp]: "tip_of hash_of p (xs @ [e]) = Some (hash_of e)"
  by (simp add: tip_of_append)

lemma link_inputs_append:
  "link_inputs inp hash_of p (xs @ ys) =
     link_inputs inp hash_of p xs @ link_inputs inp hash_of (tip_of hash_of p xs) ys"
  by (induction xs arbitrary: p) auto

text \<open>
  The interface: a record can be stamped with its predecessor's hash and its own, which changes
  nothing the hash depends on; the hash is a digest of an input (\<open>inp\<close>) from which the
  predecessor's hash can be read back for the records of a class \<open>ok\<close>.
\<close>

locale linked_log =
  fixes hash :: "'e \<Rightarrow> string option \<Rightarrow> ('x, string) result"
    and hash_of :: "'e \<Rightarrow> string"
    and stamp :: "'e \<Rightarrow> string option \<Rightarrow> string \<Rightarrow> 'e"
    and inp :: "'e \<Rightarrow> string option \<Rightarrow> 'b"
    and digest :: "'b \<Rightarrow> string"
    and ok :: "'e \<Rightarrow> bool"
  assumes hash_stamp: "hash (stamp e p h) q = hash e q"
    and hash_of_stamp: "hash_of (stamp e p h) = h"
    and hash_digest: "hash e p = Inr h \<Longrightarrow> h = digest (inp e p)"
    and inp_prev: "ok e \<Longrightarrow> ok f \<Longrightarrow> hash e p = Inr h \<Longrightarrow> hash f q = Inr h' \<Longrightarrow>
      (\<forall>x. p = Some x \<longrightarrow> (\<exists>b. x = digest b)) \<Longrightarrow> (\<forall>x. q = Some x \<longrightarrow> (\<exists>b. x = digest b)) \<Longrightarrow>
      inp e p = inp f q \<Longrightarrow> p = q"
begin

lemma append_stamped:
  assumes "linked hash hash_of p es" and "hash e (tip_of hash_of p es) = Inr h"
  shows "linked hash hash_of p (es @ [stamp e (tip_of hash_of p es) h])"
  using assms by (simp add: linked_append hash_stamp hash_of_stamp)

lemma linked_tip_digest:
  assumes "linked hash hash_of None es" and "tip_of hash_of None es = Some x"
  shows "\<exists>b. x = digest b"
proof (cases es rule: rev_cases)
  case Nil
  with assms(2) show ?thesis by simp
next
  case (snoc ys e)
  with assms have "hash e (tip_of hash_of None ys) = Inr x" by (simp add: linked_append)
  then show ?thesis using hash_digest by blast
qed

text \<open>
  Tamper evidence: two linked logs with the same tip have hashed the same sequence of inputs,
  unless an input of one and a different input of the other have the same digest.
\<close>

lemma same_tip:
  assumes "linked hash hash_of None es" and "linked hash hash_of None fs"
    and "\<forall>e \<in> set es. ok e" and "\<forall>f \<in> set fs. ok f"
    and "tip_of hash_of None es = tip_of hash_of None fs"
  shows "link_inputs inp hash_of None es = link_inputs inp hash_of None fs \<or>
    (\<exists>x \<in> set (link_inputs inp hash_of None es). \<exists>y \<in> set (link_inputs inp hash_of None fs).
       x \<noteq> y \<and> digest x = digest y)"
  using assms
proof (induction es arbitrary: fs rule: rev_induct)
  case Nil
  then show ?case by (cases fs rule: rev_cases) auto
next
  case (snoc e es)
  then obtain f gs where fs: "fs = gs @ [f]" by (cases fs rule: rev_cases) auto
  let ?p = "tip_of hash_of None es" and ?q = "tip_of hash_of None gs"
  have h: "hash e ?p = Inr (hash_of e)" "hash f ?q = Inr (hash_of f)" "hash_of e = hash_of f"
    and l: "linked hash hash_of None es" "linked hash hash_of None gs"
    using snoc.prems fs by (simp_all add: linked_append)
  then have d: "digest (inp e ?p) = digest (inp f ?q)" using hash_digest by metis
  show ?case
  proof (cases "inp e ?p = inp f ?q")
    case True
    have pq: "?p = ?q"
      using snoc.prems(3,4) fs linked_tip_digest [OF l(1)] linked_tip_digest [OF l(2)] True
      by (intro inp_prev [OF _ _ h(1,2)]) auto
    then have "link_inputs inp hash_of None es = link_inputs inp hash_of None gs \<or>
      (\<exists>x \<in> set (link_inputs inp hash_of None es). \<exists>y \<in> set (link_inputs inp hash_of None gs).
         x \<noteq> y \<and> digest x = digest y)"
      using snoc.prems fs l by (intro snoc.IH) auto
    then show ?thesis using True by (auto simp: fs link_inputs_append)
  next
    case False
    with d show ?thesis by (auto simp: fs link_inputs_append)
  qed
qed

end

lemma verify_from_linked:
  "(\<exists>i'. verify_from p i es = (True, i', None)) \<longleftrightarrow> linked compute_event_hash ev_event_hash p es"
proof (induction es arbitrary: p i)
  case (Cons e es)
  show ?case by (cases "compute_event_hash e p") (auto simp: Cons)
qed simp

lemma verify_from_index: "verify_from p i es = (True, i', None) \<Longrightarrow> i' = - 1"
  by (induction p i es rule: verify_from.induct) (auto split: sum.splits if_splits)

lemma verify_chain_linked:
  "verify_chain es = (True, - 1, None) \<longleftrightarrow> linked compute_event_hash ev_event_hash None es"
  using verify_from_linked [of None 0 es] verify_from_index [of None 0 es]
  unfolding verify_chain_def by metis

section \<open>The canonical tree\<close>

lemma canonical_json_eq: "canonical_json v = marshal False v"
  by (cases "marshal False v") (simp_all add: canonical_json_def)

definition j_opt_str :: "string option \<Rightarrow> json" where
  "j_opt_str s = (case s of None \<Rightarrow> JNull | Some t \<Rightarrow> JStr t)"

text \<open>An event that can be written: its maps have JSON trees, of a depth a reader accepts.\<close>

definition map_json :: "gmap option \<Rightarrow> (json_error, json) result" where
  "map_json m = to_json (g_opt_map m)"

definition recordable :: "event \<Rightarrow> bool" where
  "recordable e \<longleftrightarrow>
     (\<exists>jp jb. map_json (normalise_payload (ev_payload e)) = Inr jp \<and>
        map_json (normalise_payload (ev_budget e)) = Inr jb \<and>
        jdepth jp < max_nesting \<and> jdepth jb < max_nesting)"

definition canonical_tree :: "event \<Rightarrow> string option \<Rightarrow> json \<Rightarrow> json \<Rightarrow> json" where
  "canonical_tree e prev jp jb =
     JObj
       [(''agent_identity'', JStr (ev_agent_identity e)), (''budget'', jb), (''event'', JStr (ev_type e)),
        (''invoking_user'', j_opt_str (ev_invoking_user e)), (''payload'', jp),
        (''prev_hash'', j_opt_str prev), (''principal'', JStr (ev_principal e)),
        (''session_id'', JStr (ev_session_id e)), (''ts'', JStr (ev_ts e))]"

lemma to_json_opt_str [simp]: "to_json (g_opt_str s) = Inr (j_opt_str s)"
  by (simp add: g_opt_str_def j_opt_str_def split: option.splits)

lemma to_json_canonical:
  assumes "map_json (normalise_payload (ev_payload e)) = Inr jp"
    and "map_json (normalise_payload (ev_budget e)) = Inr jb"
  shows "to_json (canonical_body e prev) = Inr (canonical_tree e prev jp jb)"
  using assms
  by (simp add: canonical_body_def canonical_tree_def map_json_def less_char_def)

section \<open>The chain of audit events\<close>

definition stamp :: "event \<Rightarrow> string option \<Rightarrow> string \<Rightarrow> event" where
  "stamp e prev h = e\<lparr>ev_prev_hash := prev, ev_event_hash := h\<rparr>"

definition hash_input :: "event \<Rightarrow> string option \<Rightarrow> string" where
  "hash_input e prev =
     (case canonical_json (canonical_body e prev) of Inl _ \<Rightarrow> [] | Inr s \<Rightarrow> s)"

definition event_digest :: "string \<Rightarrow> string" where
  "event_digest s = hex_encode (sha256 s)"

lemma recordableE:
  assumes "recordable e"
  obtains jp jb where
    "map_json (normalise_payload (ev_payload e)) = Inr jp"
    "map_json (normalise_payload (ev_budget e)) = Inr jb"
    "nums_ok jp" "nums_ok jb" "jdepth jp < max_nesting" "jdepth jb < max_nesting"
  using assms to_json_nums_ok unfolding recordable_def map_json_def by metis

lemma canonical_tree_ok:
  assumes "nums_ok jp" "nums_ok jb" "jdepth jp < max_nesting" "jdepth jb < max_nesting"
  shows "nums_ok (canonical_tree e prev jp jb)" "jdepth (canonical_tree e prev jp jb) \<le> max_nesting"
  using assms
  by (auto simp: canonical_tree_def j_opt_str_def split: option.splits)

lemma hash_input_tree:
  assumes "map_json (normalise_payload (ev_payload e)) = Inr jp"
    and "map_json (normalise_payload (ev_budget e)) = Inr jb"
  shows "hash_input e prev = encode False (canonical_tree e prev jp jb)"
    and "compute_event_hash e prev = Inr (event_digest (encode False (canonical_tree e prev jp jb)))"
  using to_json_canonical [OF assms, of prev]
  by (simp_all add: hash_input_def compute_event_hash_def event_digest_def canonical_json_eq marshal_def)

lemma recordable_hash:
  "recordable e \<Longrightarrow> compute_event_hash e prev = Inr (event_digest (hash_input e prev))"
  by (erule recordableE) (simp add: hash_input_tree)

lemma event_digest_ascii: "is_ascii (event_digest b)"
  unfolding event_digest_def by (rule hex_digest_ascii [OF hex_digest])

lemma event_digest_not_Nil: "event_digest b \<noteq> []"
  using hex_digest [of b] by (auto simp: event_digest_def is_hex_digest_def)

lemma j_opt_str_digest:
  "(\<forall>x. p = Some x \<longrightarrow> (\<exists>b. x = event_digest b)) \<Longrightarrow> coerce (j_opt_str p) = j_opt_str p"
  by (auto simp: j_opt_str_def to_valid_ascii event_digest_ascii split: option.splits)

lemma j_opt_str_inject: "j_opt_str p = j_opt_str q \<Longrightarrow> p = q"
  by (auto simp: j_opt_str_def split: option.splits)

interpretation al: linked_log compute_event_hash ev_event_hash stamp hash_input event_digest recordable
proof
  fix e f :: event and p q h h'
  show "compute_event_hash (stamp e p h) q = compute_event_hash e q"
    by (simp add: stamp_def compute_event_hash_def canonical_body_def)
  show "ev_event_hash (stamp e p h) = h" by (simp add: stamp_def)
  show "compute_event_hash e p = Inr h \<Longrightarrow> h = event_digest (hash_input e p)"
    by (auto simp: compute_event_hash_def hash_input_def event_digest_def rbind_eq_Inr)
  assume ok: "recordable e" "recordable f" and eq: "hash_input e p = hash_input f q"
    and p: "\<forall>x. p = Some x \<longrightarrow> (\<exists>b. x = event_digest b)"
    and q: "\<forall>x. q = Some x \<longrightarrow> (\<exists>b. x = event_digest b)"
  obtain jp jb where e: "map_json (normalise_payload (ev_payload e)) = Inr jp"
    "map_json (normalise_payload (ev_budget e)) = Inr jb" and e2: "nums_ok jp" "nums_ok jb"
    "jdepth jp < max_nesting" "jdepth jb < max_nesting" using ok(1) by (rule recordableE)
  obtain kp kb where f: "map_json (normalise_payload (ev_payload f)) = Inr kp"
    "map_json (normalise_payload (ev_budget f)) = Inr kb" and f2: "nums_ok kp" "nums_ok kb"
    "jdepth kp < max_nesting" "jdepth kb < max_nesting" using ok(2) by (rule recordableE)
  from eq have "parse_json (encode False (canonical_tree e p jp jb)) =
    parse_json (encode False (canonical_tree f q kp kb))"
    by (simp add: hash_input_tree [OF e] hash_input_tree [OF f])
  then have "coerce (canonical_tree e p jp jb) = coerce (canonical_tree f q kp kb)"
    by (simp add: parse_encode canonical_tree_ok e2 f2)
  then have "coerce (j_opt_str p) = coerce (j_opt_str q)" by (simp add: canonical_tree_def)
  then show "p = q" using j_opt_str_digest [OF p] j_opt_str_digest [OF q] j_opt_str_inject by simp
qed

section \<open>Properties\<close>

text \<open>
  C3. Tamper evidence: if two chains of events both verify and end in the same hash, then they
  hashed the same sequence of canonical bodies (so nothing was changed, dropped, inserted or
  reordered), or else one of them contains a body and the other a different body with the same
  SHA-256 digest.
\<close>

theorem tamper_evident:
  assumes "verify_chain es = (True, - 1, None)" and "verify_chain fs = (True, - 1, None)"
    and "\<forall>e \<in> set (es @ fs). recordable e"
    and "tip_of ev_event_hash None es = tip_of ev_event_hash None fs"
  shows "link_inputs hash_input ev_event_hash None es = link_inputs hash_input ev_event_hash None fs \<or>
    (\<exists>x \<in> set (link_inputs hash_input ev_event_hash None es).
     \<exists>y \<in> set (link_inputs hash_input ev_event_hash None fs).
       x \<noteq> y \<and> event_digest x = event_digest y)"
  using assms by (intro al.same_tip) (simp_all add: verify_chain_linked)

text \<open>
  What an emitter appends, verifies: stamping a recordable event with the tip of a verifying
  chain and its computed hash gives a verifying chain with the new hash as its tip.
\<close>

theorem append_verifies:
  assumes "verify_chain es = (True, - 1, None)" and "recordable e"
    and "p = tip_of ev_event_hash None es"
  shows "\<exists>h. compute_event_hash e p = Inr h \<and>
    verify_chain (es @ [stamp e p h]) = (True, - 1, None) \<and>
    tip_of ev_event_hash None (es @ [stamp e p h]) = Some h"
  using assms recordable_hash [OF assms(2)] al.append_stamped
  by (auto simp: verify_chain_linked al.hash_of_stamp)

text \<open>A concrete event, for the witnesses.\<close>

definition sample_event :: event where
  "sample_event =
     \<lparr>ev_ts = ''t'', ev_session_id = ''s'', ev_agent_identity = ''a'', ev_invoking_user = None,
      ev_principal = ''a@s'', ev_type = type_engine_start,
      ev_payload = Some [(''version'', GStr ''1'')], ev_budget = None,
      ev_prev_hash = None, ev_event_hash = []\<rparr>"

lemma sample_recordable: "recordable sample_event"
  by (simp add: recordable_def sample_event_def map_json_def normalise_payload_def g_opt_map_def
      max_nesting_def)

theorem append_verifies_witness:
  "\<exists>h. verify_chain [stamp sample_event None h] = (True, - 1, None)"
  using append_verifies [of "[]" sample_event None] sample_recordable
  by (auto simp: verify_chain_def)

theorem tamper_evident_witness:
  "\<exists>e f. e \<noteq> f \<and> (hash_input e None = hash_input f None \<or>
    hash_input e None \<noteq> hash_input f None \<and>
    event_digest (hash_input e None) = event_digest (hash_input f None))"
proof -
  let ?s = "sample_event\<lparr>ev_budget := Some []\<rparr>"
  obtain h where h: "compute_event_hash sample_event None = Inr h"
    using recordable_hash [OF sample_recordable] by blast
  have "compute_event_hash ?s None = compute_event_hash sample_event None"
    by (simp add: compute_event_hash_def canonical_body_def sample_event_def normalise_payload_def)
  with h have v: "verify_chain [stamp sample_event None h] = (True, - 1, None)"
    "verify_chain [stamp ?s None h] = (True, - 1, None)"
    by (simp_all add: verify_chain_def al.hash_stamp al.hash_of_stamp)
  have "\<forall>e \<in> set ([stamp sample_event None h] @ [stamp ?s None h]). recordable e"
    using sample_recordable by (simp add: recordable_def stamp_def sample_event_def normalise_payload_def)
  moreover have "stamp sample_event None h \<noteq> stamp ?s None h"
    by (simp add: stamp_def sample_event_def)
  ultimately show ?thesis
    using tamper_evident [OF v] by (auto simp: al.hash_of_stamp)
qed

end
