(* ===== verification/Audit_Sink.thy ===== *)
theory Audit_Sink
  imports Audit_Chain
begin

text \<open>
  \<open>internal/audit/sink.go\<close>, \<open>sink_stdout.go\<close> and \<open>sink_file.go\<close>: the two sinks as state
  machines over the bytes they have written, with the outcomes of the write and of the fsync as
  inputs, and the recovery of the chain state from an existing file. The contract of a sink is
  the locale \<open>audit_sink\<close>; both sinks provide it.
\<close>

section \<open>The line of an event\<close>

text \<open>\<open>json.Marshal\<close> of the event struct: the fields in their order of declaration.\<close>

definition event_tree :: "event \<Rightarrow> json \<Rightarrow> json \<Rightarrow> json" where
  "event_tree e jp jb =
     JObj
       [(''ts'', JStr (ev_ts e)), (''session_id'', JStr (ev_session_id e)),
        (''agent_identity'', JStr (ev_agent_identity e)),
        (''invoking_user'', j_opt_str (ev_invoking_user e)),
        (''principal'', JStr (ev_principal e)), (''event'', JStr (ev_type e)),
        (''payload'', jp), (''budget'', jb), (''prev_hash'', j_opt_str (ev_prev_hash e)),
        (''event_hash'', JStr (ev_event_hash e))]"

definition event_line :: "event \<Rightarrow> (json_error, string) result" where
  "event_line e =
     rbind (map_json (ev_payload e)) (\<lambda>jp.
     rbind (map_json (ev_budget e)) (\<lambda>jb.
       Inr (encode True (event_tree e jp jb))))"

section \<open>The sinks\<close>

text \<open>How a write ended: complete, or failed after some bytes had reached the writer.\<close>

datatype write_outcome = WriteOk | WriteFail nat

datatype sink_error = HashError | SerialiseError | WriteError | SyncError | SinkClosed

fun write_bytes :: "write_outcome \<Rightarrow> string \<Rightarrow> string \<Rightarrow> string" where
  "write_bytes WriteOk b out = out @ b"
| "write_bytes (WriteFail n) b out = out @ take n b"

record stdout_sink =
  so_last :: "string option"
  so_out :: string

definition new_stdout_sink :: stdout_sink where
  "new_stdout_sink = \<lparr>so_last = None, so_out = []\<rparr>"

definition stdout_emit :: "write_outcome \<Rightarrow> event \<Rightarrow> stdout_sink \<Rightarrow> sink_error option \<times> stdout_sink" where
  "stdout_emit w e s =
     (case compute_event_hash (e\<lparr>ev_prev_hash := so_last s\<rparr>) (so_last s) of
        Inl _ \<Rightarrow> (Some HashError, s)
      | Inr h \<Rightarrow>
          (case event_line (e\<lparr>ev_prev_hash := so_last s, ev_event_hash := h\<rparr>) of
             Inl _ \<Rightarrow> (Some SerialiseError, s)
           | Inr line \<Rightarrow>
               (let s' = s\<lparr>so_out := write_bytes w (line @ [CHR 0x0A]) (so_out s)\<rparr> in
                if w \<noteq> WriteOk then (Some WriteError, s') else (None, s'\<lparr>so_last := Some h\<rparr>))))"

definition stdout_close :: "stdout_sink \<Rightarrow> sink_error option \<times> stdout_sink" where
  "stdout_close s = (None, s)"

text \<open>A file sink and the bytes of its file; the handle is nil after \<open>Close\<close>.\<close>

record file_sink =
  fs_last :: "string option"
  fs_open :: bool
  fs_data :: string

text \<open>The outcomes of one \<open>Emit\<close>: of the write, and whether the fsync succeeds.\<close>

record file_io =
  fio_write :: write_outcome
  fio_sync :: bool

definition file_emit :: "file_io \<Rightarrow> event \<Rightarrow> file_sink \<Rightarrow> sink_error option \<times> file_sink" where
  "file_emit io e s =
     (if \<not> fs_open s then (Some SinkClosed, s)
      else
        (case compute_event_hash (e\<lparr>ev_prev_hash := fs_last s\<rparr>) (fs_last s) of
           Inl _ \<Rightarrow> (Some HashError, s)
         | Inr h \<Rightarrow>
             (case event_line (e\<lparr>ev_prev_hash := fs_last s, ev_event_hash := h\<rparr>) of
                Inl _ \<Rightarrow> (Some SerialiseError, s)
              | Inr line \<Rightarrow>
                  (let s' = s\<lparr>fs_data := write_bytes (fio_write io) (line @ [CHR 0x0A]) (fs_data s)\<rparr> in
                   if fio_write io \<noteq> WriteOk then (Some WriteError, s')
                   else if \<not> fio_sync io then (Some SyncError, s')
                   else (None, s'\<lparr>fs_last := Some h\<rparr>)))))"

text \<open>\<open>Close\<close> is idempotent; the flag is whether closing the handle succeeds.\<close>

definition file_close :: "bool \<Rightarrow> file_sink \<Rightarrow> bool \<times> file_sink" where
  "file_close ok s = (if \<not> fs_open s then (True, s) else (ok, s\<lparr>fs_open := False\<rparr>))"

section \<open>Recovery\<close>

text \<open>The record into which a line is decoded, and its only field.\<close>

definition hash_field :: "string field list" where
  "hash_field = [(''event_hash'', um_string (\<lambda>s _. s))]"

definition max_line :: nat where
  "max_line = 16 * 1024 * 1024"

text \<open>
  \<open>bufio.Scanner\<close> with its default split function and a maximal buffer: the lines up to the
  first one that does not fit, each without a trailing carriage return, and whether one did not.
\<close>

definition drop_cr :: "string \<Rightarrow> string" where
  "drop_cr s = (if s \<noteq> [] \<and> last s = CHR 0x0D then butlast s else s)"

fun scan_pieces :: "nat \<Rightarrow> string list \<Rightarrow> string list \<times> bool" where
  "scan_pieces mx [] = ([], False)"
| "scan_pieces mx (l # ls) =
     (if ls = [] \<and> l = [] then ([], False)
      else if mx \<le> length l then ([], True)
      else apfst ((#) (drop_cr l)) (scan_pieces mx ls))"

definition scan_lines :: "nat \<Rightarrow> string \<Rightarrow> string list \<times> bool" where
  "scan_lines mx data = scan_pieces mx (split_on (CHR 0x0A) data)"

definition recover_line :: "string \<Rightarrow> string option \<Rightarrow> string option" where
  "recover_line raw last_hash =
     (if raw = [] then last_hash
      else
        (case unmarshal hash_field raw [] of
           (h, err) \<Rightarrow> if err then last_hash else if h \<noteq> [] then Some h else last_hash))"

text \<open>
  What the recovery finds at the path: no file, a file it cannot stat or open, the contents, or
  the contents up to a read error.
\<close>

datatype file_view = NoFile | StatFails | OpenFails | Contents string | ReadFails string

datatype recover_error = StatError | OpenError | ReadError | LineTooLong

definition recover_from :: "string \<Rightarrow> (recover_error, string option) result" where
  "recover_from data =
     (case scan_lines max_line data of
        (ls, too_long) \<Rightarrow> if too_long then Inl LineTooLong else Inr (fold recover_line ls None))"

definition read_last_event_hash :: "file_view \<Rightarrow> (recover_error, string option) result" where
  "read_last_event_hash v =
     (case v of
        NoFile \<Rightarrow> Inr None
      | StatFails \<Rightarrow> Inl StatError
      | OpenFails \<Rightarrow> Inl OpenError
      | Contents data \<Rightarrow> if data = [] then Inr None else recover_from data
      | ReadFails data \<Rightarrow> Inl ReadError)"

datatype open_error = MkdirFailed | RecoverFailed recover_error | OpenFailed

definition file_data :: "file_view \<Rightarrow> string" where
  "file_data v = (case v of Contents d \<Rightarrow> d | ReadFails d \<Rightarrow> d | _ \<Rightarrow> [])"

definition new_file_sink :: "bool \<Rightarrow> file_view \<Rightarrow> bool \<Rightarrow> (open_error, file_sink) result" where
  "new_file_sink mkdir_ok v open_ok =
     (if \<not> mkdir_ok then Inl MkdirFailed
      else
        (case read_last_event_hash v of
           Inl e \<Rightarrow> Inl (RecoverFailed e)
         | Inr last_hash \<Rightarrow>
             if \<not> open_ok then Inl OpenFailed
             else Inr \<lparr>fs_last = last_hash, fs_open = True, fs_data = file_data v\<rparr>))"

section \<open>The contract of a sink\<close>

text \<open>A run of \<open>Emit\<close> calls, with the answers.\<close>

fun emit_run :: "('io \<Rightarrow> event \<Rightarrow> 's \<Rightarrow> sink_error option \<times> 's) \<Rightarrow> ('io \<times> event) list \<Rightarrow> 's \<Rightarrow>
    sink_error option list \<times> 's" where
  "emit_run emit [] s = ([], s)"
| "emit_run emit ((io, e) # xs) s =
     (case emit io e s of (r, s') \<Rightarrow> (case emit_run emit xs s' of (rs, s'') \<Rightarrow> (r # rs, s'')))"

fun log_text :: "event list \<Rightarrow> string" where
  "log_text [] = []"
| "log_text (e # es) = (case event_line e of Inl _ \<Rightarrow> [] | Inr l \<Rightarrow> l @ [CHR 0x0A]) @ log_text es"

lemma log_text_append: "log_text (xs @ ys) = log_text xs @ log_text ys"
  by (induction xs) simp_all

text \<open>
  An \<open>Emit\<close> that reports no error has appended exactly the line of the event, stamped with the
  tip and the hash, and made that hash the tip; one that reports an error has left the tip alone.
  With working I/O a recordable event is emitted.
\<close>

locale audit_sink =
  fixes emit :: "'io \<Rightarrow> event \<Rightarrow> 's \<Rightarrow> sink_error option \<times> 's"
    and tip :: "'s \<Rightarrow> string option"
    and text_of :: "'s \<Rightarrow> string"
    and ready :: "'s \<Rightarrow> bool"
    and works :: "'io \<Rightarrow> bool"
  assumes emit_ok: "emit io e s = (None, s') \<Longrightarrow>
      \<exists>h l. compute_event_hash e (tip s) = Inr h \<and> event_line (stamp e (tip s) h) = Inr l \<and>
        text_of s' = text_of s @ l @ [CHR 0x0A] \<and> tip s' = Some h"
    and emit_err: "emit io e s = (Some r, s') \<Longrightarrow> tip s' = tip s"
    and emit_ready: "ready s \<Longrightarrow> ready (snd (emit io e s))"
    and emit_works: "ready s \<Longrightarrow> works io \<Longrightarrow> compute_event_hash e (tip s) = Inr h \<Longrightarrow>
      event_line (stamp e (tip s) h) = Inr l \<Longrightarrow> fst (emit io e s) = None"
begin

lemma run_linked:
  assumes "emit_run emit xs s = (rs, s')" and "\<forall>r \<in> set rs. r = None"
  shows "\<exists>es. list_all2 (\<lambda>x e. \<exists>p h. e = stamp (snd x) p h) xs es \<and> linked compute_event_hash ev_event_hash (tip s) es \<and>
    text_of s' = text_of s @ log_text es \<and> tip s' = tip_of ev_event_hash (tip s) es"
  using assms
proof (induction xs arbitrary: s rs)
  case Nil
  then show ?case by (intro exI [of _ "[]"]) simp
next
  case (Cons x xs)
  obtain io e where x: "x = (io, e)" by (cases x)
  from Cons.prems obtain s1 rs1 where st: "emit io e s = (None, s1)" "emit_run emit xs s1 = (rs1, s')"
    "\<forall>r \<in> set rs1. r = None"
    by (auto simp: x split: prod.splits)
  from emit_ok [OF st(1)] obtain h l where h: "compute_event_hash e (tip s) = Inr h"
    "event_line (stamp e (tip s) h) = Inr l" "text_of s1 = text_of s @ l @ [CHR 0x0A]" "tip s1 = Some h"
    by blast
  from Cons.IH [OF st(2,3)] obtain es where es: "list_all2 (\<lambda>x e. \<exists>p h. e = stamp (snd x) p h) xs es"
    "linked compute_event_hash ev_event_hash (Some h) es" "text_of s' = text_of s1 @ log_text es"
    "tip s' = tip_of ev_event_hash (Some h) es" by (auto simp: h(4))
  show ?case
    by (rule exI [of _ "stamp e (tip s) h # es"])
      (use es h in \<open>auto simp: x al.hash_stamp al.hash_of_stamp\<close>)
qed

lemma run_works:
  assumes "ready s" and "\<forall>(io, e) \<in> set xs. works io \<and>
    (\<forall>p. \<exists>h l. compute_event_hash e p = Inr h \<and> event_line (stamp e p h) = Inr l)"
  shows "\<forall>r \<in> set (fst (emit_run emit xs s)). r = None"
  using assms
proof (induction xs arbitrary: s)
  case (Cons x xs)
  obtain io e where x: "x = (io, e)" by (cases x)
  from Cons.prems(2) have w: "works io"
    and "\<exists>h l. compute_event_hash e (tip s) = Inr h \<and> event_line (stamp e (tip s) h) = Inr l"
    by (auto simp: x)
  then obtain h l where "compute_event_hash e (tip s) = Inr h"
    "event_line (stamp e (tip s) h) = Inr l" by blast
  with w have "fst (emit io e s) = None" using emit_works Cons.prems(1) by blast
  moreover have "\<forall>r \<in> set (fst (emit_run emit xs (snd (emit io e s)))). r = None"
    using Cons.prems emit_ready by (intro Cons.IH) auto
  ultimately show ?case by (auto simp: x split: prod.splits)
qed simp

end

lemma hash_ignores_prev [simp]: "compute_event_hash (e\<lparr>ev_prev_hash := q\<rparr>) p = compute_event_hash e p"
  using al.hash_stamp [of e q "ev_event_hash e" p] by (simp add: stamp_def)

interpretation so: audit_sink stdout_emit so_last so_out "\<lambda>s. True" "\<lambda>w. w = WriteOk"
proof
  fix w :: write_outcome and e s s' r h l
  show "stdout_emit w e s = (None, s') \<Longrightarrow>
      \<exists>h l. compute_event_hash e (so_last s) = Inr h \<and> event_line (stamp e (so_last s) h) = Inr l \<and>
        so_out s' = so_out s @ l @ [CHR 0x0A] \<and> so_last s' = Some h"
    by (auto simp: stdout_emit_def stamp_def Let_def split: sum.splits if_splits)
  show "stdout_emit w e s = (Some r, s') \<Longrightarrow> so_last s' = so_last s"
    by (auto simp: stdout_emit_def Let_def split: sum.splits if_splits)
  show "w = WriteOk \<Longrightarrow> compute_event_hash e (so_last s) = Inr h \<Longrightarrow>
      event_line (stamp e (so_last s) h) = Inr l \<Longrightarrow> fst (stdout_emit w e s) = None"
    by (simp add: stdout_emit_def stamp_def)
qed simp

interpretation fs: audit_sink file_emit fs_last fs_data fs_open "\<lambda>io. fio_write io = WriteOk \<and> fio_sync io"
proof
  fix io :: file_io and e s s' r h l
  show "file_emit io e s = (None, s') \<Longrightarrow>
      \<exists>h l. compute_event_hash e (fs_last s) = Inr h \<and> event_line (stamp e (fs_last s) h) = Inr l \<and>
        fs_data s' = fs_data s @ l @ [CHR 0x0A] \<and> fs_last s' = Some h"
    by (auto simp: file_emit_def stamp_def Let_def split: sum.splits if_splits)
  show "file_emit io e s = (Some r, s') \<Longrightarrow> fs_last s' = fs_last s"
    by (auto simp: file_emit_def Let_def split: sum.splits if_splits)
  show "fs_open s \<Longrightarrow> fs_open (snd (file_emit io e s))"
    by (simp add: file_emit_def Let_def split: sum.splits)
  show "fs_open s \<Longrightarrow> fio_write io = WriteOk \<and> fio_sync io \<Longrightarrow>
      compute_event_hash e (fs_last s) = Inr h \<Longrightarrow>
      event_line (stamp e (fs_last s) h) = Inr l \<Longrightarrow> fst (file_emit io e s) = None"
    by (simp add: file_emit_def stamp_def)
qed

section \<open>A log that stays verifiable\<close>

text \<open>
  What a sink has written since some point is the text of a linked log, and its tip is that
  log's. A sink whose failures with working I/O write nothing keeps this for ever.
\<close>

definition log_inv :: "('s \<Rightarrow> string option) \<Rightarrow> ('s \<Rightarrow> string) \<Rightarrow> string \<Rightarrow> string option \<Rightarrow> 's \<Rightarrow> bool" where
  "log_inv tip text_of d0 p0 s \<longleftrightarrow>
     (\<exists>es. linked compute_event_hash ev_event_hash p0 es \<and> text_of s = d0 @ log_text es \<and>
        tip s = tip_of ev_event_hash p0 es)"

locale verified_sink = audit_sink emit tip text_of ready works
  for emit :: "'io \<Rightarrow> event \<Rightarrow> 's \<Rightarrow> sink_error option \<times> 's"
    and tip text_of ready works +
  assumes emit_err_text: "works io \<Longrightarrow> emit io e s = (Some r, s') \<Longrightarrow> text_of s' = text_of s"
begin

lemma keeps_log:
  assumes "works io" and "log_inv tip text_of d0 p0 s"
  shows "log_inv tip text_of d0 p0 (snd (emit io e s))"
proof -
  obtain r s' where em: "emit io e s = (r, s')" by fastforce
  from assms(2) obtain es where es: "linked compute_event_hash ev_event_hash p0 es"
    "text_of s = d0 @ log_text es" "tip s = tip_of ev_event_hash p0 es" by (auto simp: log_inv_def)
  show ?thesis
  proof (cases r)
    case None
    with em emit_ok obtain h l where h: "compute_event_hash e (tip s) = Inr h"
      "event_line (stamp e (tip s) h) = Inr l" "text_of s' = text_of s @ l @ [CHR 0x0A]" "tip s' = Some h"
      by blast
    show ?thesis unfolding log_inv_def em snd_conv
      by (rule exI [of _ "es @ [stamp e (tip s) h]"])
        (use es h in \<open>simp add: linked_append log_text_append al.hash_stamp al.hash_of_stamp\<close>)
  next
    case (Some x)
    with em assms(1) es emit_err emit_err_text show ?thesis by (auto simp: log_inv_def)
  qed
qed

end

interpretation sov: verified_sink stdout_emit so_last so_out "\<lambda>s. True" "\<lambda>w. w = WriteOk"
  by unfold_locales (auto simp: stdout_emit_def Let_def split: sum.splits if_splits)

interpretation fsv: verified_sink file_emit fs_last fs_data fs_open
    "\<lambda>io. fio_write io = WriteOk \<and> fio_sync io"
  by unfold_locales (auto simp: file_emit_def Let_def split: sum.splits if_splits)

section \<open>Lines are single lines\<close>

definition no_lf :: "string \<Rightarrow> bool" where
  "no_lf s \<longleftrightarrow> CHR 0x0A \<notin> set s"

lemma no_lf_simps [simp]: "no_lf []" "no_lf (c # s) \<longleftrightarrow> c \<noteq> CHR 0x0A \<and> no_lf s"
  "no_lf (s @ t) \<longleftrightarrow> no_lf s \<and> no_lf t"
  by (auto simp: no_lf_def)

lemma encode_rune_high:
  assumes "128 \<le> r"
  shows "\<forall>c \<in> set (encode_rune r). 128 \<le> byte c"
proof -
  have v: "\<forall>c \<in> set (encode_valid_rune q). 128 \<le> byte c" if "128 \<le> q" "q \<le> 1114111" for q
  proof -
    have "q div 262144 < 5" "x mod 64 < 64" for x :: nat using that by simp_all
    moreover have "q < 2048 \<Longrightarrow> q div 64 < 32" "q < 65536 \<Longrightarrow> q div 4096 < 16" by simp_all
    ultimately show ?thesis using that by (auto simp: encode_valid_rune_def byte_chr)
  qed
  show ?thesis using assms v [of r] v [of rune_error]
    by (auto simp: encode_rune_def valid_rune_def rune_error_def)
qed

lemma esc_u_no_lf: "no_lf (esc_u r)"
proof -
  have "hex_char n \<noteq> CHR 0x0A" if "n < 16" for n
  proof -
    have "48 \<le> byte (hex_char n)" using that by (simp add: hex_char_def byte_chr)
    then show ?thesis by auto
  qed
  then show ?thesis by (simp add: esc_u_def)
qed

lemma esc_rune_no_lf:
  assumes "s \<noteq> []"
  shows "no_lf (esc_rune html s)"
proof (cases "byte (hd s) < 128")
  case True
  then show ?thesis
    using esc_u_no_lf
    by (auto simp: esc_rune_def esc_ascii_def json_safe_def Let_def split: prod.splits)
next
  case False
  obtain r n where rn: "decode_rune s = (r, n)" by fastforce
  show ?thesis
  proof (cases "r = rune_error \<and> n = 1 \<or> r = 8232 \<or> r = 8233")
    case True
    with False show ?thesis using esc_u_no_lf by (auto simp: esc_rune_def rn)
  next
    case raw: False
    then have t: "take n s = encode_rune r" using encode_decode_rune [OF assms] rn by auto
    have "0 < n" using decode_rune_size_pos [OF assms] by (simp add: rn)
    then have hd: "hd s \<in> set (take n s)" using assms by (cases s; cases n) auto
    have "128 \<le> r"
    proof (rule ccontr)
      assume "\<not> 128 \<le> r"
      then have "encode_rune r = [chr r]" "r < 128"
        by (simp_all add: encode_rune_def encode_valid_rune_def valid_rune_def)
      with hd t False show False by (simp add: byte_chr)
    qed
    then have "\<forall>c \<in> set (take n s). 128 \<le> byte c" unfolding t by (rule encode_rune_high)
    then have "no_lf (take n s)" by (force simp: no_lf_def)
    with False raw show ?thesis by (auto simp: esc_rune_def rn)
  qed
qed

lemma enc_chars_no_lf: "no_lf (enc_chars html s)"
proof (induction html s rule: enc_chars.induct)
  case (1 html s)
  then show ?case using esc_rune_no_lf by (subst enc_chars.simps) simp
qed

definition num_char :: "char \<Rightarrow> bool" where
  "num_char c \<longleftrightarrow> is_digit c \<or> c \<in> {CHR ''-'', CHR ''+'', CHR ''.'', CHR ''e'', CHR ''E''}"

lemma num_char_digit: "is_digit c \<Longrightarrow> num_char c" "num_char (CHR ''0'')"
  by (simp_all add: num_char_def is_digit_def)

lemma num_char_sign: "num_char (CHR ''-'')" "num_char (CHR ''+'')" "num_char (CHR ''.'')"
  "num_char (CHR ''e'')" "num_char (CHR ''E'')"
  by (simp_all add: num_char_def)

lemma num_char_not_lf: "num_char c \<Longrightarrow> c \<noteq> CHR 0x0A"
  by (auto simp: num_char_def is_digit_def)

definition all_num :: "string \<Rightarrow> bool" where
  "all_num s \<longleftrightarrow> (\<forall>c \<in> set s. num_char c)"

lemma all_num_simps [simp]: "all_num []" "all_num (c # s) \<longleftrightarrow> num_char c \<and> all_num s"
  by (simp_all add: all_num_def)

lemma drop_digits_chars: "all_num (dropWhile is_digit s) \<Longrightarrow> all_num s"
  by (induction s) (auto simp: num_char_digit split: if_splits)

lemma num_parts_chars:
  "num_int s = Some t \<Longrightarrow> all_num t \<Longrightarrow> all_num s"
  "num_frac s = Some t \<Longrightarrow> all_num t \<Longrightarrow> all_num s"
  "num_exp s = Some t \<Longrightarrow> all_num t \<Longrightarrow> all_num s"
proof -
  show "num_int s = Some t \<Longrightarrow> all_num t \<Longrightarrow> all_num s"
    by (cases s) (auto simp: num_int_def num_char_digit drop_digits_chars split: if_splits)
  show "num_frac s = Some t \<Longrightarrow> all_num t \<Longrightarrow> all_num s"
    by (cases s) (auto simp: num_frac_def num_char_sign drop_digits_chars split: if_splits)
  have sk: "all_num (skip_sign r) \<Longrightarrow> all_num r" for r
    by (cases r) (auto simp: skip_sign_def num_char_sign split: if_splits)
  show "all_num s" if e: "num_exp s = Some t" and t: "all_num t"
  proof (cases s)
    case (Cons c r)
    show ?thesis
    proof (cases "c \<in> {CHR ''e'', CHR ''E''}")
      case True
      with e have "t = dropWhile is_digit (skip_sign r)"
        unfolding Cons num_exp_def Let_def by (simp only: list.case if_True split: if_splits) simp_all
      with t have "all_num r" using drop_digits_chars sk by blast
      moreover have "num_char c" using True num_char_sign by blast
      ultimately show ?thesis by (simp add: Cons)
    next
      case False
      with e have "t = s" unfolding Cons num_exp_def by simp
      with t show ?thesis by simp
    qed
  qed simp
qed

lemma num_literal_no_lf:
  assumes "num_literal s"
  shows "no_lf s"
proof -
  define d where "d = (if s \<noteq> [] \<and> hd s = CHR ''-'' then tl s else s)"
  from assms obtain a b where p: "num_int d = Some a" "num_frac a = Some b" "num_exp b = Some []"
    unfolding num_literal_def num_rest_def d_def [symmetric] by (auto simp: bind_eq_Some_conv)
  have "all_num d"
    by (rule num_parts_chars(1) [OF p(1) num_parts_chars(2) [OF p(2) num_parts_chars(3) [OF p(3)]]]) simp
  then have "all_num s" unfolding d_def by (cases s) (auto simp: num_char_sign split: if_splits)
  then show ?thesis using num_char_not_lf by (auto simp: no_lf_def all_num_def)
qed

lemma join_no_lf: "c \<noteq> CHR 0x0A \<Longrightarrow> \<forall>s \<in> set ss. no_lf s \<Longrightarrow> no_lf (join_with c ss)"
  by (induction c ss rule: join_with.induct) auto

lemma encode_no_lf: "nums_ok v \<Longrightarrow> no_lf (encode html v)"
proof (induction v)
  case (JObj ms)
  have "no_lf (encode html v)" if "(k, v) \<in> set ms" for k v
    using JObj.IH [OF that, of v] JObj.prems that by auto
  then show ?case
    by (auto simp: enc_str_def enc_chars_no_lf intro!: join_no_lf)
next
  case (JArr vs)
  then show ?case by (auto intro!: join_no_lf)
qed (auto simp: num_literal_no_lf enc_str_def enc_chars_no_lf)

section \<open>Recovery reads back the tip\<close>

lemma recordable_line:
  assumes "recordable e"
  shows "\<exists>jp jb. event_line e = Inr (encode True (event_tree e jp jb)) \<and>
    nums_ok (event_tree e jp jb) \<and> jdepth (event_tree e jp jb) \<le> max_nesting"
proof -
  have m: "\<exists>j. map_json x = Inr j \<and> nums_ok j \<and> jdepth j < max_nesting"
    if "map_json (normalise_payload x) = Inr y" "jdepth y < max_nesting" for x y
  proof (cases x)
    case None
    then show ?thesis by (simp add: map_json_def g_opt_map_def max_nesting_def)
  next
    case (Some a)
    with that to_json_nums_ok show ?thesis by (auto simp: map_json_def normalise_payload_def)
  qed
  from assms obtain jp jb where "map_json (ev_payload e) = Inr jp" "map_json (ev_budget e) = Inr jb"
    "nums_ok jp" "jdepth jp < max_nesting" "nums_ok jb" "jdepth jb < max_nesting"
    unfolding recordable_def using m by metis
  moreover from this have "nums_ok (event_tree e jp jb)" "jdepth (event_tree e jp jb) \<le> max_nesting"
    by (auto simp: event_tree_def j_opt_str_def split: option.splits)
  ultimately show ?thesis by (auto simp: event_line_def)
qed

lemma recordable_stamp [simp]: "recordable (stamp e p h) \<longleftrightarrow> recordable e"
  by (simp add: recordable_def stamp_def)

lemma fold_name_ascii [simp]: "byte c < 128 \<Longrightarrow> fold_name (c # s) = fold_rune (byte c) # fold_name s"
  by (subst fold_name.simps) simp

lemma fold_name_Nil [simp]: "fold_name [] = []"
  by (simp add: fold_name.simps)

lemma hash_field_miss:
  "k \<noteq> ''event_hash'' \<Longrightarrow> fold_name ''event_hash'' \<noteq> fold_name k \<Longrightarrow> find_field hash_field k = None"
  by (simp add: hash_field_def decode_simps)

lemma hash_field_hit: "find_field hash_field ''event_hash'' = Some (''event_hash'', um_string (\<lambda>s _. s))"
  by (simp add: hash_field_def decode_simps)

lemma event_keys:
  "find_field hash_field ''ts'' = None" "find_field hash_field ''session_id'' = None"
  "find_field hash_field ''agent_identity'' = None" "find_field hash_field ''invoking_user'' = None"
  "find_field hash_field ''principal'' = None" "find_field hash_field ''event'' = None"
  "find_field hash_field ''payload'' = None" "find_field hash_field ''budget'' = None"
  "find_field hash_field ''prev_hash'' = None"
  by (rule hash_field_miss; simp add: fold_rune_def)+

lemma recover_event_line:
  assumes "recordable e" and "event_line e = Inr l" and "is_ascii (ev_event_hash e)"
  shows "unmarshal hash_field l [] = (ev_event_hash e, False)"
proof -
  from recordable_line [OF assms(1)] obtain jp jb where t: "l = encode True (event_tree e jp jb)"
    "nums_ok (event_tree e jp jb)" "jdepth (event_tree e jp jb) \<le> max_nesting"
    using assms(2) by auto
  have "unmarshal hash_field l [] = um_struct hash_field (coerce (event_tree e jp jb)) []"
    unfolding t(1) unmarshal_def parse_encode [OF t(2,3)] by simp
  also have "\<dots> = um_members hash_field
      (map (\<lambda>(k, v). (to_valid k, coerce v)) [(''event_hash'', JStr (ev_event_hash e))]) ([], False)"
    by (simp add: event_tree_def event_keys)
  also have "\<dots> = (ev_event_hash e, False)"
    by (simp add: hash_field_hit to_valid_ascii [OF assms(3)])
  finally show ?thesis .
qed

lemma event_line_no_lf: "recordable e \<Longrightarrow> event_line e = Inr l \<Longrightarrow> no_lf l \<and> l \<noteq> [] \<and> last l = CHR ''}''"
proof -
  assume "recordable e" and l: "event_line e = Inr l"
  with recordable_line [of e] obtain jp jb where
    t: "l = encode True (event_tree e jp jb)" "nums_ok (event_tree e jp jb)" by auto
  have "no_lf l" unfolding t(1) by (rule encode_no_lf [OF t(2)])
  moreover have "l \<noteq> [] \<and> last l = CHR ''}''" by (simp add: t(1) event_tree_def)
  ultimately show ?thesis by simp
qed

text \<open>A text of complete lines ends in a newline or is empty.\<close>

definition complete :: "string \<Rightarrow> bool" where
  "complete d \<longleftrightarrow> d = [] \<or> last d = CHR 0x0A"

definition short_lines :: "string \<Rightarrow> bool" where
  "short_lines d \<longleftrightarrow> (\<forall>l \<in> set (split_on (CHR 0x0A) d). length l < max_line)"

text \<open>The lines of a complete text, as the scanner hands them over.\<close>

definition full_lines :: "string \<Rightarrow> string list" where
  "full_lines d = map drop_cr (butlast (split_on (CHR 0x0A) d))"

lemma split_complete:
  assumes "complete d"
  shows "split_on (CHR 0x0A) (d @ t) = butlast (split_on (CHR 0x0A) d) @ split_on (CHR 0x0A) t"
  using assms
proof (induction d rule: length_induct)
  case (1 d)
  show ?case
  proof (cases "d = []")
    case False
    with 1(2) have "CHR 0x0A \<in> set d" by (metis complete_def last_in_set)
    then obtain l r where d: "d = l @ CHR 0x0A # r" "CHR 0x0A \<notin> set l" by (meson split_list_first)
    have "complete r" using 1(2) by (cases "r = []") (auto simp: d complete_def)
    then have "split_on (CHR 0x0A) (r @ t) = butlast (split_on (CHR 0x0A) r) @ split_on (CHR 0x0A) t"
      using 1(1) by (simp add: d)
    then show ?thesis using d(2) by (simp add: d(1) split_on_append)
  qed simp
qed

lemma scan_pieces_short:
  "\<forall>l \<in> set ls. length l < mx \<Longrightarrow> scan_pieces mx (ls @ [[]]) = (map drop_cr ls, False)"
  by (induction ls) auto

lemma last_split_complete: "complete d \<Longrightarrow> split_on (CHR 0x0A) d = butlast (split_on (CHR 0x0A) d) @ [[]]"
  using split_complete [of d "[]"] by simp

lemma scan_complete:
  assumes "complete d" and "short_lines d"
  shows "scan_lines max_line d = (full_lines d, False)"
proof -
  have "\<forall>l \<in> set (butlast (split_on (CHR 0x0A) d)). length l < max_line"
    using assms(2) by (auto simp: short_lines_def dest: in_set_butlastD)
  then show ?thesis
    unfolding scan_lines_def full_lines_def
    by (subst last_split_complete [OF assms(1)]) (rule scan_pieces_short)
qed

lemma full_lines_line:
  assumes "complete d" and "no_lf l"
  shows "full_lines (d @ l @ [CHR 0x0A]) = full_lines d @ [drop_cr l]" "complete (d @ l @ [CHR 0x0A])"
proof -
  have "split_on (CHR 0x0A) (l @ [CHR 0x0A]) = [l, []]"
    using assms(2) split_on_append [of "CHR 0x0A" l "[]"] by (simp add: no_lf_def)
  then show "full_lines (d @ l @ [CHR 0x0A]) = full_lines d @ [drop_cr l]"
    by (simp add: full_lines_def split_complete [OF assms(1)] butlast_append)
  show "complete (d @ l @ [CHR 0x0A])" by (simp add: complete_def)
qed

lemma recover_log:
  assumes "complete d" and "\<forall>e \<in> set es. recordable e \<and> (\<exists>b. ev_event_hash e = event_digest b)"
  shows "complete (d @ log_text es) \<and>
    fold recover_line (full_lines (d @ log_text es)) None =
      tip_of ev_event_hash (fold recover_line (full_lines d) None) es"
  using assms
proof (induction es arbitrary: d)
  case (Cons e es)
  obtain l where l: "event_line e = Inr l" using recordable_line Cons.prems(2) by fastforce
  obtain b where b: "ev_event_hash e = event_digest b" using Cons.prems(2) by auto
  have e: "recordable e" "is_ascii (ev_event_hash e)" "ev_event_hash e \<noteq> []"
    using Cons.prems(2) event_digest_ascii event_digest_not_Nil by (simp_all add: b)
  note nl = event_line_no_lf [OF e(1) l]
  let ?d = "d @ l @ [CHR 0x0A]"
  have c: "complete ?d" "full_lines ?d = full_lines d @ [l]"
    using full_lines_line [OF Cons.prems(1)] nl by (simp_all add: drop_cr_def)
  have "recover_line l p = Some (ev_event_hash e)" for p
    using recover_event_line [OF e(1) l e(2)] nl e(3) by (simp add: recover_line_def)
  then have "fold recover_line (full_lines ?d) None = Some (ev_event_hash e)" by (simp add: c(2))
  moreover have "d @ log_text (e # es) = ?d @ log_text es" by (simp add: l)
  ultimately show ?case
    using Cons.IH [OF c(1)] Cons.prems(2) by (simp only: tip_of.simps list.set_intros) auto
qed simp

lemma recover_short: "complete d \<Longrightarrow> short_lines d \<Longrightarrow>
    read_last_event_hash (Contents d) = Inr (fold recover_line (full_lines d) None)"
  by (simp add: read_last_event_hash_def recover_from_def scan_complete full_lines_def)

lemma linked_digests:
  "linked compute_event_hash ev_event_hash p es \<Longrightarrow> e \<in> set es \<Longrightarrow> \<exists>b. ev_event_hash e = event_digest b"
  by (induction es arbitrary: p) (auto dest: al.hash_digest)

section \<open>Properties\<close>

text \<open>
  C7. The log of a stdout sink verifies: whenever every \<open>Emit\<close> on a fresh sink has returned
  without error, the bytes written are the lines of a chain that \<open>VerifyChain\<close> accepts, one
  event per call and in the order of the calls, and the sink's state is its last hash.
\<close>

theorem stdout_log_verifies:
  assumes "emit_run stdout_emit xs new_stdout_sink = (rs, s)" and "\<forall>r \<in> set rs. r = None"
  shows "\<exists>es. list_all2 (\<lambda>x e. \<exists>p h. e = stamp (snd x) p h) xs es \<and>
    verify_chain es = (True, - 1, None) \<and>
    so_out s = log_text es \<and> so_last s = tip_of ev_event_hash None es"
  using so.run_linked [OF assms] by (simp add: new_stdout_sink_def verify_chain_linked)

text \<open>
  With a working writer nothing is lost: every \<open>Emit\<close> of recordable events on a stdout sink
  succeeds, and so does every one on an open file sink when its writes and fsyncs succeed.
\<close>

theorem sinks_accept_recordable:
  assumes "\<forall>e \<in> set es. recordable e" and "fs_open f"
  shows "(\<forall>r \<in> set (fst (emit_run stdout_emit (map (Pair WriteOk) es) s)). r = None) \<and>
    (\<forall>r \<in> set (fst (emit_run file_emit
       (map (Pair \<lparr>fio_write = WriteOk, fio_sync = True\<rparr>) es) f)). r = None)"
proof -
  have "\<exists>h l. compute_event_hash e p = Inr h \<and> event_line (stamp e p h) = Inr l" if "e \<in> set es" for e p
    using assms(1) that recordable_hash recordable_line recordable_stamp by meson
  then show ?thesis using assms(2) so.run_works [where s = s and xs = "map (Pair WriteOk) es"]
      fs.run_works [where s = f and xs = "map (Pair \<lparr>fio_write = WriteOk, fio_sync = True\<rparr>) es"] by auto
qed

text \<open>
  C8. The chain spans process lifetimes: open a file of complete lines, emit recordable events
  without error, and open the file again; the new sink continues from the hash at which the old
  one stopped (for lines below the scanner's limit of 16 MiB).
\<close>

theorem file_chain_resumes:
  assumes "new_file_sink True v True = Inr s" and "v = NoFile \<or> v = Contents d \<and> complete d"
    and "emit_run file_emit xs s = (rs, s')" and "\<forall>r \<in> set rs. r = None"
    and "\<forall>x \<in> set xs. recordable (snd x)" and "short_lines (fs_data s')"
  shows "\<exists>s''. new_file_sink True (Contents (fs_data s')) True = Inr s'' \<and>
    fs_last s'' = fs_last s' \<and> fs_data s'' = fs_data s' \<and> fs_open s''"
proof -
  define d0 where "d0 = file_data v"
  have d0: "complete d0" "file_data v = d0" "v = NoFile \<and> d0 = [] \<or> v = Contents d0"
    using assms(2) by (auto simp: d0_def file_data_def complete_def)
  from fs.run_linked [OF assms(3,4)] obtain es where
    es: "list_all2 (\<lambda>x e. \<exists>p h. e = stamp (snd x) p h) xs es"
    "linked compute_event_hash ev_event_hash (fs_last s) es"
    "fs_data s' = fs_data s @ log_text es" "fs_last s' = tip_of ev_event_hash (fs_last s) es" by blast
  have sd: "fs_data s = d0"
    using assms(1) d0(2) by (auto simp: new_file_sink_def split: sum.splits)
  have short: "short_lines d0"
    using assms(6) split_complete [OF d0(1), of "log_text es"] last_split_complete [OF d0(1)]
    unfolding short_lines_def es(3) sd
    by (metis (no_types, lifting) UnE UnI1 empty_iff empty_set length_greater_0_conv list.set(1)
        list.size(3) max_line_def mult_pos_pos set_ConsD set_append zero_less_numeral)
  have sl: "fs_last s = fold recover_line (full_lines d0) None"
    using assms(1) d0 recover_short [OF d0(1) short]
    by (auto simp: new_file_sink_def read_last_event_hash_def full_lines_def split: if_splits)
  have ok: "\<forall>e \<in> set es. recordable e \<and> (\<exists>b. ev_event_hash e = event_digest b)"
  proof
    fix e
    assume e: "e \<in> set es"
    then obtain i where "i < length es" "e = es ! i" by (auto simp: in_set_conv_nth)
    then have "\<exists>p h. e = stamp (snd (xs ! i)) p h" "xs ! i \<in> set xs"
      using es(1) by (auto simp: list_all2_conv_all_nth)
    then have "recordable e" using assms(5) by auto
    then show "recordable e \<and> (\<exists>b. ev_event_hash e = event_digest b)"
      using linked_digests [OF es(2) e] by simp
  qed
  from recover_log [OF d0(1) ok] have
    "read_last_event_hash (Contents (fs_data s')) = Inr (fs_last s')"
    using recover_short [of "fs_data s'"] assms(6) by (simp add: es(3,4) sd sl)
  then show ?thesis by (simp add: new_file_sink_def file_data_def)
qed

text \<open>
  A failed \<open>Emit\<close> does not advance the chain, whatever the reason of the failure; a failure
  before the write leaves the output untouched, and a closed file sink refuses every event.
\<close>

theorem failed_emit_keeps_tip:
  "(stdout_emit w e s = (Some r, s') \<longrightarrow>
      so_last s' = so_last s \<and> (r \<noteq> WriteError \<longrightarrow> s' = s)) \<and>
   (file_emit io e f = (Some r, f') \<longrightarrow>
      fs_last f' = fs_last f \<and> (r \<noteq> WriteError \<and> r \<noteq> SyncError \<longrightarrow> f' = f)) \<and>
   (file_emit io e (snd (file_close c f)) = (Some SinkClosed, snd (file_close c f)))"
  by (auto simp: stdout_emit_def file_emit_def file_close_def Let_def split: sum.splits if_splits)

text \<open>
  C35. A failed fsync forks the chain: the line is in the file, its hash is not the tip, and the
  next event is chained to the predecessor again. The two lines on disk do not verify, unless two
  different canonical bodies have the same digest.
\<close>

theorem fsync_failure_forks_chain:
  assumes "recordable e1" and "recordable e2"
    and "s0 = \<lparr>fs_last = None, fs_open = True, fs_data = []\<rparr>"
    and "emit_run file_emit
        [(\<lparr>fio_write = WriteOk, fio_sync = False\<rparr>, e1), (\<lparr>fio_write = WriteOk, fio_sync = True\<rparr>, e2)] s0
      = (rs, s)"
  shows "\<exists>f1 f2. fs_data s = log_text [f1, f2] \<and> rs = [Some SyncError, None] \<and>
    (fst (verify_chain [f1, f2]) = False \<or>
     (\<exists>x y. x = hash_input e2 None \<and> y = hash_input e2 (Some (ev_event_hash f1)) \<and> x \<noteq> y \<and>
        event_digest x = event_digest y))"
proof -
  let ?h1 = "event_digest (hash_input e1 None)" and ?h2 = "event_digest (hash_input e2 None)"
  let ?f1 = "stamp e1 None ?h1" and ?f2 = "stamp e2 None ?h2"
  note h = recordable_hash [OF assms(1), of None] recordable_hash [OF assms(2)]
  obtain l1 l2 where l: "event_line ?f1 = Inr l1" "event_line ?f2 = Inr l2"
    using recordable_line [of ?f1] recordable_line [of ?f2] assms(1,2) by auto
  have r: "fs_data s = log_text [?f1, ?f2]" "rs = [Some SyncError, None]"
    using assms(3,4) l by (auto simp: file_emit_def h Let_def stamp_def)
  have "hash_input e2 None \<noteq> hash_input e2 (Some ?h1)"
    using al.inp_prev [OF assms(2,2) h(2) h(2), of None "Some ?h1"] by auto
  moreover have "fst (verify_chain [?f1, ?f2]) = (?h2 = event_digest (hash_input e2 (Some ?h1)))"
    by (simp add: verify_chain_def al.hash_stamp al.hash_of_stamp h)
  ultimately show ?thesis using r by (metis al.hash_of_stamp)
qed


section \<open>Witnesses\<close>

lemma enc_chars_safe:
  "\<forall>c \<in> set s. byte c < 128 \<and> json_safe html (byte c) \<Longrightarrow> enc_chars html s = s"
proof (induction s)
  case (Cons c s)
  then show ?case by (subst enc_chars.simps) (simp add: esc_rune_def esc_ascii_def)
qed (simp add: enc_chars.simps)

lemma enc_chars_digest: "enc_chars html (event_digest b) = event_digest b"
  using hex_digest [of b]
  by (intro enc_chars_safe) (fastforce simp: event_digest_def is_hex_digest_def json_safe_def)

lemma digest_length: "length (event_digest b) = 64"
  using hex_digest [of b] by (simp add: event_digest_def is_hex_digest_def)

lemma sample_line: "\<exists>l. event_line (stamp sample_event None (event_digest b)) = Inr l \<and> length l < max_line"
  by (simp add: event_line_def sample_event_def stamp_def map_json_def g_opt_map_def event_tree_def
      enc_str_def enc_chars_digest enc_chars_safe json_safe_def j_opt_str_def digest_length
      type_engine_start_def max_line_def)

abbreviation good_io :: file_io where
  "good_io \<equiv> \<lparr>fio_write = WriteOk, fio_sync = True\<rparr>"

theorem stdout_log_verifies_witness:
  "\<exists>es s. emit_run stdout_emit [(WriteOk, sample_event), (WriteOk, sample_event)] new_stdout_sink
      = ([None, None], s) \<and> so_out s = log_text es \<and> verify_chain es = (True, - 1, None)"
proof -
  obtain rs s where r: "emit_run stdout_emit [(WriteOk, sample_event), (WriteOk, sample_event)]
      new_stdout_sink = (rs, s)" by fastforce
  obtain e1 l1 e2 l2 where "event_line (stamp sample_event None (event_digest (hash_input sample_event None))) = Inr l1"
    "event_line (stamp sample_event (Some (event_digest (hash_input sample_event None)))
      (event_digest (hash_input sample_event (Some (event_digest (hash_input sample_event None)))))) = Inr l2"
    using recordable_line sample_recordable recordable_stamp by meson
  then have "rs = [None, None]"
    using r recordable_hash [OF sample_recordable]
    by (auto simp: new_stdout_sink_def stdout_emit_def Let_def stamp_def)
  then show ?thesis using stdout_log_verifies [OF r] r by auto
qed

theorem sinks_accept_recordable_witness:
  "fst (emit_run stdout_emit [(WriteOk, sample_event)] new_stdout_sink) = [None] \<and>
   fst (emit_run file_emit [(good_io, sample_event)] \<lparr>fs_last = None, fs_open = True, fs_data = []\<rparr>) = [None]"
  using sinks_accept_recordable [of "[sample_event]" "\<lparr>fs_last = None, fs_open = True, fs_data = []\<rparr>" new_stdout_sink]
    sample_recordable
  by (auto split: prod.splits)

theorem file_chain_resumes_witness:
  "\<exists>s s' s''. new_file_sink True NoFile True = Inr s \<and>
     emit_run file_emit [(good_io, sample_event)] s = ([None], s') \<and>
     new_file_sink True (Contents (fs_data s')) True = Inr s'' \<and> fs_last s'' = fs_last s'"
proof -
  let ?h = "event_digest (hash_input sample_event None)"
  let ?s = "\<lparr>fs_last = None, fs_open = True, fs_data = []\<rparr>"
  obtain l where l: "event_line (stamp sample_event None ?h) = Inr l" "length l < max_line"
    using sample_line by blast
  let ?s' = "\<lparr>fs_last = Some ?h, fs_open = True, fs_data = l @ [CHR 0x0A]\<rparr>"
  have n: "new_file_sink True NoFile True = Inr ?s"
    by (simp add: new_file_sink_def read_last_event_hash_def file_data_def)
  have r: "emit_run file_emit [(good_io, sample_event)] ?s = ([None], ?s')"
    using l(1) recordable_hash [OF sample_recordable, of None]
    by (simp add: file_emit_def Let_def stamp_def)
  have "no_lf l" using event_line_no_lf [OF _ l(1)] sample_recordable by simp
  then have "split_on (CHR 0x0A) (l @ [CHR 0x0A]) = [l, []]"
    using split_on_append [of "CHR 0x0A" l "[]"] by (simp add: no_lf_def)
  then have sh: "short_lines (fs_data ?s')" using l(2) by (auto simp: short_lines_def max_line_def)
  show ?thesis
    using file_chain_resumes [OF n _ r _ _ sh] sample_recordable n r by auto
qed

theorem failed_emit_keeps_tip_witness:
  "\<exists>s'. stdout_emit (WriteFail 3) sample_event new_stdout_sink = (Some WriteError, s') \<and> so_last s' = None"
proof -
  obtain l where "event_line (stamp sample_event None (event_digest (hash_input sample_event None))) = Inr l"
    using recordable_line sample_recordable recordable_stamp by meson
  then have "\<exists>s'. stdout_emit (WriteFail 3) sample_event new_stdout_sink = (Some WriteError, s')"
    using recordable_hash [OF sample_recordable, of None]
    by (simp add: stdout_emit_def new_stdout_sink_def Let_def stamp_def)
  then show ?thesis using failed_emit_keeps_tip by (auto simp: new_stdout_sink_def)
qed

theorem fsync_failure_forks_chain_witness:
  "\<exists>rs s. emit_run file_emit [(\<lparr>fio_write = WriteOk, fio_sync = False\<rparr>, sample_event), (good_io, sample_event)]
     \<lparr>fs_last = None, fs_open = True, fs_data = []\<rparr> = (rs, s) \<and> rs = [Some SyncError, None]"
proof -
  obtain rs s where "emit_run file_emit
      [(\<lparr>fio_write = WriteOk, fio_sync = False\<rparr>, sample_event), (good_io, sample_event)]
     \<lparr>fs_last = None, fs_open = True, fs_data = []\<rparr> = (rs, s)" by fastforce
  then show ?thesis
    using fsync_failure_forks_chain [OF sample_recordable sample_recordable refl] by blast
qed


end
