(* ===== verification/Go_Net.thy ===== *)
theory Go_Net
  imports Go_Text
begin

text \<open>
  The parts of \<open>net/url\<close>, \<open>net\<close> and \<open>net/http\<close> the proxy decides with: the host of a URL,
  the splitting of an address into host and port, and header lookup.
\<close>

section \<open>URLs\<close>

record url =
  u_scheme :: string
  u_host :: string
  u_path :: string

definition valid_optional_port :: "string \<Rightarrow> bool" where
  "valid_optional_port p \<longleftrightarrow>
     (case p of [] \<Rightarrow> True | c # ds \<Rightarrow> c = CHR '':'' \<and> (\<forall>d \<in> set ds. is_digit d))"

text \<open>\<open>(*URL).Hostname\<close>.\<close>

definition url_hostname :: "url \<Rightarrow> string" where
  "url_hostname u =
     (let h0 = u_host u;
          h = (case last_index h0 (CHR '':'') of
                 None \<Rightarrow> h0
               | Some i \<Rightarrow> if valid_optional_port (drop i h0) then take i h0 else h0) in
      if has_prefix h ''['' \<and> has_suffix h '']'' then butlast (tl h) else h)"

section \<open>Addresses\<close>

text \<open>\<open>net.SplitHostPort\<close>, with which \<open>net.Dial\<close> reads its target.\<close>

datatype addr_error = MissingPort | TooManyColons | UnexpectedLeft | UnexpectedRight | MissingBracket

definition first_index :: "string \<Rightarrow> char \<Rightarrow> nat option" where
  "first_index s c = (if c \<in> set s then Some (length (takeWhile (\<lambda>d. d \<noteq> c) s)) else None)"

definition split_host_port :: "string \<Rightarrow> (addr_error, string \<times> string) result" where
  "split_host_port s =
     (case last_index s (CHR '':'') of
        None \<Rightarrow> Inl MissingPort
      | Some i \<Rightarrow>
          if has_prefix s ''['' then
            (case first_index s (CHR '']'') of
               None \<Rightarrow> Inl MissingBracket
             | Some e \<Rightarrow>
                 if e + 1 = length s then Inl MissingPort
                 else if e + 1 \<noteq> i then
                   (if s ! (e + 1) = CHR '':'' then Inl TooManyColons else Inl MissingPort)
                 else if CHR ''['' \<in> set (drop 1 s) then Inl UnexpectedLeft
                 else if CHR '']'' \<in> set (drop (e + 1) s) then Inl UnexpectedRight
                 else Inr (drop 1 (take e s), drop (i + 1) s))
          else if CHR '':'' \<in> set (take i s) then Inl TooManyColons
          else if CHR ''['' \<in> set s then Inl UnexpectedLeft
          else if CHR '']'' \<in> set s then Inl UnexpectedRight
          else Inr (take i s, drop (i + 1) s))"

section \<open>Headers\<close>

type_synonym header = "(string \<times> string list) list"

definition header_get :: "header \<Rightarrow> string \<Rightarrow> string" where
  "header_get h k = (case map_of h k of Some (v # _) \<Rightarrow> v | _ \<Rightarrow> [])"

definition header_del :: "header \<Rightarrow> string \<Rightarrow> header" where
  "header_del h k = filter (\<lambda>kv. fst kv \<noteq> k) h"

lemma map_of_header_del: "map_of (header_del h k) k' = (if k' = k then None else map_of h k')"
  by (induction h) (auto simp: header_del_def)

end
