(* ===== verification/Llm_Parse.thy ===== *)
theory Llm_Parse
  imports Json_Values Go_Net
begin

text \<open>
  \<open>internal/llmparse/parse.go\<close>: which request URLs are calls of a language model, and the token
  usage in their responses, provider by provider.
\<close>

section \<open>Recognising requests\<close>

record usage =
  us_model :: string
  us_in :: int64
  us_out :: int64
  us_recognised :: bool

definition no_usage :: usage where
  "no_usage = \<lparr>us_model = [], us_in = 0, us_out = 0, us_recognised = False\<rparr>"

definition is_bedrock_runtime_host :: "string \<Rightarrow> bool" where
  "is_bedrock_runtime_host host \<longleftrightarrow>
     has_prefix host ''bedrock-runtime.'' \<and> has_suffix host ''.amazonaws.com''"

definition is_bedrock_invoke_path :: "string \<Rightarrow> bool" where
  "is_bedrock_invoke_path path \<longleftrightarrow>
     (if \<not> has_prefix path ''/model/'' then False
      else has_suffix path ''/invoke'' \<or> has_suffix path ''/invoke-with-response-stream''
           \<or> has_suffix path ''/converse'' \<or> has_suffix path ''/converse-stream'')"

definition is_vertex_host :: "string \<Rightarrow> bool" where
  "is_vertex_host host \<longleftrightarrow>
     has_suffix host ''-aiplatform.googleapis.com'' \<or> host = ''aiplatform.googleapis.com''
     \<or> host = ''generativelanguage.googleapis.com''"

definition is_vertex_path :: "string \<Rightarrow> bool" where
  "is_vertex_path path \<longleftrightarrow>
     contains_str path '':generateContent'' \<or> contains_str path '':streamGenerateContent''
     \<or> contains_str path '':predict''"

definition llm_path :: "url \<Rightarrow> string" where
  "llm_path u = trim_right_byte (CHR ''/'') (u_path u)"

definition recognise :: "url \<Rightarrow> bool" where
  "recognise u =
     (let host = url_hostname u; path = llm_path u in
      if has_suffix path ''/v1/chat/completions'' \<or> has_suffix path ''/v1/responses'' then True
      else if has_suffix path ''/v1/messages'' then True
      else if is_bedrock_runtime_host host \<and> is_bedrock_invoke_path path then True
      else if is_vertex_host host \<and> is_vertex_path path then True
      else if has_suffix path ''/api/generate'' \<or> has_suffix path ''/api/chat'' then True
      else False)"

section \<open>The response shapes\<close>

record openai_usage =
  ou_prompt :: int64
  ou_completion :: int64

record openai_chat_resp =
  oc_model :: string
  oc_usage :: openai_usage

definition openai_chat_fields :: "openai_chat_resp field list" where
  "openai_chat_fields =
     [(''model'', um_string (\<lambda>s r. r\<lparr>oc_model := s\<rparr>)),
      (''usage'', um_nested oc_usage (\<lambda>u r. r\<lparr>oc_usage := u\<rparr>)
         [(''prompt_tokens'', um_int (\<lambda>n u. u\<lparr>ou_prompt := n\<rparr>)),
          (''completion_tokens'', um_int (\<lambda>n u. u\<lparr>ou_completion := n\<rparr>))])]"

definition failed_usage :: usage where
  "failed_usage = no_usage\<lparr>us_recognised := True\<rparr>"

definition parse_openai_chat :: "string \<Rightarrow> usage" where
  "parse_openai_chat body =
     (case unmarshal openai_chat_fields body
             \<lparr>oc_model = [], oc_usage = \<lparr>ou_prompt = 0, ou_completion = 0\<rparr>\<rparr> of
        (r, err) \<Rightarrow>
          if err then failed_usage
          else \<lparr>us_model = oc_model r, us_in = ou_prompt (oc_usage r),
                us_out = ou_completion (oc_usage r), us_recognised = True\<rparr>)"

record io_usage =
  io_input :: int64
  io_output :: int64

record openai_responses_resp =
  or_model :: string
  or_usage :: io_usage

definition openai_responses_fields :: "openai_responses_resp field list" where
  "openai_responses_fields =
     [(''model'', um_string (\<lambda>s r. r\<lparr>or_model := s\<rparr>)),
      (''usage'', um_nested or_usage (\<lambda>u r. r\<lparr>or_usage := u\<rparr>)
         [(''input_tokens'', um_int (\<lambda>n u. u\<lparr>io_input := n\<rparr>)),
          (''output_tokens'', um_int (\<lambda>n u. u\<lparr>io_output := n\<rparr>))])]"

definition parse_openai_responses :: "string \<Rightarrow> usage" where
  "parse_openai_responses body =
     (case unmarshal openai_responses_fields body
             \<lparr>or_model = [], or_usage = \<lparr>io_input = 0, io_output = 0\<rparr>\<rparr> of
        (r, err) \<Rightarrow>
          if err then failed_usage
          else \<lparr>us_model = or_model r, us_in = io_input (or_usage r),
                us_out = io_output (or_usage r), us_recognised = True\<rparr>)"

record ollama_resp =
  ol_model :: string
  ol_prompt_eval :: int64
  ol_eval :: int64

definition ollama_fields :: "ollama_resp field list" where
  "ollama_fields =
     [(''model'', um_string (\<lambda>s r. r\<lparr>ol_model := s\<rparr>)),
      (''prompt_eval_count'', um_int (\<lambda>n r. r\<lparr>ol_prompt_eval := n\<rparr>)),
      (''eval_count'', um_int (\<lambda>n r. r\<lparr>ol_eval := n\<rparr>))]"

definition parse_ollama :: "string \<Rightarrow> usage" where
  "parse_ollama body =
     (case unmarshal ollama_fields body \<lparr>ol_model = [], ol_prompt_eval = 0, ol_eval = 0\<rparr> of
        (r, err) \<Rightarrow>
          if err then failed_usage
          else \<lparr>us_model = ol_model r, us_in = ol_prompt_eval r, us_out = ol_eval r,
                us_recognised = True\<rparr>)"

record anthropic_usage =
  au_input :: int64
  au_output :: int64
  au_cache_creation :: int64
  au_cache_read :: int64

record anthropic_resp =
  an_model :: string
  an_usage :: anthropic_usage

definition anthropic_fields :: "anthropic_resp field list" where
  "anthropic_fields =
     [(''model'', um_string (\<lambda>s r. r\<lparr>an_model := s\<rparr>)),
      (''usage'', um_nested an_usage (\<lambda>u r. r\<lparr>an_usage := u\<rparr>)
         [(''input_tokens'', um_int (\<lambda>n u. u\<lparr>au_input := n\<rparr>)),
          (''output_tokens'', um_int (\<lambda>n u. u\<lparr>au_output := n\<rparr>)),
          (''cache_creation_input_tokens'', um_int (\<lambda>n u. u\<lparr>au_cache_creation := n\<rparr>)),
          (''cache_read_input_tokens'', um_int (\<lambda>n u. u\<lparr>au_cache_read := n\<rparr>))])]"

definition parse_anthropic :: "string \<Rightarrow> usage" where
  "parse_anthropic body =
     (case unmarshal anthropic_fields body
             \<lparr>an_model = [], an_usage = \<lparr>au_input = 0, au_output = 0, au_cache_creation = 0,
              au_cache_read = 0\<rparr>\<rparr> of
        (r, err) \<Rightarrow>
          if err then failed_usage
          else \<lparr>us_model = an_model r, us_in = au_input (an_usage r),
                us_out = au_output (an_usage r), us_recognised = True\<rparr>)"

definition bedrock_suffixes :: "string list" where
  "bedrock_suffixes =
     [''/invoke-with-response-stream'', ''/invoke'', ''/converse-stream'', ''/converse'']"

fun cut_first_suffix :: "string list \<Rightarrow> string \<Rightarrow> string" where
  "cut_first_suffix [] rest = rest"
| "cut_first_suffix (x # xs) rest =
     (if has_suffix rest x then trim_suffix rest x else cut_first_suffix xs rest)"

definition model_id_from_bedrock_path :: "string \<Rightarrow> string" where
  "model_id_from_bedrock_path path =
     (if \<not> has_prefix path ''/model/'' then []
      else cut_first_suffix bedrock_suffixes (drop (length ''/model/'') path))"

definition parse_bedrock :: "header \<Rightarrow> string \<Rightarrow> usage" where
  "parse_bedrock headers path =
     \<lparr>us_model = model_id_from_bedrock_path path,
      us_in = atoi_value (header_get headers ''X-Amzn-Bedrock-Input-Token-Count''),
      us_out = atoi_value (header_get headers ''X-Amzn-Bedrock-Output-Token-Count''),
      us_recognised = True\<rparr>"

record vertex_usage =
  vu_prompt :: int64
  vu_candidates :: int64
  vu_total :: int64

record vertex_resp =
  vx_usage :: vertex_usage
  vx_model :: string

definition vertex_fields :: "vertex_resp field list" where
  "vertex_fields =
     [(''usageMetadata'', um_nested vx_usage (\<lambda>u r. r\<lparr>vx_usage := u\<rparr>)
         [(''promptTokenCount'', um_int (\<lambda>n u. u\<lparr>vu_prompt := n\<rparr>)),
          (''candidatesTokenCount'', um_int (\<lambda>n u. u\<lparr>vu_candidates := n\<rparr>)),
          (''totalTokenCount'', um_int (\<lambda>n u. u\<lparr>vu_total := n\<rparr>))]),
      (''modelVersion'', um_string (\<lambda>s r. r\<lparr>vx_model := s\<rparr>))]"

definition parse_vertex :: "string \<Rightarrow> usage" where
  "parse_vertex body =
     (case unmarshal vertex_fields body
             \<lparr>vx_usage = \<lparr>vu_prompt = 0, vu_candidates = 0, vu_total = 0\<rparr>, vx_model = []\<rparr> of
        (r, err) \<Rightarrow>
          if err then failed_usage
          else \<lparr>us_model = vx_model r, us_in = vu_prompt (vx_usage r),
                us_out = vu_candidates (vx_usage r), us_recognised = True\<rparr>)"

section \<open>ParseResponse\<close>

definition parse_response :: "url \<Rightarrow> string \<Rightarrow> header \<Rightarrow> usage" where
  "parse_response u body headers =
     (if \<not> recognise u then no_usage
      else
        (let host = url_hostname u; path = llm_path u in
         if has_suffix path ''/v1/chat/completions'' then parse_openai_chat body
         else if has_suffix path ''/v1/responses'' then parse_openai_responses body
         else if has_suffix path ''/v1/messages'' then parse_anthropic body
         else if is_bedrock_runtime_host host \<and> is_bedrock_invoke_path path
         then parse_bedrock headers path
         else if is_vertex_host host \<and> is_vertex_path path then parse_vertex body
         else if has_suffix path ''/api/generate'' \<or> has_suffix path ''/api/chat''
         then parse_ollama body
         else no_usage))"

section \<open>Lemmas\<close>

lemma um_members_append: "um_members fs (ms @ ns) acc = um_members fs ns (um_members fs ms acc)"
  by (induction fs ms acc rule: um_members.induct) simp_all

definition ignored :: "'r field list \<Rightarrow> (string \<times> json) list \<Rightarrow> bool" where
  "ignored fs ms \<longleftrightarrow> (\<forall>(k, v) \<in> set ms. find_field fs (to_valid k) = None)"

lemma um_members_ignored:
  "ignored fs ms \<Longrightarrow> um_members fs (map (\<lambda>(k, v). (to_valid k, coerce v)) ms) acc = acc"
proof (induction ms arbitrary: acc)
  case (Cons m ms)
  then have "ignored fs ms" by (simp add: ignored_def)
  moreover have "find_field fs (to_valid (fst m)) = None" using Cons.prems by (auto simp: ignored_def)
  ultimately show ?case using Cons.IH by (cases m; cases acc) simp
qed simp

text \<open>An object with the two members of interest among ignored ones.\<close>

lemma um_two_members:
  assumes "ignored fs pre" and "ignored fs post"
    and "find_field fs (to_valid k1) = Some (k1, f1)" and "find_field fs (to_valid k2) = Some (k2, f2)"
    and "f1 (coerce v1) r = (r1, False)" and "f2 (coerce v2) r1 = (r2, False)"
  shows "um_struct fs (coerce (JObj (pre @ [(k1, v1), (k2, v2)] @ post))) r = (r2, False)"
  using assms by (simp add: um_members_append um_members_ignored)

lemma um_int_show:
  "int64_min \<le> n \<Longrightarrow> n \<le> int64_max \<Longrightarrow> um_int f (JNum (show_int n)) r = (f (of_int n) r, False)"
  by (simp add: parse_int64_show)

lemma find_field_exact:
  "find_field ((k, f) # fs) k = Some (k, f)"
  "k' \<noteq> k \<Longrightarrow> find_field [(k', f'), (k, f)] k = Some (k, f)"
  "k' \<noteq> k \<Longrightarrow> find_field ((k', f') # (k, f) # fs) k = Some (k, f)"
  by (simp_all add: decode_simps)

lemma unmarshal_encode:
  assumes "nums_ok v" and "jdepth v \<le> max_nesting"
  shows "unmarshal fs (encode html v) r = um_struct fs (coerce v) r"
  using parse_encode [OF assms, of html] by (simp add: unmarshal_def)

section \<open>Properties\<close>

text \<open>
  The parser answers exactly for the requests the proxy pre-recognises: the usage is marked as
  recognised if and only if the URL is, so the final case of \<open>ParseResponse\<close> is never reached.
\<close>

theorem parse_response_recognised:
  "us_recognised (parse_response u body headers) = recognise u"
  by (auto simp: parse_response_def recognise_def Let_def no_usage_def failed_usage_def
      parse_openai_chat_def parse_openai_responses_def parse_anthropic_def parse_bedrock_def
      parse_vertex_def parse_ollama_def split_beta)

text \<open>
  The token counts of a chat completion are the ones in the body: for any JSON object with a
  model, and a usage object with two counts in the int64 range, among any other members that do
  not fold to the names of these fields, and whatever the order of the extra members.
\<close>

theorem openai_chat_usage:
  assumes "ignored openai_chat_fields (pre @ post)"
    and "v = JObj (pre @ [(''model'', JStr m),
        (''usage'', JObj [(''prompt_tokens'', JNum (show_int a)), (''completion_tokens'', JNum (show_int b))])]
        @ post)"
    and "nums_ok v" and "jdepth v \<le> max_nesting"
    and "int64_min \<le> a" "a \<le> int64_max" "int64_min \<le> b" "b \<le> int64_max"
  shows "parse_openai_chat (encode html v) =
    \<lparr>us_model = to_valid m, us_in = of_int a, us_out = of_int b, us_recognised = True\<rparr>"
proof -
  let ?r = "\<lparr>oc_model = [], oc_usage = \<lparr>ou_prompt = 0, ou_completion = 0\<rparr>\<rparr>"
  let ?r1 = "?r\<lparr>oc_model := to_valid m\<rparr>"
  let ?r2 = "?r1\<lparr>oc_usage := \<lparr>ou_prompt = of_int a, ou_completion = of_int b\<rparr>\<rparr>"
  have ig: "ignored openai_chat_fields pre" "ignored openai_chat_fields post"
    using assms(1) by (auto simp: ignored_def)
  let ?us = "[(''prompt_tokens'', um_int (\<lambda>n u. u\<lparr>ou_prompt := n\<rparr>)),
    (''completion_tokens'', um_int (\<lambda>n u. u\<lparr>ou_completion := n\<rparr>))]"
  have f: "find_field openai_chat_fields (to_valid ''model'') = Some (''model'', um_string (\<lambda>s r. r\<lparr>oc_model := s\<rparr>))"
    "find_field openai_chat_fields (to_valid ''usage'') =
      Some (''usage'', um_nested oc_usage (\<lambda>u r. r\<lparr>oc_usage := u\<rparr>) ?us)"
    by (simp_all add: openai_chat_fields_def find_field_exact)
  have "um_struct openai_chat_fields (coerce v) ?r = (?r2, False)"
    unfolding assms(2)
    by (rule um_two_members [OF ig f, where ?r1.0 = ?r1])
      (simp_all add: find_field_exact um_nested_def um_int_show assms(5-8) del: um_int.simps)
  then show ?thesis by (simp add: parse_openai_chat_def unmarshal_encode [OF assms(3,4)])
qed

theorem openai_chat_usage_witness:
  "us_out (parse_openai_chat (encode False
     (JObj [(''id'', JStr ''x''), (''model'', JStr ''gpt''),
        (''usage'', JObj [(''prompt_tokens'', JNum (show_int 12)), (''completion_tokens'', JNum (show_int 7))])]))) = 7"
proof -
  have "fold_name ''id'' \<noteq> fold_name ''model''" "fold_name ''id'' \<noteq> fold_name ''usage''"
    by (simp_all add: fold_name.simps [of "_ # _"] fold_rune_def)
  then have "ignored openai_chat_fields ([(''id'', JStr ''x'')] @ [])"
    by (simp add: ignored_def openai_chat_fields_def decode_simps)
  from openai_chat_usage [OF this, of _ "''gpt''" 12 7 False] show ?thesis
    by (simp add: num_literal_show_int int64_min_def int64_max_def max_nesting_def)
qed

definition json_object :: "json \<Rightarrow> bool" where
  "json_object v \<longleftrightarrow> (case v of JObj _ \<Rightarrow> True | JNull \<Rightarrow> True | _ \<Rightarrow> False)"

lemma unmarshal_not_object:
  "parse_json body = None \<or> (\<exists>v. parse_json body = Some v \<and> \<not> json_object v) \<Longrightarrow>
   unmarshal fs body r = (r, True)"
proof (elim disjE exE conjE)
  fix v
  assume "parse_json body = Some v" "\<not> json_object v"
  then show ?thesis by (cases v) (simp_all add: unmarshal_def json_object_def)
qed (simp add: unmarshal_def)

text \<open>
  What is not a JSON object counts nothing: for the providers that report usage in the body, a
  body that does not parse, or is an array, a string, a number or a boolean, adds no tokens,
  although the request is recognised. The event streams and the chunk arrays of the streaming
  variants are of this kind.
\<close>

theorem non_object_counts_nothing:
  assumes "parse_json body = None \<or> (\<exists>v. parse_json body = Some v \<and> \<not> json_object v)"
    and "recognise u" and "\<not> is_bedrock_runtime_host (url_hostname u)"
  shows "parse_response u body headers = failed_usage \<and> us_in failed_usage = 0 \<and> us_out failed_usage = 0"
proof -
  note un = unmarshal_not_object [OF assms(1)]
  have "parse_openai_chat body = failed_usage" "parse_openai_responses body = failed_usage"
    "parse_anthropic body = failed_usage" "parse_vertex body = failed_usage"
    "parse_ollama body = failed_usage"
    by (simp_all add: un parse_openai_chat_def parse_openai_responses_def parse_anthropic_def
        parse_vertex_def parse_ollama_def)
  with assms(2,3) have "parse_response u body headers = failed_usage"
    unfolding parse_response_def recognise_def Let_def by (simp split: if_splits) blast+
  then show ?thesis by (simp add: failed_usage_def no_usage_def)
qed

definition gemini_stream :: url where
  "gemini_stream =
     \<lparr>u_scheme = ''https'', u_host = ''generativelanguage.googleapis.com'',
      u_path = ''/m:streamGenerateContent''\<rparr>"

lemma gemini_stream_recognised:
  "recognise gemini_stream" "url_hostname gemini_stream = ''generativelanguage.googleapis.com''"
  by (simp_all add: recognise_def gemini_stream_def url_hostname_def llm_path_def trim_right_byte_def
      is_vertex_host_def is_vertex_path_def has_prefix_def has_suffix_def Let_def)

theorem non_object_counts_nothing_witness:
  "parse_response gemini_stream (encode False (JArr [JObj [(''usageMetadata'', JObj
      [(''promptTokenCount'', JNum (show_int 9))])]])) [] = failed_usage"
proof -
  let ?v = "JArr [JObj [(''usageMetadata'', JObj [(''promptTokenCount'', JNum (show_int 9))])]]"
  have "parse_json (encode False ?v) = Some (coerce ?v)"
    by (rule parse_encode) (simp_all add: num_literal_show_int max_nesting_def)
  then show ?thesis
    using non_object_counts_nothing [of "encode False ?v" gemini_stream "[]"] gemini_stream_recognised
    by (simp add: json_object_def is_bedrock_runtime_host_def has_prefix_def del: encode.simps)
qed

lemma has_suffix_rev: "has_suffix s p \<longleftrightarrow> take (length p) (rev s) = rev p"
  by (auto simp: has_suffix_def take_rev length_drop rev_swap dest: arg_cong [where f = length])

text \<open>
  Bedrock: the model id is what stands between \<open>/model/\<close> and the operation, for each of the
  four operations, and the counts are the two response headers read as decimal numbers.
\<close>

theorem bedrock_usage:
  assumes "sfx \<in> set bedrock_suffixes"
    and "header_get headers ''X-Amzn-Bedrock-Input-Token-Count'' = show_int a"
    and "header_get headers ''X-Amzn-Bedrock-Output-Token-Count'' = show_int b"
    and "int64_min \<le> a" "a \<le> int64_max" "int64_min \<le> b" "b \<le> int64_max"
  shows "parse_bedrock headers (''/model/'' @ model @ sfx) =
    \<lparr>us_model = model, us_in = of_int a, us_out = of_int b, us_recognised = True\<rparr>"
proof -
  have "cut_first_suffix bedrock_suffixes (model @ sfx) = model"
    using assms(1) by (auto simp: bedrock_suffixes_def has_suffix_rev trim_suffix_def)
  then show ?thesis
    using assms parse_int64_show
    by (simp add: parse_bedrock_def model_id_from_bedrock_path_def has_prefix_def atoi_value_def)
qed

theorem bedrock_usage_witness:
  "us_model (parse_bedrock [(''X-Amzn-Bedrock-Input-Token-Count'', [''5'']),
      (''X-Amzn-Bedrock-Output-Token-Count'', [''6''])] ''/model/m.v1:0/converse-stream'') = ''m.v1:0''"
proof -
  have n: "show_int 5 = ''5''" "show_int 6 = ''6''"
    by (simp_all add: show_int_def show_nat.simps digit_def char_of_def bit_0)
  show ?thesis
    using bedrock_usage [of "''/converse-stream''" "[(''X-Amzn-Bedrock-Input-Token-Count'', [''5'']),
      (''X-Amzn-Bedrock-Output-Token-Count'', [''6''])]" 5 6 "''m.v1:0''"]
    by (simp add: n bedrock_suffixes_def header_get_def int64_min_def int64_max_def)
qed

end
