(* ===== verification/Mitm_Cert.thy ===== *)
theory Mitm_Cert
  imports Prelude
begin

text \<open>
  \<open>internal/mitm/cert.go\<close>: the certificate authority and its cache of leaf certificates. Key
  generation, signing and the parsers of PEM, X.509 and IP addresses are arguments; instants and
  durations are integers in nanoseconds.
\<close>

section \<open>State\<close>

definition hour :: int where
  "hour = 3600 * 10 ^ 9"

text \<open>A \<open>tls.Certificate\<close>: the DER chain and the private key.\<close>

record 'k tls_cert =
  tc_chain :: "string list"
  tc_key :: 'k

record 'k cached_leaf =
  cl_cert :: "'k tls_cert"
  cl_expires :: int

record ('c, 's, 'k) authority =
  au_ca_cert :: 'c
  au_ca_key :: 's
  au_ca_pem :: string
  au_leaf_ttl :: int
  au_cache :: "(string \<times> 'k cached_leaf) list"

text \<open>The template of a certificate, as far as the two call sites set it.\<close>

record 'ip template =
  tm_serial :: int
  tm_common_name :: string
  tm_organization :: "string list"
  tm_not_before :: int
  tm_not_after :: int
  tm_key_usage :: "string list"
  tm_constraints_valid :: bool
  tm_max_path_zero :: bool
  tm_is_ca :: bool
  tm_server_auth :: bool
  tm_ips :: "'ip list"
  tm_dns :: "string list"

section \<open>Construction\<close>

definition make_authority :: "'c \<Rightarrow> 's \<Rightarrow> string \<Rightarrow> ('c, 's, 'k) authority" where
  "make_authority cert key pem =
     \<lparr>au_ca_cert = cert, au_ca_key = key, au_ca_pem = pem, au_leaf_ttl = 24 * hour, au_cache = []\<rparr>"

definition ca_template :: "int \<Rightarrow> int \<Rightarrow> int \<Rightarrow> 'ip template" where
  "ca_template serial now validity =
     \<lparr>tm_serial = serial, tm_common_name = ''aegrail-engine MITM CA'', tm_organization = [''aegrail''],
      tm_not_before = now - hour, tm_not_after = now + validity,
      tm_key_usage = [''CertSign'', ''CRLSign'', ''DigitalSignature''], tm_constraints_valid = True,
      tm_max_path_zero = True, tm_is_ca = True, tm_server_auth = False, tm_ips = [], tm_dns = []\<rparr>"

datatype key_error = NotASigner | UnsupportedKey | NoKeyFormat

datatype cert_error =
    GenerateFailed | SignFailed | ReadCertFailed | ReadKeyFailed | CertNotPem | KeyNotPem
  | ParseCertFailed | ParseKeyFailed key_error

text \<open>The self-signed CA: its key (if generating one succeeds), the DER the template signs to.\<close>

definition new_authority :: "'s option \<Rightarrow> ('ip template \<Rightarrow> 's \<Rightarrow> string option) \<Rightarrow> (string \<Rightarrow> 'c option) \<Rightarrow>
    (string \<Rightarrow> string) \<Rightarrow> int \<Rightarrow> int \<Rightarrow> int \<Rightarrow> (cert_error, ('c, 's, 'k) authority) result" where
  "new_authority gen self_sign parse_cert to_pem serial now validity =
     (case gen of
        None \<Rightarrow> Inl GenerateFailed
      | Some key \<Rightarrow>
          (case self_sign (ca_template serial now validity) key of
             None \<Rightarrow> Inl SignFailed
           | Some der \<Rightarrow>
               (case parse_cert der of
                  None \<Rightarrow> Inl ParseCertFailed
                | Some cert \<Rightarrow> Inr (make_authority cert key (to_pem der)))))"

text \<open>A PKCS#8 block holds a key of a supported type, another signer, or no signer.\<close>

datatype 's pkcs8 = Supported 's | OtherSigner | NoSigner

definition parse_any_private_key :: "(string \<Rightarrow> 's pkcs8 option) \<Rightarrow> (string \<Rightarrow> 's option) \<Rightarrow>
    (string \<Rightarrow> 's option) \<Rightarrow> string \<Rightarrow> (key_error, 's) result" where
  "parse_any_private_key pkcs8 pkcs1 sec1 der =
     (case pkcs8 der of
        Some k \<Rightarrow>
          (case k of NoSigner \<Rightarrow> Inl NotASigner | Supported s \<Rightarrow> Inr s | OtherSigner \<Rightarrow> Inl UnsupportedKey)
      | None \<Rightarrow>
          (case pkcs1 der of
             Some s \<Rightarrow> Inr s
           | None \<Rightarrow> (case sec1 der of Some s \<Rightarrow> Inr s | None \<Rightarrow> Inl NoKeyFormat)))"

definition load_authority :: "(string \<Rightarrow> string option) \<Rightarrow> (string \<Rightarrow> string option) \<Rightarrow> (string \<Rightarrow> 'c option) \<Rightarrow>
    (string \<Rightarrow> (key_error, 's) result) \<Rightarrow> string \<Rightarrow> string \<Rightarrow> (cert_error, ('c, 's, 'k) authority) result" where
  "load_authority read_file pem_block parse_cert parse_key cert_path key_path =
     (case read_file cert_path of
        None \<Rightarrow> Inl ReadCertFailed
      | Some cert_pem \<Rightarrow>
          (case read_file key_path of
             None \<Rightarrow> Inl ReadKeyFailed
           | Some key_pem \<Rightarrow>
               (case pem_block cert_pem of
                  None \<Rightarrow> Inl CertNotPem
                | Some cert_der \<Rightarrow>
                    (case parse_cert cert_der of
                       None \<Rightarrow> Inl ParseCertFailed
                     | Some cert \<Rightarrow>
                         (case pem_block key_pem of
                            None \<Rightarrow> Inl KeyNotPem
                          | Some key_der \<Rightarrow>
                              (case parse_key key_der of
                                 Inl e \<Rightarrow> Inl (ParseKeyFailed e)
                               | Inr key \<Rightarrow> Inr (make_authority cert key cert_pem)))))))"

definition ca_pem :: "('c, 's, 'k) authority \<Rightarrow> string" where
  "ca_pem a = au_ca_pem a"

section \<open>Leaf certificates\<close>

text \<open>
  What minting uses: the key generated, the signature of a template by the CA, the raw bytes of
  the CA certificate and the parser of IP addresses.
\<close>

record ('c, 's, 'k, 'ip) minting =
  mt_gen :: "'k option"
  mt_sign :: "'ip template \<Rightarrow> 'c \<Rightarrow> 'k \<Rightarrow> 's \<Rightarrow> string option"
  mt_raw :: "'c \<Rightarrow> string"
  mt_parse_ip :: "string \<Rightarrow> 'ip option"

definition leaf_template :: "(string \<Rightarrow> 'ip option) \<Rightarrow> int \<Rightarrow> int \<Rightarrow> string \<Rightarrow> 'ip template" where
  "leaf_template parse_ip serial now host =
     \<lparr>tm_serial = serial, tm_common_name = host, tm_organization = [],
      tm_not_before = now - hour, tm_not_after = now + 48 * hour,
      tm_key_usage = [''DigitalSignature'', ''KeyEncipherment''], tm_constraints_valid = True,
      tm_max_path_zero = False, tm_is_ca = False,
      tm_server_auth = True,
      tm_ips = (case parse_ip host of Some ip \<Rightarrow> [ip] | None \<Rightarrow> []),
      tm_dns = (case parse_ip host of Some ip \<Rightarrow> [] | None \<Rightarrow> [host])\<rparr>"

definition mint_leaf :: "('c, 's, 'k, 'ip) minting \<Rightarrow> int \<Rightarrow> int \<Rightarrow> string \<Rightarrow> ('c, 's, 'k) authority \<Rightarrow>
    (cert_error, 'k tls_cert) result" where
  "mint_leaf m serial now host a =
     (case mt_gen m of
        None \<Rightarrow> Inl GenerateFailed
      | Some key \<Rightarrow>
          (case mt_sign m (leaf_template (mt_parse_ip m) serial now host) (au_ca_cert a) key (au_ca_key a) of
             None \<Rightarrow> Inl SignFailed
           | Some der \<Rightarrow> Inr \<lparr>tc_chain = [der, mt_raw m (au_ca_cert a)], tc_key = key\<rparr>))"

text \<open>
  The four clock readings of a call: for the cache, for the validity, for the serial number and
  for the expiry.
\<close>

record instants =
  in_lookup :: int
  in_mint :: int
  in_serial :: int
  in_store :: int

definition leaf_for :: "('c, 's, 'k, 'ip) minting \<Rightarrow> instants \<Rightarrow> string \<Rightarrow> ('c, 's, 'k) authority \<Rightarrow>
    (cert_error, 'k tls_cert) result \<times> ('c, 's, 'k) authority" where
  "leaf_for m t host a =
     (case map_of (au_cache a) host of
        Some cached \<Rightarrow>
          if in_lookup t < cl_expires cached then (Inr (cl_cert cached), a)
          else (case mint_leaf m (in_serial t) (in_mint t) host a of
                  Inl e \<Rightarrow> (Inl e, a)
                | Inr leaf \<Rightarrow>
                    (Inr leaf, a\<lparr>au_cache := map_set host
                       \<lparr>cl_cert = leaf, cl_expires = in_store t + au_leaf_ttl a\<rparr> (au_cache a)\<rparr>))
      | None \<Rightarrow>
          (case mint_leaf m (in_serial t) (in_mint t) host a of
             Inl e \<Rightarrow> (Inl e, a)
           | Inr leaf \<Rightarrow>
               (Inr leaf, a\<lparr>au_cache := map_set host
                  \<lparr>cl_cert = leaf, cl_expires = in_store t + au_leaf_ttl a\<rparr> (au_cache a)\<rparr>)))"

section \<open>Validity of what is served\<close>

text \<open>A chain that the authority signed for a host, valid over a span of time.\<close>

definition signed_for :: "('c, 's, 'k, 'ip) minting \<Rightarrow> ('c, 's, 'k) authority \<Rightarrow> string \<Rightarrow> int \<Rightarrow> int \<Rightarrow>
    'k tls_cert \<Rightarrow> bool" where
  "signed_for m a host from until cert \<longleftrightarrow>
     (\<exists>serial now der. mt_sign m (leaf_template (mt_parse_ip m) serial now host) (au_ca_cert a) (tc_key cert) (au_ca_key a)
        = Some der \<and> tc_chain cert = [der, mt_raw m (au_ca_cert a)] \<and>
        tm_not_before (leaf_template (mt_parse_ip m) serial now host) \<le> from \<and>
        until \<le> tm_not_after (leaf_template (mt_parse_ip m) serial now host))"

text \<open>Every cached leaf is for its host, and is still valid when its entry expires.\<close>

definition cache_ok :: "('c, 's, 'k, 'ip) minting \<Rightarrow> int \<Rightarrow> ('c, 's, 'k) authority \<Rightarrow> bool" where
  "cache_ok m t a \<longleftrightarrow> au_leaf_ttl a = 24 * hour \<and>
     (\<forall>host c. map_of (au_cache a) host = Some c \<longrightarrow> signed_for m a host t (cl_expires c) (cl_cert c))"

text \<open>The readings of a call are in order, and it takes less than an hour.\<close>

definition timely :: "int \<Rightarrow> instants \<Rightarrow> bool" where
  "timely t i \<longleftrightarrow> t \<le> in_lookup i \<and> in_lookup i \<le> in_mint i \<and> in_mint i \<le> in_store i \<and>
     in_store i \<le> in_lookup i + hour"

lemma mint_signed:
  assumes "mint_leaf m serial now host a = Inr leaf" and "now - hour \<le> t" and "u \<le> now + 48 * hour"
  shows "signed_for m a host t u leaf"
proof -
  from assms(1) obtain der where "mt_sign m (leaf_template (mt_parse_ip m) serial now host)
      (au_ca_cert a) (tc_key leaf) (au_ca_key a) = Some der"
    and "tc_chain leaf = [der, mt_raw m (au_ca_cert a)]"
    by (auto simp: mint_leaf_def split: option.splits)
  with assms(2,3) show ?thesis unfolding signed_for_def
    by (intro exI [of _ serial] exI [of _ now] exI [of _ der]) (simp add: leaf_template_def)
qed

lemma signed_for_later: "signed_for m a host t u c \<Longrightarrow> t \<le> t' \<Longrightarrow> u' \<le> u \<Longrightarrow> signed_for m a host t' u' c"
  by (fastforce simp: signed_for_def)

lemma signed_for_cache [simp]: "signed_for m (a\<lparr>au_cache := c\<rparr>) = signed_for m a"
  by (simp add: signed_for_def fun_eq_iff)

lemma cache_ok_make: "cache_ok m t (make_authority cert key pem)"
  by (simp add: cache_ok_def make_authority_def)

lemma leaf_for_cases:
  assumes "leaf_for m i host a = (res, a')"
  obtains (Hit) c where "map_of (au_cache a) host = Some c" and "in_lookup i < cl_expires c"
      and "res = Inr (cl_cert c)" and "a' = a"
  | (Failed) e where "mint_leaf m (in_serial i) (in_mint i) host a = Inl e" and "res = Inl e" and "a' = a"
  | (Minted) leaf where "mint_leaf m (in_serial i) (in_mint i) host a = Inr leaf" and "res = Inr leaf"
      and "a' = a\<lparr>au_cache := map_set host
        \<lparr>cl_cert = leaf, cl_expires = in_store i + au_leaf_ttl a\<rparr> (au_cache a)\<rparr>"
  using assms by (auto simp: leaf_for_def split: option.splits sum.splits if_splits)

lemma leaf_for_keeps:
  assumes "cache_ok m t a" and "timely t i" and "leaf_for m i host a = (res, a')"
  shows "cache_ok m (in_lookup i) a'"
proof -
  have old: "signed_for m a h (in_lookup i) (cl_expires c) (cl_cert c)"
    if "map_of (au_cache a) h = Some c" for h c
  proof (rule signed_for_later)
    show "signed_for m a h t (cl_expires c) (cl_cert c)" using assms(1) that by (simp add: cache_ok_def)
    show "t \<le> in_lookup i" using assms(2) by (simp add: timely_def)
  qed simp
  show ?thesis using assms(3)
  proof (cases rule: leaf_for_cases)
    case (Minted leaf)
    have "signed_for m a host (in_lookup i) (in_store i + au_leaf_ttl a) leaf"
      using assms(1,2) by (intro mint_signed [OF Minted(1)]) (auto simp: cache_ok_def timely_def hour_def)
    with Minted(3) assms(1) old show ?thesis by (auto simp: cache_ok_def)
  qed (use assms(1) old in \<open>auto simp: cache_ok_def\<close>)
qed

lemma leaf_for_valid:
  assumes "cache_ok m t a" and "timely t i" and "leaf_for m i host a = (Inr leaf, a')"
  shows "signed_for m a host (in_lookup i) (in_lookup i) leaf"
  using assms(3)
proof (cases rule: leaf_for_cases)
  case (Hit c)
  with assms(1) have "signed_for m a host t (cl_expires c) leaf" by (simp add: cache_ok_def)
  then show ?thesis using assms(2) Hit(2) signed_for_later by (fastforce simp: timely_def)
next
  case (Minted l)
  with assms(2) show ?thesis by (auto simp: timely_def hour_def intro!: mint_signed)
qed simp

text \<open>Two calls may draw different keys; the signatures, the CA and the parser are the same.\<close>

definition same_signer :: "('c, 's, 'k, 'ip) minting \<Rightarrow> ('c, 's, 'k, 'ip) minting \<Rightarrow> bool" where
  "same_signer m m' \<longleftrightarrow> mt_sign m' = mt_sign m \<and> mt_raw m' = mt_raw m \<and> mt_parse_ip m' = mt_parse_ip m"

lemma same_signer_signed: "same_signer m m' \<Longrightarrow> signed_for m' = signed_for m"
  by (intro ext) (simp add: same_signer_def signed_for_def)

lemma same_signer_cache: "same_signer m m' \<Longrightarrow> cache_ok m' = cache_ok m"
  by (intro ext) (simp add: cache_ok_def same_signer_signed)

lemma cache_ok_later: "cache_ok m t a \<Longrightarrow> t \<le> t' \<Longrightarrow> cache_ok m t' a"
  by (auto simp: cache_ok_def intro: signed_for_later)

text \<open>What a call leaves alone: everything but the cache.\<close>

lemma leaf_for_frame:
  assumes "leaf_for m i host a = (res, a')"
  shows "\<exists>c. a' = a\<lparr>au_cache := c\<rparr>"
  using assms by (cases rule: leaf_for_cases) (auto intro: exI [of _ "au_cache a"])

section \<open>Runs\<close>

text \<open>The mutex of the authority makes the calls one sequence.\<close>

fun leaf_calls :: "('c, 's, 'k, 'ip) minting \<Rightarrow> (instants \<times> string) list \<Rightarrow> ('c, 's, 'k) authority \<Rightarrow>
    (cert_error, 'k tls_cert) result list \<times> ('c, 's, 'k) authority" where
  "leaf_calls m [] a = ([], a)"
| "leaf_calls m ((i, host) # cs) a =
     (let (res, a1) = leaf_for m i host a; (rs, a2) = leaf_calls m cs a1 in (res # rs, a2))"

text \<open>The next call reads the clock after the last reading of the one before it.\<close>

fun in_turn :: "int \<Rightarrow> (instants \<times> string) list \<Rightarrow> bool" where
  "in_turn t [] \<longleftrightarrow> True"
| "in_turn t ((i, host) # cs) \<longleftrightarrow> timely t i \<and> in_turn (in_store i) cs"

lemma in_turn_earlier: "in_turn t cs \<Longrightarrow> t' \<le> t \<Longrightarrow> in_turn t' cs"
  by (cases cs) (auto simp: timely_def)

lemma leaf_calls_valid:
  assumes "cache_ok m t a" and "in_turn t cs" and "(i, host, Inr leaf) \<in> set (zip (List.map fst cs)
      (zip (List.map snd cs) (fst (leaf_calls m cs a))))"
  shows "signed_for m a host (in_lookup i) (in_lookup i) leaf"
  using assms
proof (induction m cs a arbitrary: t rule: leaf_calls.induct)
  case (2 m i0 h0 cs a)
  obtain res a1 where f: "leaf_for m i0 h0 a = (res, a1)" by fastforce
  obtain c where a1: "a1 = a\<lparr>au_cache := c\<rparr>" using leaf_for_frame [OF f] by blast
  from 2(3) have tm: "timely t i0" and tl: "in_turn (in_store i0) cs" by simp_all
  from tl tm have later: "in_turn (in_lookup i0) cs" by (auto simp: timely_def elim: in_turn_earlier)
  have ok: "cache_ok m (in_lookup i0) a1" using leaf_for_keeps [OF 2(2) tm f] .
  consider (this) "i = i0" "host = h0" "res = Inr leaf"
    | (rest) "(i, host, Inr leaf) \<in> set (zip (List.map fst cs) (zip (List.map snd cs) (fst (leaf_calls m cs a1))))"
    using 2(4) by (auto simp: f split: prod.splits)
  then show ?case
  proof cases
    case this
    with leaf_for_valid [OF 2(2) tm] f show ?thesis by simp
  next
    case rest
    have "signed_for m a1 host (in_lookup i) (in_lookup i) leaf"
      by (rule 2(1) [OF f [symmetric] refl ok later rest])
    then show ?thesis by (simp add: a1)
  qed
qed simp


lemma authority_starts:
  assumes "new_authority gen self_sign parse_cert to_pem serial now validity = Inr a \<or>
    load_authority read_file pem_block parse_cert parse_key cert_path key_path = Inr a"
  shows "\<exists>cert key pem. a = make_authority cert key pem"
  using assms by (auto simp: new_authority_def load_authority_def split: option.splits sum.splits)

lemma leaf_for_hit: "map_of (au_cache a) host = Some c \<Longrightarrow> in_lookup i < cl_expires c \<Longrightarrow>
    leaf_for m i host a = (Inr (cl_cert c), a)"
  by (simp add: leaf_for_def)

text \<open>While an entry lives, no call replaces it.\<close>

lemma leaf_calls_keep_entry:
  assumes "map_of (au_cache a) host = Some c" and "\<forall>(i, h) \<in> set cs. in_lookup i < cl_expires c"
  shows "map_of (au_cache (snd (leaf_calls m cs a))) host = Some c"
  using assms
proof (induction m cs a rule: leaf_calls.induct)
  case (2 m i h cs a)
  obtain res a1 where f: "leaf_for m i h a = (res, a1)" by fastforce
  have "map_of (au_cache a1) host = Some c"
  proof (cases "h = host")
    case True
    with f 2(2,3) show ?thesis by (simp add: leaf_for_hit)
  next
    case False
    from f show ?thesis by (cases rule: leaf_for_cases) (use 2(2) False in auto)
  qed
  with 2(1) [OF f [symmetric] refl] 2(3)
  have "map_of (au_cache (snd (leaf_calls m cs a1))) host = Some c" by simp
  then show ?case by (cases "leaf_calls m cs a1") (simp add: f)
qed simp

section \<open>Properties\<close>

text \<open>
  Whatever authority the engine starts with, generated or loaded, and whatever hosts are asked
  for: every leaf certificate it hands out is signed by that CA, names exactly the host asked for,
  and is within its validity period at that moment, cached or not.
\<close>

theorem served_leaf_valid:
  assumes "new_authority gen self_sign parse_cert to_pem serial now validity = Inr a \<or>
      load_authority read_file pem_block parse_cert parse_key cert_path key_path = Inr a"
    and "in_turn t cs"
    and "(i, host, Inr leaf) \<in> set (zip (List.map fst cs)
      (zip (List.map snd cs) (fst (leaf_calls m cs a))))"
  shows "signed_for m a host (in_lookup i) (in_lookup i) leaf"
proof -
  from authority_starts [OF assms(1)] have "cache_ok m t a" using cache_ok_make by auto
  from leaf_calls_valid [OF this assms(2,3)] show ?thesis .
qed

text \<open>
  A certificate minted for a host is the one every later call for that host gets for 24 hours,
  whatever is asked for in between, and such a call leaves the cache alone.
\<close>

theorem leaf_reused:
  assumes "au_leaf_ttl a = 24 * hour" and "map_of (au_cache a) host = None"
    and "leaf_for m i host a = (Inr leaf, b)"
    and "\<forall>(k, h) \<in> set cs. in_lookup k < in_store i + 24 * hour"
    and "in_lookup j < in_store i + 24 * hour"
  shows "leaf_for m j host (snd (leaf_calls m cs b)) = (Inr leaf, snd (leaf_calls m cs b))"
  using assms(3)
proof (cases rule: leaf_for_cases)
  case (Minted l)
  let ?c = "\<lparr>cl_cert = leaf, cl_expires = in_store i + 24 * hour\<rparr>"
  have "map_of (au_cache b) host = Some ?c" using Minted assms(1) by simp
  then have "map_of (au_cache (snd (leaf_calls m cs b))) host = Some ?c"
    using assms(4) by (intro leaf_calls_keep_entry) auto
  from leaf_for_hit [OF this] assms(5) show ?thesis by simp
qed (use assms(2) in auto)

section \<open>Witnesses\<close>

text \<open>An authority with CA ''C'', key 7, and a signer that writes the names of the template.\<close>

definition sample_minting :: "(string, nat, nat, string) minting" where
  "sample_minting = \<lparr>mt_gen = Some 3, mt_sign = (\<lambda>t c k s. Some (tm_common_name t @ c)),
     mt_raw = (\<lambda>c. c), mt_parse_ip = (\<lambda>h. None)\<rparr>"

definition demo_instants :: "int \<Rightarrow> instants" where
  "demo_instants t = \<lparr>in_lookup = t, in_mint = t + 1, in_serial = t + 2, in_store = t + 3\<rparr>"

theorem served_leaf_valid_witness:
  "signed_for sample_minting (make_authority ''C'' (7::nat) ''P'') ''a.b'' 100 100
     \<lparr>tc_chain = [''a.bC'', ''C''], tc_key = 3\<rparr>"
proof -
  have "signed_for sample_minting (make_authority ''C'' (7::nat) ''P'') ''a.b''
      (in_lookup (demo_instants 100)) (in_lookup (demo_instants 100)) \<lparr>tc_chain = [''a.bC'', ''C''], tc_key = 3\<rparr>"
    by (rule served_leaf_valid [where t = 0 and gen = "Some 7" and self_sign = "\<lambda>t k. Some ''C''"
      and parse_cert = Some and to_pem = "\<lambda>d. ''P''"
      and cs = "[(demo_instants 0, ''a.b''), (demo_instants 50, ''x.y''), (demo_instants 100, ''a.b'')]"])
      (simp_all add: new_authority_def demo_instants_def sample_minting_def timely_def hour_def
        leaf_for_def mint_leaf_def make_authority_def leaf_template_def)
  then show ?thesis by (simp add: demo_instants_def)
qed

theorem leaf_reused_witness:
  "fst (leaf_for sample_minting (demo_instants (23 * hour)) ''a.b'' (snd (leaf_calls sample_minting
     [(demo_instants 9, ''x.y'')] (snd (leaf_for sample_minting (demo_instants 0) ''a.b''
       (make_authority ''C'' (7::nat) ''P'')))))) = Inr \<lparr>tc_chain = [''a.bC'', ''C''], tc_key = 3\<rparr>"
  using leaf_reused [where a = "make_authority ''C'' (7::nat) ''P''" and m = sample_minting
      and i = "demo_instants 0" and host = "''a.b''" and j = "demo_instants (23 * hour)"
      and leaf = "\<lparr>tc_chain = [''a.bC'', ''C''], tc_key = 3\<rparr>"
      and b = "snd (leaf_for sample_minting (demo_instants 0) ''a.b'' (make_authority ''C'' (7::nat) ''P''))"
      and cs = "[(demo_instants 9, ''x.y'')]"]
  by (simp add: demo_instants_def sample_minting_def leaf_for_def mint_leaf_def make_authority_def
    hour_def leaf_template_def)

end
