(* ===== verification/Proxy_Base.thy ===== *)
theory Proxy_Base
  imports Policy Egress_Limits Audit_Sink Llm_Parse Mitm_Cert
begin

text \<open>
  The state of \<open>internal/proxy\<close>: the session (\<open>session.go\<close>), the \<open>Proxy\<close> struct with the
  trace of what it does to the outside, the emission of audit events and the helpers of
  \<open>proxy.go\<close> and \<open>http.go\<close> that every path shares.
\<close>

section \<open>Sessions\<close>

record session =
  ss_agent_identity :: string
  ss_session_id :: string

text \<open>The randomness is the eight bytes read, or none when the read fails.\<close>

definition new_session :: "string \<Rightarrow> string option \<Rightarrow> int \<Rightarrow> session option" where
  "new_session agent rand unix_ms =
     (case rand of
        None \<Rightarrow> None
      | Some bytes \<Rightarrow>
          Some \<lparr>ss_agent_identity = agent,
                ss_session_id = ''sess_'' @ show_int unix_ms @ ''_'' @ hex_encode bytes\<rparr>)"

definition session_principal :: "session \<Rightarrow> string" where
  "session_principal s = ss_agent_identity s @ ''@'' @ ss_session_id s"

section \<open>Time\<close>

record reading =
  ck_wall_ms :: int
  ck_mono :: int

definition pad_left :: "nat \<Rightarrow> nat \<Rightarrow> string" where
  "pad_left k n = (let s = show_nat n in replicate (k - length s) (CHR ''0'') @ s)"

text \<open>The civil date of a day number counted from 1970-01-01.\<close>

definition civil :: "int \<Rightarrow> int \<times> int \<times> int" where
  "civil days =
     (let z = days + 719468; era = z div 146097; doe = z mod 146097;
          yoe = (doe - doe div 1460 + doe div 36524 - doe div 146096) div 365;
          doy = doe - (365 * yoe + yoe div 4 - yoe div 100);
          mp = (5 * doy + 2) div 153; d = doy - (153 * mp + 2) div 5 + 1;
          m = (if mp < 10 then mp + 3 else mp - 9);
          y = yoe + era * 400 + (if m \<le> 2 then 1 else 0) in
      (y, m, d))"

text \<open>\<open>time.Now().UTC().Format("2006-01-02T15:04:05.000Z")\<close>, for years from 0 on.\<close>

definition format_ts :: "int \<Rightarrow> string" where
  "format_ts ms =
     (let secs = ms div 1000; tod = secs mod 86400 in
      case civil (secs div 86400) of
        (y, m, d) \<Rightarrow>
          pad_left 4 (nat y) @ ''-'' @ pad_left 2 (nat m) @ ''-'' @ pad_left 2 (nat d) @ ''T'' @
          pad_left 2 (nat (tod div 3600)) @ '':'' @ pad_left 2 (nat (tod div 60 mod 60)) @ '':'' @
          pad_left 2 (nat (tod mod 60)) @ ''.'' @ pad_left 3 (nat (ms mod 1000)) @ ''Z'')"

text \<open>\<open>Duration.Milliseconds\<close>, truncated towards zero.\<close>

definition milliseconds :: "int \<Rightarrow> int64" where
  "milliseconds d = of_int (sgn d * (\<bar>d\<bar> div 10 ^ 6))"

section \<open>Requests\<close>

record request =
  rq_method :: string
  rq_url :: "url option"
  rq_host :: string
  rq_header :: header

text \<open>A request as the proxy hands it to the HTTP client that sends it on.\<close>

record outgoing =
  og_method :: string
  og_url :: url
  og_host :: string
  og_header :: header

section \<open>The proxy\<close>

text \<open>An \<open>audit.Sink\<close> value: the state of a sink and its \<open>Emit\<close>.\<close>

record 's sink_value =
  sv_emit :: "event \<Rightarrow> 's \<Rightarrow> sink_error option \<times> 's"
  sv_state :: 's

text \<open>
  The authority, its certificates, keys and addresses being taken as encoded. The TLS settings for
  the upstreams, which only tests override, are left out.
\<close>

type_synonym tls_authority = "(string, string, string) authority"

type_synonym tls_minting = "(string, string, string, string) minting"

record mitm_config =
  mc_authority :: tls_authority
  mc_host_patterns :: "string list"

text \<open>
  What the proxy does to the outside, in order: audit events handed to the sink, log messages,
  responses to the client, upstream responses relayed to the client (status and body), requests
  handed to the HTTP client, addresses contacted, what happens to a hijacked connection, and the
  certificate chain presented in its name to the client. A response body is text, or the denial
  text for a host.
\<close>

datatype resp_body = Text string | DeniedText string

datatype effect =
    Audit event
  | LogEmitFailed string
  | Respond nat "(string \<times> string) list" resp_body
  | Forwarded nat string
  | Outgoing outgoing
  | Contact string
  | Hijacked
  | ClientWrite string
  | Present string "string list"
  | CloseClient
  | CloseUpstream
  | Panic

text \<open>
  The fields of the \<open>Proxy\<close> struct (nil pointers are \<open>None\<close>), and with them the clock, of which
  each reading takes the next value, and the trace.
\<close>

record 's proxy =
  px_policy :: "policy option"
  px_sink :: "'s sink_value option"
  px_session :: "session option"
  px_counter :: "request_counter option"
  px_limiter :: "rate_limiter option"
  px_budget :: "token_budget option"
  px_mitm :: "mitm_config option"
  px_dial_timeout :: int
  px_forward_timeout :: int
  px_clock :: "nat \<Rightarrow> reading"
  px_tick :: nat
  px_trace :: "effect list"

definition perform :: "effect \<Rightarrow> 's proxy \<Rightarrow> 's proxy" where
  "perform e p = p\<lparr>px_trace := px_trace p @ [e]\<rparr>"

definition now :: "'s proxy \<Rightarrow> reading" where
  "now p = px_clock p (px_tick p)"

definition tick :: "'s proxy \<Rightarrow> 's proxy" where
  "tick p = p\<lparr>px_tick := Suc (px_tick p)\<rparr>"

definition configured :: "'s proxy \<Rightarrow> bool" where
  "configured p \<longleftrightarrow> px_policy p \<noteq> None \<and> px_sink p \<noteq> None \<and> px_session p \<noteq> None"

definition make_event :: "session \<Rightarrow> int \<Rightarrow> string \<Rightarrow> gmap \<Rightarrow> event" where
  "make_event ss ms ty payload =
     \<lparr>ev_ts = format_ts ms, ev_session_id = ss_session_id ss,
      ev_agent_identity = ss_agent_identity ss, ev_invoking_user = None,
      ev_principal = session_principal ss, ev_type = ty, ev_payload = Some payload,
      ev_budget = Some [], ev_prev_hash = None, ev_event_hash = []\<rparr>"

text \<open>A sink failure is logged and goes no further; a nil sink or session is a nil dereference.\<close>

definition px_emit :: "string \<Rightarrow> gmap \<Rightarrow> 's proxy \<Rightarrow> 's proxy" where
  "px_emit ty payload p =
     (case (px_sink p, px_session p) of
        (Some sv, Some ss) \<Rightarrow>
          (let ev = make_event ss (ck_wall_ms (now p)) ty payload;
               p1 = perform (Audit ev) (tick p) in
           case sv_emit sv ev (sv_state sv) of
             (err, s') \<Rightarrow>
               (let p2 = p1\<lparr>px_sink := Some (sv\<lparr>sv_state := s'\<rparr>)\<rparr> in
                case err of None \<Rightarrow> p2 | Some _ \<Rightarrow> perform (LogEmitFailed ty) p2))
      | _ \<Rightarrow> perform Panic p)"

definition respond :: "nat \<Rightarrow> (string \<times> string) list \<Rightarrow> resp_body \<Rightarrow> 's proxy \<Rightarrow> 's proxy" where
  "respond status headers body p = perform (Respond status headers body) p"

definition text_plain :: "string \<times> string" where
  "text_plain = (''Content-Type'', ''text/plain; charset=utf-8'')"

text \<open>\<open>http.Error\<close>, after the headers set before it.\<close>

definition http_error :: "(string \<times> string) list \<Rightarrow> string \<Rightarrow> nat \<Rightarrow> 's proxy \<Rightarrow> 's proxy" where
  "http_error headers msg status =
     respond status (headers @ [text_plain, (''X-Content-Type-Options'', ''nosniff'')])
       (Text (msg @ [CHR 0x0A]))"

definition dial_timeout :: "'s proxy \<Rightarrow> int" where
  "dial_timeout p = (if 0 < px_dial_timeout p then px_dial_timeout p else 10 * 10 ^ 9)"

definition forward_timeout :: "'s proxy \<Rightarrow> int" where
  "forward_timeout p = (if 0 < px_forward_timeout p then px_forward_timeout p else 30 * 10 ^ 9)"

definition g_strings :: "string list option \<Rightarrow> gval" where
  "g_strings ss = (case ss of None \<Rightarrow> GNull | Some l \<Rightarrow> GList (map GStr l))"

definition emit_engine_start :: "string \<Rightarrow> 's proxy \<Rightarrow> 's proxy" where
  "emit_engine_start version p =
     px_emit type_engine_start
       [(''version'', GStr version), (''patterns'', g_strings (policy_patterns (px_policy p)))] p"

definition emit_engine_shutdown :: "string \<Rightarrow> 's proxy \<Rightarrow> 's proxy" where
  "emit_engine_shutdown reason p = px_emit type_engine_shutdown [(''reason'', GStr reason)] p"

section \<open>The host of a request\<close>

definition method_connect :: string where
  "method_connect = ''CONNECT''"

definition host_without_port :: "string \<Rightarrow> string" where
  "host_without_port s =
     (case last_index s (CHR '':'') of
        None \<Rightarrow> s
      | Some i \<Rightarrow>
          if 0 < i then
            (if has_prefix s ''['' then
               (case last_index s (CHR '']'') of
                  Some e \<Rightarrow> take (e + 1) s
                | None \<Rightarrow> take i s)
             else take i s)
          else s)"

definition host_from_request :: "request \<Rightarrow> string" where
  "host_from_request r =
     (case rq_url r of
        Some u \<Rightarrow>
          if u_host u \<noteq> [] then host_without_port (u_host u)
          else if rq_host r \<noteq> [] then host_without_port (rq_host r) else []
      | None \<Rightarrow> if rq_host r \<noteq> [] then host_without_port (rq_host r) else [])"

definition request_host :: "request \<Rightarrow> string" where
  "request_host r =
     (if rq_url r \<noteq> None \<and> u_host (the (rq_url r)) \<noteq> []
      then host_without_port (u_host (the (rq_url r)))
      else if rq_host r \<noteq> [] then host_without_port (rq_host r)
      else [])"

text \<open>
  The plaintext for a denied host: \<open>%q\<close> quotes it. Which runes above ASCII are printable is a
  table of the library and an argument here.
\<close>

definition quote_rune :: "(nat \<Rightarrow> bool) \<Rightarrow> string \<Rightarrow> string" where
  "quote_rune printable s =
     (case decode_rune s of
        (r, n) \<Rightarrow>
          if r = rune_error \<and> n = 1
          then CHR 0x5C # CHR ''x'' # map hex_char [byte (hd s) div 16, byte (hd s) mod 16]
          else if r = 34 \<or> r = 92 then [CHR 0x5C, hd s]
          else if 32 \<le> r \<and> r < 127 \<or> 128 \<le> r \<and> printable r then take n s
          else if r = 7 then [CHR 0x5C, CHR ''a'']
          else if r = 8 then [CHR 0x5C, CHR ''b'']
          else if r = 12 then [CHR 0x5C, CHR ''f'']
          else if r = 10 then [CHR 0x5C, CHR ''n'']
          else if r = 13 then [CHR 0x5C, CHR ''r'']
          else if r = 9 then [CHR 0x5C, CHR ''t'']
          else if r = 11 then [CHR 0x5C, CHR ''v'']
          else if r < 32 \<or> r = 127
          then CHR 0x5C # CHR ''x'' # map hex_char [r div 16, r mod 16]
          else if r < 65536 then esc_u r
          else CHR 0x5C # CHR ''U'' # map (\<lambda>i. hex_char (r div 16 ^ i mod 16)) (rev [0..<8]))"

function quote_chars :: "(nat \<Rightarrow> bool) \<Rightarrow> string \<Rightarrow> string" where
  "quote_chars printable s =
     (if s = [] then []
      else quote_rune printable s @ quote_chars printable (drop (snd (decode_rune s)) s))"
  by pat_completeness auto
termination
  by (relation "measure (length \<circ> snd)") (auto simp: decode_rune_size_pos)

declare quote_chars.simps [simp del]

definition denied_body_for_host :: "(nat \<Rightarrow> bool) \<Rightarrow> string \<Rightarrow> string" where
  "denied_body_for_host printable host =
     ''aegrail-engine: egress to '' @ CHR 0x22 # quote_chars printable host @
     CHR 0x22 # '' is not in the allowlist'' @ [CHR 0x0A]"

section \<open>Budget denials\<close>

definition deny_rate_or_count :: "string \<Rightarrow> gmap \<Rightarrow> 's proxy \<Rightarrow> 's proxy" where
  "deny_rate_or_count reason payload p =
     respond 429
       [text_plain, (''X-Aegrail-Decision'', ''denied''), (''X-Aegrail-Reason'', reason)]
       (Text (''aegrail-engine: '' @ reason @ [CHR 0x0A]))
       (px_emit type_egress_denied (map_set ''reason'' (GStr reason) payload) p)"

section \<open>Reading a trace\<close>

fun audits :: "effect list \<Rightarrow> event list" where
  "audits [] = []"
| "audits (Audit ev # es) = ev # audits es"
| "audits (_ # es) = audits es"

fun contacts :: "effect list \<Rightarrow> string list" where
  "contacts [] = []"
| "contacts (Contact a # es) = a # contacts es"
| "contacts (_ # es) = contacts es"

fun outgoings :: "effect list \<Rightarrow> outgoing list" where
  "outgoings [] = []"
| "outgoings (Outgoing o' # es) = o' # outgoings es"
| "outgoings (_ # es) = outgoings es"

fun presented :: "effect list \<Rightarrow> (string \<times> string list) list" where
  "presented [] = []"
| "presented (Present host chain # es) = (host, chain) # presented es"
| "presented (_ # es) = presented es"

fun statuses :: "effect list \<Rightarrow> nat list" where
  "statuses [] = []"
| "statuses (Respond n h b # es) = n # statuses es"
| "statuses (Forwarded n b # es) = n # statuses es"
| "statuses (_ # es) = statuses es"

text \<open>What an operation has added to the trace.\<close>

definition added :: "'s proxy \<Rightarrow> 's proxy \<Rightarrow> effect list" where
  "added p q = drop (length (px_trace p)) (px_trace q)"

lemma audits_append [simp]: "audits (xs @ ys) = audits xs @ audits ys"
  by (induction xs rule: audits.induct) auto

lemma contacts_append [simp]: "contacts (xs @ ys) = contacts xs @ contacts ys"
  by (induction xs rule: contacts.induct) auto

lemma outgoings_append [simp]: "outgoings (xs @ ys) = outgoings xs @ outgoings ys"
  by (induction xs rule: outgoings.induct) auto

lemma presented_append [simp]: "presented (xs @ ys) = presented xs @ presented ys"
  by (induction xs rule: presented.induct) auto

lemma statuses_append [simp]: "statuses (xs @ ys) = statuses xs @ statuses ys"
  by (induction xs rule: statuses.induct) auto

section \<open>Payloads\<close>

text \<open>
  The values an audit payload of the proxy holds: scalars, lists of strings, and of the floats
  only the parameters of the rate limiter.
\<close>

definition audit_value :: "rate_limiter option \<Rightarrow> gval \<Rightarrow> bool" where
  "audit_value l v =
     (case v of
        GFloat f \<Rightarrow> f = rl_rate_of l \<or> f = rl_burst_of l
      | GList vs \<Rightarrow> list_all (\<lambda>x. case x of GStr s \<Rightarrow> True | _ \<Rightarrow> False) vs
      | GMap m \<Rightarrow> False
      | _ \<Rightarrow> True)"

definition audit_payload :: "rate_limiter option \<Rightarrow> gmap \<Rightarrow> bool" where
  "audit_payload l pl \<longleftrightarrow> list_all (\<lambda>kv. audit_value l (snd kv)) pl"

lemma audit_value_simps [simp]:
  "audit_value l GNull" "audit_value l (GBool b)" "audit_value l (GInt i)" "audit_value l (GStr s)"
  "audit_value l (GFloat f) \<longleftrightarrow> f = rl_rate_of l \<or> f = rl_burst_of l"
  by (simp_all add: audit_value_def)

lemma audit_value_strings [simp]: "audit_value l (g_strings ss)"
  by (auto simp: audit_value_def g_strings_def list_all_iff split: option.splits)

lemma audit_payload_simps [simp]:
  "audit_payload l []" "audit_payload l ((k, v) # pl) \<longleftrightarrow> audit_value l v \<and> audit_payload l pl"
  "audit_payload l (pl @ pl') \<longleftrightarrow> audit_payload l pl \<and> audit_payload l pl'"
  by (simp_all add: audit_payload_def)

lemma audit_payload_set [simp]:
  "audit_value l v \<Longrightarrow> audit_payload l pl \<Longrightarrow> audit_payload l (map_set k v pl)"
  by (induction k v pl rule: map_set.induct) auto

section \<open>Elementary steps\<close>

text \<open>
  Everything a handler does to the proxy once the preflight checks have let a request pass is one
  of these steps.
\<close>

inductive handler_step :: "'s proxy \<Rightarrow> 's proxy \<Rightarrow> bool" where
  Emit: "audit_payload (px_limiter p) payload \<Longrightarrow> handler_step p (px_emit ty payload p)"
| Tick: "handler_step p (tick p)"
| Effect: "(\<And>ev. e \<noteq> Audit ev) \<Longrightarrow> handler_step p (perform e p)"
| Spend: "px_budget p = Some b \<Longrightarrow> handler_step p (p\<lparr>px_budget := Some (snd (budget_add n b))\<rparr>)"
| Mint: "px_mitm p = Some mc \<Longrightarrow> handler_step p
    (p\<lparr>px_mitm := Some (mc\<lparr>mc_authority := snd (leaf_for (m :: tls_minting) t host (mc_authority mc))\<rparr>)\<rparr>)"

definition handler_steps :: "'s proxy \<Rightarrow> 's proxy \<Rightarrow> bool" where
  "handler_steps = handler_step\<^sup>*\<^sup>*"

lemma steps_refl [simp, intro]: "handler_steps p p"
  by (simp add: handler_steps_def)

lemma steps_trans [trans]: "handler_steps p q \<Longrightarrow> handler_steps q r \<Longrightarrow> handler_steps p r"
  unfolding handler_steps_def by (rule rtranclp_trans)

lemma step_steps: "handler_step p q \<Longrightarrow> handler_steps p q"
  by (simp add: handler_steps_def)

lemma steps_step: "handler_steps p q \<Longrightarrow> handler_step q r \<Longrightarrow> handler_steps p r"
  unfolding handler_steps_def by (rule rtranclp.rtrancl_into_rtrancl)

lemma steps_emit [intro]: "handler_steps p q \<Longrightarrow> audit_payload (px_limiter q) pl \<Longrightarrow> handler_steps p (px_emit ty pl q)"
  by (erule steps_step) (erule handler_step.Emit)

lemma steps_respond [intro]: "handler_steps p q \<Longrightarrow> handler_steps p (respond n h b q)"
  unfolding respond_def by (erule steps_step) (rule handler_step.Effect, simp)

lemma steps_http_error [intro]: "handler_steps p q \<Longrightarrow> handler_steps p (http_error h m n q)"
  unfolding http_error_def by (rule steps_respond)

lemma steps_perform [intro]: "handler_steps p q \<Longrightarrow> (\<And>ev. e \<noteq> Audit ev) \<Longrightarrow> handler_steps p (perform e q)"
  by (erule steps_step) (rule handler_step.Effect)

lemma steps_tick [intro]: "handler_steps p q \<Longrightarrow> handler_steps p (tick q)"
  by (erule steps_step) (rule handler_step.Tick)

text \<open>Configuration never changes.\<close>

lemma px_emit_fields [simp]:
  "px_policy (px_emit ty pl p) = px_policy p" "px_session (px_emit ty pl p) = px_session p"
  "px_counter (px_emit ty pl p) = px_counter p" "px_limiter (px_emit ty pl p) = px_limiter p"
  "px_budget (px_emit ty pl p) = px_budget p" "px_mitm (px_emit ty pl p) = px_mitm p"
  "px_dial_timeout (px_emit ty pl p) = px_dial_timeout p"
  "px_forward_timeout (px_emit ty pl p) = px_forward_timeout p"
  "px_clock (px_emit ty pl p) = px_clock p"
  by (simp_all add: px_emit_def perform_def tick_def Let_def split: option.splits prod.splits)

lemma px_emit_sink [simp]: "px_sink (px_emit ty pl p) = None \<longleftrightarrow> px_sink p = None"
  by (auto simp: px_emit_def perform_def tick_def Let_def split: option.splits prod.splits)

lemma perform_fields [simp]:
  "px_policy (perform e p) = px_policy p" "px_session (perform e p) = px_session p"
  "px_counter (perform e p) = px_counter p" "px_limiter (perform e p) = px_limiter p"
  "px_budget (perform e p) = px_budget p" "px_mitm (perform e p) = px_mitm p"
  "px_sink (perform e p) = px_sink p" "px_clock (perform e p) = px_clock p"
  "px_tick (perform e p) = px_tick p" "px_trace (perform e p) = px_trace p @ [e]"
  "px_dial_timeout (perform e p) = px_dial_timeout p"
  "px_forward_timeout (perform e p) = px_forward_timeout p"
  by (simp_all add: perform_def)

lemma tick_fields [simp]:
  "px_policy (tick p) = px_policy p" "px_session (tick p) = px_session p"
  "px_counter (tick p) = px_counter p" "px_limiter (tick p) = px_limiter p"
  "px_budget (tick p) = px_budget p" "px_mitm (tick p) = px_mitm p"
  "px_sink (tick p) = px_sink p" "px_clock (tick p) = px_clock p"
  "px_tick (tick p) = Suc (px_tick p)" "px_trace (tick p) = px_trace p"
  "px_dial_timeout (tick p) = px_dial_timeout p"
  "px_forward_timeout (tick p) = px_forward_timeout p"
  by (simp_all add: tick_def)

lemma configured_ops [simp]:
  "configured (px_emit ty pl p) = configured p" "configured (perform e p) = configured p"
  "configured (tick p) = configured p" "configured (respond n h b p) = configured p"
  by (simp_all add: configured_def respond_def)

definition mitm_hosts :: "'s proxy \<Rightarrow> string list option" where
  "mitm_hosts p = map_option mc_host_patterns (px_mitm p)"

lemma mitm_hosts_None: "mitm_hosts p = None \<longleftrightarrow> px_mitm p = None"
  by (simp add: mitm_hosts_def)

lemma mitm_hosts_update [simp]:
  "mitm_hosts (p\<lparr>px_counter := c\<rparr>) = mitm_hosts p" "mitm_hosts (p\<lparr>px_limiter := l\<rparr>) = mitm_hosts p"
  "mitm_hosts (p\<lparr>px_budget := b\<rparr>) = mitm_hosts p" "mitm_hosts (tick p) = mitm_hosts p"
  by (simp_all add: mitm_hosts_def)

definition same_config :: "'s proxy \<Rightarrow> 's proxy \<Rightarrow> bool" where
  "same_config p q \<longleftrightarrow> px_policy q = px_policy p \<and> px_session q = px_session p \<and>
     mitm_hosts q = mitm_hosts p \<and> px_clock q = px_clock p \<and> (px_sink q = None \<longleftrightarrow> px_sink p = None) \<and>
     px_dial_timeout q = px_dial_timeout p \<and> px_forward_timeout q = px_forward_timeout p"

lemma step_same_config: "handler_step p q \<Longrightarrow> same_config p q"
  by (induction rule: handler_step.induct) (simp_all add: same_config_def mitm_hosts_def)

lemma steps_same_config: "handler_steps p q \<Longrightarrow> same_config p q"
  unfolding handler_steps_def
proof (induction rule: rtranclp_induct)
  case (step q r)
  then show ?case using step_same_config [of q r] by (simp add: same_config_def)
qed (simp add: same_config_def)

text \<open>Handlers do not touch the counter and the limiter, and the trace only grows.\<close>

lemma handler_steps_keep:
  assumes "handler_steps p q"
  shows "px_counter q = px_counter p \<and> px_limiter q = px_limiter p"
  using assms unfolding handler_steps_def
proof (induction rule: rtranclp_induct)
  case (step q r)
  from step(2) have "px_counter r = px_counter q \<and> px_limiter r = px_limiter q"
    by (induction rule: handler_step.induct) simp_all
  with step(3) show ?case by simp
qed simp

lemma px_emit_trace:
  "\<exists>es. px_trace (px_emit ty pl p) = px_trace p @ es \<and> contacts es = [] \<and> outgoings es = [] \<and> presented es = [] \<and> statuses es = [] \<and>
     (configured p \<longrightarrow> audits es = [make_event (the (px_session p)) (ck_wall_ms (now p)) ty pl])"
  by (auto simp: px_emit_def configured_def Let_def split: option.splits prod.splits)

lemma emit_added [simp]:
  "contacts (px_trace (px_emit ty pl p)) = contacts (px_trace p)"
  "outgoings (px_trace (px_emit ty pl p)) = outgoings (px_trace p)"
  "presented (px_trace (px_emit ty pl p)) = presented (px_trace p)"
  "statuses (px_trace (px_emit ty pl p)) = statuses (px_trace p)"
  "configured p \<Longrightarrow> audits (px_trace (px_emit ty pl p)) =
     audits (px_trace p) @ [make_event (the (px_session p)) (ck_wall_ms (now p)) ty pl]"
  using px_emit_trace [of ty pl p] by auto

lemma respond_added [simp]:
  "contacts (px_trace (respond n h b p)) = contacts (px_trace p)"
  "outgoings (px_trace (respond n h b p)) = outgoings (px_trace p)"
  "presented (px_trace (respond n h b p)) = presented (px_trace p)"
  "statuses (px_trace (respond n h b p)) = statuses (px_trace p) @ [n]"
  "audits (px_trace (respond n h b p)) = audits (px_trace p)"
  by (simp_all add: respond_def)

lemma respond_fields [simp]:
  "px_policy (respond n h b p) = px_policy p" "px_session (respond n h b p) = px_session p"
  "px_counter (respond n h b p) = px_counter p" "px_limiter (respond n h b p) = px_limiter p"
  "px_budget (respond n h b p) = px_budget p" "px_mitm (respond n h b p) = px_mitm p"
  "px_sink (respond n h b p) = px_sink p"
  by (simp_all add: respond_def)

lemma http_error_added [simp]:
  "contacts (px_trace (http_error h m n p)) = contacts (px_trace p)"
  "outgoings (px_trace (http_error h m n p)) = outgoings (px_trace p)"
  "presented (px_trace (http_error h m n p)) = presented (px_trace p)"
  "statuses (px_trace (http_error h m n p)) = statuses (px_trace p) @ [n]"
  "audits (px_trace (http_error h m n p)) = audits (px_trace p)"
  "px_budget (http_error h m n p) = px_budget p"
  by (simp_all add: http_error_def)

end
