(* ===== verification/Proxy_Http.thy ===== *)
theory Proxy_Http
  imports Proxy_Base
begin

text \<open>
  \<open>internal/proxy/http.go\<close>: the plain-HTTP path. What the upstream and the client's connection
  do is an input; the control flow of \<open>httputil.ReverseProxy\<close> between the callbacks is modelled
  as far as it decides which of them run: an error before a response calls the error handler, a
  response goes through \<open>ModifyResponse\<close> first, and a failure while the body is being copied to
  the client panics with \<open>http.ErrAbortHandler\<close> under a real server.
\<close>

section \<open>The upstream's answer\<close>

text \<open>
  The body as far as it can be read and the error that ends it early, whether writing it to the
  client succeeds, and for a 101 response the error of the protocol switch.
\<close>

record upstream_response =
  ur_status :: nat
  ur_headers :: header
  ur_body :: string
  ur_read_error :: "string option"
  ur_copy_ok :: bool
  ur_upgrade_error :: "string option"

datatype round_trip = BadUpgrade string | TransportError string | Response upstream_response

datatype forward_result = FwdError string | FwdDone nat usage | FwdAbort

definition upstream_url_for_request :: "request \<Rightarrow> url option" where
  "upstream_url_for_request r =
     (case rq_url r of
        None \<Rightarrow> None
      | Some u \<Rightarrow>
          (let scheme = (if u_scheme u = [] then ''http'' else u_scheme u);
               host = (if u_host u = [] then rq_host r else u_host u) in
           if host = [] then None else Some \<lparr>u_scheme = scheme, u_host = host, u_path = []\<rparr>))"

section \<open>Forwarding\<close>

text \<open>
  The rewriting of the request: \<open>Director\<close> works on a clone, so the URL that is recognised and
  parsed stays the client's.
\<close>

definition strip_proxy_headers :: "header \<Rightarrow> header" where
  "strip_proxy_headers h = header_del (header_del h ''Proxy-Connection'') ''Proxy-Authorization''"

definition director :: "url \<Rightarrow> url \<Rightarrow> request \<Rightarrow> outgoing" where
  "director target u r =
     \<lparr>og_method = rq_method r, og_url = u\<lparr>u_scheme := u_scheme target, u_host := u_host target\<rparr>,
      og_host = u_host target, og_header = strip_proxy_headers (rq_header r)\<rparr>"

definition error_handler :: "string \<Rightarrow> 's proxy \<Rightarrow> 's proxy" where
  "error_handler err p =
     respond 502 [text_plain, (''X-Aegrail-Decision'', ''error'')]
       (Text (''aegrail-engine: upstream error: '' @ err @ [CHR 0x0A])) p"

text \<open>
  \<open>ModifyResponse\<close>: the body of a successful response of a recognised URL is read and parsed;
  the answer is the usage and whether the body was buffered, or the error of reading it.
\<close>

definition modify_response :: "bool \<Rightarrow> url \<Rightarrow> upstream_response \<Rightarrow> (string, usage \<times> bool) result" where
  "modify_response llm u resp =
     (if \<not> llm \<or> 400 \<le> ur_status resp then Inr (no_usage, False)
      else
        (case ur_read_error resp of
           Some e \<Rightarrow> Inl e
         | None \<Rightarrow> Inr (parse_response u (ur_body resp) (ur_headers resp), True)))"

definition upgrade_body_error :: string where
  "upgrade_body_error = ''internal error: 101 switching protocols response with non-writable body''"

definition forward_http :: "bool \<Rightarrow> url \<Rightarrow> url \<Rightarrow> round_trip \<Rightarrow> 's proxy \<Rightarrow> forward_result \<times> 's proxy" where
  "forward_http llm u target rt p =
     (case rt of
        BadUpgrade e \<Rightarrow> (FwdError e, error_handler e p)
      | TransportError e \<Rightarrow> (FwdError e, error_handler e (perform (Contact (u_host target)) p))
      | Response resp \<Rightarrow>
          (let p1 = perform (Contact (u_host target)) p in
           case modify_response llm u resp of
             Inl e \<Rightarrow> (FwdError e, error_handler e p1)
           | Inr (usage, buffered) \<Rightarrow>
               if ur_status resp = 101 then
                 (case (if buffered \<and> ur_upgrade_error resp = None then Some upgrade_body_error
                        else ur_upgrade_error resp) of
                    Some e \<Rightarrow> (FwdError e, error_handler e p1)
                  | None \<Rightarrow> (FwdDone 101 usage, perform (Forwarded 101 []) p1))
               else
                 (let p2 = perform (Forwarded (ur_status resp) (ur_body resp)) p1 in
                  if \<not> buffered \<and> ur_read_error resp \<noteq> None \<or> \<not> ur_copy_ok resp
                  then (FwdAbort, perform Panic p2)
                  else (FwdDone (ur_status resp) usage, p2))))"

text \<open>
  The usage of a recognised response goes into the payload and, if there is a token budget, is
  added to it.
\<close>

definition account_usage :: "usage \<Rightarrow> gmap \<Rightarrow> 's proxy \<Rightarrow> gmap \<times> 's proxy" where
  "account_usage u payload p =
     (if us_recognised u then
        (let pl = payload @ [(''llm_model'', GStr (us_model u)), (''tokens_in'', GInt (us_in u)),
                             (''tokens_out'', GInt (us_out u))] in
         case px_budget p of
           None \<Rightarrow> (pl, p)
         | Some b \<Rightarrow>
             (case budget_add (us_in u + us_out u) b of
                ((_, used), b') \<Rightarrow> (pl @ [(''tokens_total'', GInt used)], p\<lparr>px_budget := Some b'\<rparr>)))
      else (payload, p))"

definition deny_host :: "gmap \<Rightarrow> string \<Rightarrow> 's proxy \<Rightarrow> 's proxy" where
  "deny_host payload host p =
     respond 403 [text_plain, (''X-Aegrail-Decision'', ''denied'')] (DeniedText host)
       (px_emit ''egress_denied'' payload p)"

definition elapsed_ms :: "reading \<Rightarrow> 's proxy \<Rightarrow> int64" where
  "elapsed_ms start p = milliseconds (time_sub (ck_mono (now p)) (ck_mono start))"

definition finish_http :: "string \<Rightarrow> string \<Rightarrow> string \<Rightarrow> reading \<Rightarrow> forward_result \<times> 's proxy \<Rightarrow> 's proxy" where
  "finish_http host method path start res =
     (case res of
        (FwdAbort, p) \<Rightarrow> p
      | (FwdError e, p) \<Rightarrow>
          px_emit ''egress_error''
            [(''host'', GStr host), (''method'', GStr method), (''path'', GStr path),
             (''error'', GStr e), (''duration_ms'', GInt (elapsed_ms start p))] (tick p)
      | (FwdDone status usage, p) \<Rightarrow>
          (case account_usage usage
                  [(''host'', GStr host), (''method'', GStr method), (''path'', GStr path),
                   (''status_code'', GInt (of_nat status)), (''duration_ms'', GInt (elapsed_ms start p))]
                  (tick p) of
             (payload, p') \<Rightarrow> px_emit ''egress_allowed'' payload p'))"

definition handle_http :: "request \<Rightarrow> round_trip \<Rightarrow> 's proxy \<Rightarrow> 's proxy" where
  "handle_http r rt p =
     (let host = request_host r; method = rq_method r in
      if host = [] then
        http_error [] ''aegrail-engine: missing destination host'' 400
          (px_emit ''egress_error''
             [(''method'', GStr method), (''error'', GStr ''no destination host in request'')] p)
      else
        (case rq_url r of
           None \<Rightarrow> perform Panic p
         | Some u \<Rightarrow>
             (let path = u_path u in
              if \<not> policy_allows (px_policy p) host then
                deny_host
                  [(''host'', GStr host), (''method'', GStr method), (''path'', GStr path),
                   (''reason'', GStr ''not_in_allowlist'')] host p
              else
                (case upstream_url_for_request r of
                   None \<Rightarrow>
                     http_error [] ''aegrail-engine: bad upstream URL'' 400
                       (px_emit ''egress_error''
                          [(''host'', GStr host), (''method'', GStr method), (''path'', GStr path),
                           (''error'', GStr ''could not construct upstream URL'')] p)
                 | Some target \<Rightarrow>
                     finish_http host method path (now p)
                       (forward_http (recognise u) u target rt
                          (perform (Outgoing (director target u r)) (tick p)))))))"

section \<open>Lemmas\<close>

lemma steps_error_handler [intro]: "handler_steps p q \<Longrightarrow> handler_steps p (error_handler e q)"
  unfolding error_handler_def by (rule steps_respond)

lemma steps_forward:
  assumes "handler_steps p q"
  shows "handler_steps p (snd (forward_http llm u target rt q))"
  using assms
  by (auto simp: forward_http_def Let_def split: round_trip.splits sum.splits option.splits)

lemma steps_spend:
  "handler_steps p q \<Longrightarrow> px_budget q = Some b \<Longrightarrow> budget_add n b = (a, b') \<Longrightarrow>
   handler_steps p (q\<lparr>px_budget := Some b'\<rparr>)"
  using handler_step.Spend [of q b n] by (auto intro: steps_step)

lemma steps_account [intro]: "handler_steps p q \<Longrightarrow> handler_steps p (snd (account_usage u pl q))"
  by (auto simp: account_usage_def Let_def steps_spend split: option.splits prod.splits)

lemma account_payload:
  "audit_payload (px_limiter q) pl \<Longrightarrow> account_usage u pl q = (pl', q') \<Longrightarrow>
   audit_payload (px_limiter q') pl'"
  by (auto simp: account_usage_def Let_def split: option.splits prod.splits if_splits)

text \<open>Usage accounted and its event emitted.\<close>

lemma steps_account_emit:
  assumes "handler_steps p q" and "audit_payload (px_limiter q) pl"
  shows "handler_steps p (case account_usage u pl q of (pl', q') \<Rightarrow> px_emit ty pl' q')"
proof -
  obtain pl' q' where a: "account_usage u pl q = (pl', q')" by fastforce
  show ?thesis
    using steps_account [OF assms(1), of u pl] account_payload [OF assms(2) a] by (auto simp: a)
qed

lemma steps_deny_host [intro]:
  "handler_steps p q \<Longrightarrow> audit_payload (px_limiter q) pl \<Longrightarrow> handler_steps p (deny_host pl h q)"
  unfolding deny_host_def by (intro steps_respond steps_emit)

lemma steps_finish:
  assumes "handler_steps p (snd res)"
  shows "handler_steps p (finish_http host method path start res)"
proof -
  obtain fr q where res: "res = (fr, q)" by fastforce
  with assms have "handler_steps p q" by simp
  then show ?thesis
    by (auto simp: finish_http_def res intro!: steps_account_emit steps_emit steps_tick
        split: forward_result.splits)
qed

theorem steps_handle_http: "handler_steps p (handle_http r rt p)"
  by (auto simp: handle_http_def Let_def intro!: steps_finish steps_forward steps_http_error steps_emit
      split: option.splits)

lemma forward_facts:
  assumes "forward_http llm u target rt p = (res, q)"
  shows "audits (px_trace q) = audits (px_trace p)"
    and "contacts (px_trace q) = contacts (px_trace p) \<or>
      contacts (px_trace q) = contacts (px_trace p) @ [u_host target]"
    and "configured q = configured p" and "px_session q = px_session p"
    and "px_budget q = px_budget p"
  using assms
  by (auto simp: forward_http_def error_handler_def Let_def
      split: round_trip.splits sum.splits option.splits if_splits)

lemma account_facts [simp]:
  "px_trace (snd (account_usage u pl p)) = px_trace p"
  "configured (snd (account_usage u pl p)) = configured p"
  "px_session (snd (account_usage u pl p)) = px_session p"
  by (auto simp: account_usage_def configured_def Let_def split: option.splits prod.splits)

text \<open>The host that is contacted is the one that was checked.\<close>

lemma upstream_host:
  "upstream_url_for_request r = Some t \<Longrightarrow> request_host r = host_without_port (u_host t)"
  by (auto simp: upstream_url_for_request_def request_host_def Let_def split: option.splits if_splits)

lemma upstream_exists: "request_host r \<noteq> [] \<Longrightarrow> rq_url r = Some u \<Longrightarrow> upstream_url_for_request r \<noteq> None"
  by (auto simp: upstream_url_for_request_def request_host_def split: if_splits)

lemma finish_contacts [simp]:
  "contacts (px_trace (finish_http host method path start (res, q))) = contacts (px_trace q)"
  by (auto simp: finish_http_def split: forward_result.splits prod.splits dest!: arg_cong [where f = snd])

lemma handle_http_contacts:
  "contacts (px_trace (handle_http r rt p)) = contacts (px_trace p) \<or>
   (\<exists>t. contacts (px_trace (handle_http r rt p)) = contacts (px_trace p) @ [u_host t] \<and>
      upstream_url_for_request r = Some t \<and> policy_allows (px_policy p) (request_host r))"
proof -
  have "contacts (px_trace (finish_http h m pa st (forward_http l u t rt (perform (Outgoing o') (tick p))))) = contacts (px_trace p) \<or>
    contacts (px_trace (finish_http h m pa st (forward_http l u t rt (perform (Outgoing o') (tick p))))) = contacts (px_trace p) @ [u_host t]"
    for h m pa st l u t o'
    using forward_facts(2) [of l u t rt "perform (Outgoing o') (tick p)"]
    by (cases "forward_http l u t rt (perform (Outgoing o') (tick p))") auto
  then show ?thesis
    by (auto simp: handle_http_def deny_host_def Let_def split: option.splits)
qed

text \<open>What the forwarding and the handler add to the trace, as far as events and aborts go.\<close>

definition aborted :: "'s proxy \<Rightarrow> bool" where
  "aborted p \<longleftrightarrow> Panic \<in> set (px_trace p)"

lemma aborted_ops [simp]:
  "configured p \<Longrightarrow> aborted (px_emit ty pl p) = aborted p"
  "aborted (perform e p) \<longleftrightarrow> e = Panic \<or> aborted p" "aborted (tick p) = aborted p"
  "aborted (respond n h b p) = aborted p" "aborted (http_error h m n p) = aborted p"
  "aborted (snd (account_usage u pl p)) = aborted p"
  by (auto simp: aborted_def px_emit_def configured_def respond_def http_error_def Let_def
      split: option.splits prod.splits)

lemma forward_aborted:
  "forward_http llm u target rt p = (res, q) \<Longrightarrow> aborted q \<longleftrightarrow> aborted p \<or> res = FwdAbort"
  by (auto simp: forward_http_def error_handler_def Let_def
      split: round_trip.splits sum.splits option.splits if_splits)

text \<open>The events of a state beyond the first \<open>n\<close>.\<close>

definition event_count :: "'s proxy \<Rightarrow> nat" where
  "event_count p = length (audits (px_trace p))"

lemma event_count_ops [simp]:
  "configured p \<Longrightarrow> event_count (px_emit ty pl p) = Suc (event_count p)"
  "event_count (respond n h b p) = event_count p" "event_count (http_error h m n p) = event_count p"
  "event_count (tick p) = event_count p" "event_count (snd (account_usage u pl p)) = event_count p"
  by (simp_all add: event_count_def)

lemma finish_events:
  assumes "configured q" and "\<not> aborted q \<or> res = FwdAbort"
  shows "event_count (finish_http h m pa st (res, q)) =
    (if res = FwdAbort then event_count q else Suc (event_count q))"
    "aborted (finish_http h m pa st (res, q)) = aborted q"
proof -
  have "event_count (px_emit ty pl' (snd a)) = Suc (event_count q)"
    "aborted (px_emit ty pl' (snd a)) = aborted q"
    if "a = account_usage u pl (tick q)" for a u pl ty pl'
    using assms(1) by (simp_all add: that)
  then show "event_count (finish_http h m pa st (res, q)) =
    (if res = FwdAbort then event_count q else Suc (event_count q))"
    "aborted (finish_http h m pa st (res, q)) = aborted q"
    using assms(1)
    by (auto simp: finish_http_def split_beta split: forward_result.splits)
qed

lemma handle_http_events:
  assumes "configured p" and "\<not> aborted p" and "rq_url r \<noteq> None"
  shows "event_count (handle_http r rt p) =
    (if aborted (handle_http r rt p) then event_count p else Suc (event_count p))"
proof -
  have fw: "event_count (finish_http h m pa st (forward_http l u t rt (perform (Outgoing o') (tick p)))) =
    (if aborted (finish_http h m pa st (forward_http l u t rt (perform (Outgoing o') (tick p))))
     then event_count p else Suc (event_count p))" for h m pa st l u t o'
  proof -
    obtain res q where f: "forward_http l u t rt (perform (Outgoing o') (tick p)) = (res, q)" by fastforce
    have c: "configured q" "event_count q = event_count p" "aborted q \<longleftrightarrow> res = FwdAbort"
      using forward_facts [OF f] forward_aborted [OF f] assms by (simp_all add: event_count_def)
    then show ?thesis using finish_events [OF c(1), of res] f by auto
  qed
  show ?thesis
    using assms fw by (auto simp: handle_http_def deny_host_def Let_def split: option.splits)
qed

text \<open>The request handed on is the one the director rewrote.\<close>

lemma forward_outgoings:
  "forward_http llm u target rt p = (res, q) \<Longrightarrow> outgoings (px_trace q) = outgoings (px_trace p)"
  by (auto simp: forward_http_def error_handler_def Let_def
      split: round_trip.splits sum.splits option.splits if_splits)

lemma finish_outgoings [simp]:
  "outgoings (px_trace (finish_http host method path start (res, q))) = outgoings (px_trace q)"
  by (auto simp: finish_http_def split: forward_result.splits prod.splits dest!: arg_cong [where f = snd])

lemma handle_http_outgoings:
  "outgoings (px_trace (handle_http r rt p)) = outgoings (px_trace p) \<or>
   (\<exists>u t. outgoings (px_trace (handle_http r rt p)) = outgoings (px_trace p) @ [director t u r] \<and>
      upstream_url_for_request r = Some t \<and> policy_allows (px_policy p) (request_host r))"
proof -
  have f: "outgoings (px_trace (finish_http h m pa st (forward_http l u t rt q))) = outgoings (px_trace q)"
    for h m pa st l u t q
    using forward_outgoings [of l u t rt q] by (cases "forward_http l u t rt q") auto
  show ?thesis
    by (auto simp: handle_http_def deny_host_def Let_def f split: option.splits)
qed

end
