(* ===== verification/Proxy_Mitm.thy ===== *)
theory Proxy_Mitm
  imports Proxy_Http
begin

text \<open>
  \<open>internal/proxy/mitm.go\<close>: which CONNECT targets are TLS-terminated, the loop over the
  decrypted requests of a connection, and the forwarding of each one. \<open>http.Client.Do\<close> is
  modelled with its redirect policy: it follows up to nine redirects by itself.
\<close>

section \<open>Dispatch\<close>

definition should_mitm :: "mitm_config option \<Rightarrow> string \<Rightarrow> bool" where
  "should_mitm m host =
     (case m of
        None \<Rightarrow> False
      | Some mc \<Rightarrow> if mc_host_patterns mc = [] then False else any_match (mc_host_patterns mc) host)"

section \<open>http.Client.Do\<close>

text \<open>
  One round trip: an error, or a response with its \<open>Location\<close>, resolved against the URL of the
  request.
\<close>

datatype location = NoLocation | BadLocation string | GoTo url

datatype hop = HopError string | HopResponse upstream_response location

text \<open>
  The method of the redirected request, if the status asks for one. A request body cannot be sent
  again, so 307 and 308 are followed only without one.
\<close>

definition redirect_behavior :: "string \<Rightarrow> nat \<Rightarrow> bool \<Rightarrow> string option" where
  "redirect_behavior method status has_body =
     (if status \<in> {301, 302, 303}
      then Some (if method \<noteq> ''GET'' \<and> method \<noteq> ''HEAD'' then ''GET'' else method)
      else if status \<in> {307, 308} then (if has_body then None else Some method)
      else None)"

definition too_many_redirects :: string where
  "too_many_redirects = ''stopped after 10 redirects''"

text \<open>
  The first argument is how many more redirects are followed, the second how \<open>Do\<close> wraps an error
  of its own; the hops are numbered from \<open>i\<close>.
\<close>

fun client_do :: "nat \<Rightarrow> (string \<Rightarrow> string) \<Rightarrow> (nat \<Rightarrow> hop) \<Rightarrow> bool \<Rightarrow> nat \<Rightarrow> string \<Rightarrow> url \<Rightarrow> 's proxy \<Rightarrow>
    (string, upstream_response) result \<times> 's proxy" where
  "client_do k wrap hops has_body i method u p =
     (let p1 = perform (Contact (u_host u)) p in
      case hops i of
        HopError e \<Rightarrow> (Inl e, p1)
      | HopResponse resp loc \<Rightarrow>
          (case redirect_behavior method (ur_status resp) has_body of
             None \<Rightarrow> (Inr resp, p1)
           | Some method' \<Rightarrow>
               (case loc of
                  NoLocation \<Rightarrow> (Inr resp, p1)
                | BadLocation e \<Rightarrow> (Inl e, p1)
                | GoTo u' \<Rightarrow>
                    (case k of
                       0 \<Rightarrow> (Inl (wrap too_many_redirects), p1)
                     | Suc k' \<Rightarrow> client_do k' wrap hops has_body (Suc i) method' u' p1))))"

declare client_do.simps [simp del]

section \<open>One decrypted request\<close>

text \<open>A request as read from the connection, and what forwarding it meets.\<close>

record mitm_exchange =
  me_method :: string
  me_url :: url
  me_host :: string
  me_header :: header
  me_has_body :: bool
  me_hops :: "nat \<Rightarrow> hop"
  me_wrap :: "string \<Rightarrow> string"
  me_write_error :: "string option"

definition write_mitm_error :: "nat \<Rightarrow> string \<Rightarrow> string \<Rightarrow> 's proxy \<Rightarrow> 's proxy" where
  "write_mitm_error status status_text body p =
     perform
       (ClientWrite
          (''HTTP/1.1 '' @ show_nat status @ '' '' @ status_text @ [CHR 0x0D, CHR 0x0A] @
           ''Content-Type: text/plain; charset=utf-8'' @ [CHR 0x0D, CHR 0x0A] @
           ''Content-Length: '' @ show_nat (length body) @ [CHR 0x0D, CHR 0x0A] @
           ''X-Aegrail-Decision: error'' @ [CHR 0x0D, CHR 0x0A] @
           [CHR 0x0D, CHR 0x0A] @ body)) p"

definition exchange_outgoing :: "mitm_exchange \<Rightarrow> outgoing" where
  "exchange_outgoing ex =
     \<lparr>og_method = me_method ex, og_url = me_url ex, og_host = me_host ex, og_header = me_header ex\<rparr>"

definition forward_mitm_request :: "mitm_exchange \<Rightarrow> string \<Rightarrow> string \<Rightarrow> 's proxy \<Rightarrow> 's proxy" where
  "forward_mitm_request ex host target p =
     (let start = now p; method = me_method ex; u = me_url ex; path = u_path u in
      case client_do 9 (me_wrap ex) (me_hops ex) (me_has_body ex) 0 method u
             (perform (Outgoing (exchange_outgoing ex)) (tick p)) of
        (Inl err, p1) \<Rightarrow>
          write_mitm_error 502 ''Bad Gateway'' (''aegrail-engine: upstream error: '' @ err)
            (px_emit type_egress_error
               [(''host'', GStr host), (''target'', GStr target), (''method'', GStr method),
                (''path'', GStr path), (''mitm'', GBool True), (''error'', GStr err),
                (''duration_ms'', GInt (elapsed_ms start p1))] (tick p1))
      | (Inr resp, p1) \<Rightarrow>
          (case ur_read_error resp of
             Some err \<Rightarrow>
               px_emit type_egress_error
                 [(''host'', GStr host), (''target'', GStr target), (''method'', GStr method),
                  (''path'', GStr path), (''mitm'', GBool True),
                  (''error'', GStr (''read upstream body: '' @ err)),
                  (''duration_ms'', GInt (elapsed_ms start p1))] (tick p1)
           | None \<Rightarrow>
               (let usage = parse_response u (ur_body resp) (ur_headers resp);
                    p2 = perform (Forwarded (ur_status resp) (ur_body resp)) p1 in
                case me_write_error ex of
                  Some err \<Rightarrow>
                    px_emit type_egress_error
                      [(''host'', GStr host), (''target'', GStr target), (''method'', GStr method),
                       (''mitm'', GBool True),
                       (''error'', GStr (''write response to client: '' @ err))] p2
                | None \<Rightarrow>
                    (case account_usage usage
                            [(''host'', GStr host), (''target'', GStr target), (''method'', GStr method),
                             (''path'', GStr path), (''status_code'', GInt (of_nat (ur_status resp))),
                             (''duration_ms'', GInt (elapsed_ms start p2)), (''mitm'', GBool True)]
                            (tick p2) of
                       (payload, p3) \<Rightarrow> px_emit type_egress_allowed payload p3))))"

section \<open>The connection\<close>

text \<open>
  What setting the connection up meets (an error text where a step fails), with what the authority
  needs to mint a certificate and the texts of its errors, and the requests read from the
  connection until reading fails.
\<close>

record mitm_io =
  mi_minting :: tls_minting
  mi_instants :: instants
  mi_leaf_text :: "cert_error \<Rightarrow> string"
  mi_hijackable :: bool
  mi_hijack_error :: "string option"
  mi_write_error :: "string option"
  mi_handshake_error :: "string option"
  mi_requests :: "mitm_exchange list"

definition connection_established :: string where
  "connection_established =
     ''HTTP/1.1 200 Connection Established'' @ [CHR 0x0D, CHR 0x0A, CHR 0x0D, CHR 0x0A]"

definition mitm_fail :: "string \<Rightarrow> string \<Rightarrow> 's proxy \<Rightarrow> 's proxy" where
  "mitm_fail host err p =
     px_emit type_egress_error
       [(''host'', GStr host), (''method'', GStr method_connect), (''mitm'', GBool True),
        (''error'', GStr err)] p"

text \<open>What is rewritten in a request before it is forwarded.\<close>

definition rewrite_exchange :: "string \<Rightarrow> mitm_exchange \<Rightarrow> mitm_exchange" where
  "rewrite_exchange target ex =
     ex\<lparr>me_url := (me_url ex)\<lparr>u_scheme := ''https'', u_host := target\<rparr>, me_host := target,
        me_header := strip_proxy_headers (me_header ex)\<rparr>"

fun mitm_loop :: "mitm_exchange list \<Rightarrow> string \<Rightarrow> string \<Rightarrow> 's proxy \<Rightarrow> 's proxy" where
  "mitm_loop [] host target p = tick p"
| "mitm_loop (ex # exs) host target p =
     mitm_loop exs host target (forward_mitm_request (rewrite_exchange target ex) host target (tick p))"

text \<open>The connection from its hijacking on, with the leaf certificate for it.\<close>

definition terminate_tls :: "mitm_io \<Rightarrow> string tls_cert \<Rightarrow> string \<Rightarrow> string \<Rightarrow> 's proxy \<Rightarrow> 's proxy" where
  "terminate_tls io leaf target host p =
     (if \<not> mi_hijackable io then
        http_error [] ''aegrail-engine: server does not support tunneling'' 500
          (mitm_fail host ''response writer does not support hijack'' p)
      else
        (case mi_hijack_error io of
           Some err \<Rightarrow> mitm_fail host (''hijack: '' @ err) p
         | None \<Rightarrow>
             (let p1 = perform (ClientWrite connection_established) (perform Hijacked p) in
              case mi_write_error io of
                Some err \<Rightarrow> perform CloseClient (mitm_fail host (''write 200: '' @ err) p1)
              | None \<Rightarrow>
                  (let p2 = perform (Present host (tc_chain leaf)) p1 in
                   case mi_handshake_error io of
                     Some err \<Rightarrow>
                       perform CloseClient (mitm_fail host (''client TLS handshake: '' @ err) p2)
                   | None \<Rightarrow> perform CloseClient (mitm_loop (mi_requests io) host target p2)))))"

definition handle_mitm :: "mitm_io \<Rightarrow> string \<Rightarrow> string \<Rightarrow> 's proxy \<Rightarrow> 's proxy" where
  "handle_mitm io target host p =
     (case px_mitm p of
        None \<Rightarrow> perform Panic p
      | Some mc \<Rightarrow>
          (let (res, authority) = leaf_for (mi_minting io) (mi_instants io) host (mc_authority mc);
               p1 = p\<lparr>px_mitm := Some (mc\<lparr>mc_authority := authority\<rparr>)\<rparr> in
           case res of
             Inl err \<Rightarrow>
               http_error [] (''aegrail-engine: mint leaf: '' @ mi_leaf_text io err) 500
                 (px_emit type_egress_error
                    [(''host'', GStr host), (''target'', GStr target), (''method'', GStr method_connect),
                     (''mitm'', GBool True), (''error'', GStr (''leaf cert: '' @ mi_leaf_text io err))] p1)
           | Inr leaf \<Rightarrow> terminate_tls io leaf target host p1))"

section \<open>Lemmas\<close>

text \<open>What \<open>Do\<close> does to the proxy is to perform contacts.\<close>

inductive contacting :: "'s proxy \<Rightarrow> 's proxy \<Rightarrow> bool" where
  Done: "contacting p p"
| Next: "contacting (perform (Contact a) p) q \<Longrightarrow> contacting p q"

lemma client_do_first:
  "contacting (perform (Contact (u_host u)) p) (snd (client_do k wrap hops hb i m u p))"
proof (induction k wrap hops hb i m u p rule: client_do.induct)
  case (1 k wrap hops hb i m u p)
  let ?p = "perform (Contact (u_host u)) p"
  have d: "contacting ?p ?p" by (rule contacting.Done)
  show ?case
  proof (cases "hops i")
    case (HopError e)
    with d show ?thesis by (simp add: client_do.simps [of k])
  next
    case hop: (HopResponse resp loc)
    show ?thesis
    proof (cases "redirect_behavior m (ur_status resp) hb")
      case None
      with hop d show ?thesis by (simp add: client_do.simps [of k])
    next
      case (Some m')
      show ?thesis
      proof (cases loc)
        case (GoTo u')
        show ?thesis
        proof (cases k)
          case 0
          with hop Some GoTo d show ?thesis by (simp add: client_do.simps [of 0])
        next
          case (Suc k')
          have "contacting ?p (snd (client_do k' wrap hops hb (Suc i) m' u' ?p))"
            using 1 [OF refl hop Some GoTo Suc] by (rule contacting.Next)
          with hop Some GoTo Suc show ?thesis by (simp add: client_do.simps [of "Suc k'"])
        qed
      qed (use hop Some d in \<open>simp_all add: client_do.simps [of k]\<close>)
    qed
  qed
qed

lemma client_do_contacting: "contacting p (snd (client_do k wrap hops hb i m u p))"
  by (rule contacting.Next [OF client_do_first])

lemma contacting_facts:
  assumes "contacting p q"
  shows "audits (px_trace q) = audits (px_trace p)" "configured q = configured p"
    "outgoings (px_trace q) = outgoings (px_trace p)"
    "px_session q = px_session p" "px_budget q = px_budget p" "aborted q = aborted p"
    "handler_steps r p \<Longrightarrow> handler_steps r q" "px_policy q = px_policy p" "px_mitm q = px_mitm p"
  using assms by (induction rule: contacting.induct) auto

lemmas client_do_facts = contacting_facts [OF client_do_contacting]

text \<open>Without a redirect only the target is contacted.\<close>

definition no_redirect :: "mitm_exchange \<Rightarrow> bool" where
  "no_redirect ex \<longleftrightarrow>
     (case me_hops ex 0 of
        HopError e \<Rightarrow> True
      | HopResponse resp loc \<Rightarrow>
          redirect_behavior (me_method ex) (ur_status resp) (me_has_body ex) = None \<or> loc = NoLocation)"

lemma client_do_contact:
  assumes "no_redirect ex"
  shows "contacts (px_trace (snd (client_do k (me_wrap ex) (me_hops ex) (me_has_body ex) 0 (me_method ex) u p)))
    = contacts (px_trace p) @ [u_host u]"
  using assms
  by (subst client_do.simps)
    (auto simp: no_redirect_def Let_def split: hop.splits option.splits location.splits nat.splits)

lemma write_mitm_error_facts [simp]:
  "audits (px_trace (write_mitm_error n t b p)) = audits (px_trace p)"
  "contacts (px_trace (write_mitm_error n t b p)) = contacts (px_trace p)"
  "aborted (write_mitm_error n t b p) = aborted p"
  "configured (write_mitm_error n t b p) = configured p"
  "event_count (write_mitm_error n t b p) = event_count p"
  by (simp_all add: write_mitm_error_def event_count_def)

lemma steps_write_mitm_error [intro]: "handler_steps p q \<Longrightarrow> handler_steps p (write_mitm_error n t b q)"
  unfolding write_mitm_error_def by (rule steps_perform) auto

lemma steps_contacting: "contacting p q \<Longrightarrow> handler_steps r p \<Longrightarrow> handler_steps r q"
  by (rule contacting_facts(7))

lemma steps_outgoing: "handler_steps r p \<Longrightarrow> handler_steps r (perform (Outgoing o') (tick p))"
  by (intro steps_perform steps_tick) auto

lemma steps_forward_mitm [intro]:
  assumes "handler_steps r p"
  shows "handler_steps r (forward_mitm_request ex host target p)"
proof -
  let ?p0 = "perform (Outgoing (exchange_outgoing ex)) (tick p)"
  let ?c = "client_do 9 (me_wrap ex) (me_hops ex) (me_has_body ex) 0 (me_method ex) (me_url ex) ?p0"
  obtain res q where c: "?c = (res, q)" by fastforce
  have "contacting ?p0 (snd ?c)" by (rule client_do_contacting)
  then have q: "handler_steps r q"
    using steps_contacting [OF _ steps_outgoing [OF assms]] by (simp add: c)
  have "handler_steps r (perform (Forwarded n b) q)" for n b
    using q by (rule steps_perform) simp
  with q show ?thesis
    by (auto simp: forward_mitm_request_def c Let_def split: sum.splits option.splits
        intro!: steps_account_emit steps_emit steps_tick steps_write_mitm_error)
qed

lemma steps_mitm_loop: "handler_steps r p \<Longrightarrow> handler_steps r (mitm_loop exs host target p)"
  by (induction exs arbitrary: p) (simp_all add: steps_forward_mitm steps_tick)

lemma steps_mitm_fail [intro]: "handler_steps r p \<Longrightarrow> handler_steps r (mitm_fail host err p)"
  unfolding mitm_fail_def by (rule steps_emit) simp_all

lemma steps_hijack: "handler_steps r p \<Longrightarrow> handler_steps r (perform (ClientWrite t) (perform Hijacked p))"
  by (intro steps_perform) auto

lemma steps_close: "handler_steps r p \<Longrightarrow> handler_steps r (perform CloseClient p)"
  "handler_steps r p \<Longrightarrow> handler_steps r (perform CloseUpstream p)"
  "handler_steps r p \<Longrightarrow> handler_steps r (perform (Contact a) p)"
  "handler_steps r p \<Longrightarrow> handler_steps r (perform Hijacked p)"
  "handler_steps r p \<Longrightarrow> handler_steps r (perform Panic p)"
  by (rule steps_perform; simp)+

lemma steps_present: "handler_steps r p \<Longrightarrow> handler_steps r (perform (Present host chain) p)"
  by (rule steps_perform) auto

lemma steps_terminate: "handler_steps r p \<Longrightarrow> handler_steps r (terminate_tls io leaf target host p)"
  by (auto simp: terminate_tls_def Let_def split: option.splits
      intro!: steps_close steps_mitm_loop steps_hijack steps_http_error steps_present steps_mitm_fail)

lemma steps_mint:
  "handler_steps r p \<Longrightarrow> px_mitm p = Some mc \<Longrightarrow> leaf_for (m :: tls_minting) t host (mc_authority mc) = (res, a) \<Longrightarrow>
   handler_steps r (p\<lparr>px_mitm := Some (mc\<lparr>mc_authority := a\<rparr>)\<rparr>)"
  using handler_step.Mint [of p mc m t host] by (auto intro: steps_step)

lemma steps_handle_mitm: "handler_steps r p \<Longrightarrow> handler_steps r (handle_mitm io target host p)"
  by (auto simp: handle_mitm_def Let_def split: option.splits prod.splits sum.splits
      intro!: steps_terminate steps_mint steps_http_error steps_emit steps_close)

text \<open>One event per decrypted request, and one for a connection that fails to be set up.\<close>

lemma forward_mitm_facts:
  assumes "configured p"
  shows "event_count (forward_mitm_request ex host target p) = Suc (event_count p)"
    and "configured (forward_mitm_request ex host target p)"
    and "aborted (forward_mitm_request ex host target p) = aborted p"
proof -
  let ?p0 = "perform (Outgoing (exchange_outgoing ex)) (tick p)"
  let ?c = "client_do 9 (me_wrap ex) (me_hops ex) (me_has_body ex) 0 (me_method ex) (me_url ex) ?p0"
  obtain res q where c: "?c = (res, q)" by fastforce
  have "contacting ?p0 (snd ?c)" by (rule client_do_contacting)
  from contacting_facts(1,2,6) [OF this]
  have q: "event_count q = event_count p" "configured q" "aborted q = aborted p"
    using assms by (simp_all add: c event_count_def)
  have ec: "event_count (perform (Forwarded n b) q) = event_count p" for n b
    using q(1) by (simp add: event_count_def)
  note sp = forward_mitm_request_def c Let_def split_beta
  show "event_count (forward_mitm_request ex host target p) = Suc (event_count p)"
    "configured (forward_mitm_request ex host target p)"
    "aborted (forward_mitm_request ex host target p) = aborted p"
    using q ec by (auto simp: sp split: sum.splits option.splits)
qed

lemma mitm_loop_facts:
  assumes "configured p"
  shows "event_count (mitm_loop exs host target p) = event_count p + length exs \<and>
    aborted (mitm_loop exs host target p) = aborted p \<and> configured (mitm_loop exs host target p)"
  using assms by (induction exs arbitrary: p) (simp_all add: forward_mitm_facts)

lemma forward_mitm_contacts:
  assumes "no_redirect ex"
  shows "contacts (px_trace (forward_mitm_request ex host target p)) = contacts (px_trace p) @ [u_host (me_url ex)]"
proof -
  let ?p0 = "perform (Outgoing (exchange_outgoing ex)) (tick p)"
  let ?c = "client_do 9 (me_wrap ex) (me_hops ex) (me_has_body ex) 0 (me_method ex) (me_url ex) ?p0"
  obtain res q where c: "?c = (res, q)" by fastforce
  have "contacts (px_trace q) = contacts (px_trace p) @ [u_host (me_url ex)]"
    using client_do_contact [OF assms, where k = 9 and u = "me_url ex" and p = ?p0] by (simp add: c)
  then show ?thesis
    by (auto simp: forward_mitm_request_def c Let_def split_beta split: sum.splits option.splits)
qed

lemma rewrite_exchange_simps [simp]:
  "no_redirect (rewrite_exchange target ex) = no_redirect ex"
  "u_host (me_url (rewrite_exchange target ex)) = target"
  by (simp_all add: rewrite_exchange_def no_redirect_def split: hop.split)

lemma mitm_loop_contacts:
  assumes "\<forall>ex \<in> set exs. no_redirect ex"
  shows "contacts (px_trace (mitm_loop exs host target p)) =
    contacts (px_trace p) @ replicate (length exs) target"
  using assms by (induction exs arbitrary: p) (simp_all add: forward_mitm_contacts)

text \<open>The requests sent on, in order, whatever becomes of them.\<close>

lemma write_mitm_error_outgoings [simp]:
  "outgoings (px_trace (write_mitm_error n t b p)) = outgoings (px_trace p)"
  by (simp add: write_mitm_error_def)

lemma forward_mitm_outgoings:
  "outgoings (px_trace (forward_mitm_request ex host target p)) =
     outgoings (px_trace p) @ [exchange_outgoing ex]"
proof -
  let ?p0 = "perform (Outgoing (exchange_outgoing ex)) (tick p)"
  let ?c = "client_do 9 (me_wrap ex) (me_hops ex) (me_has_body ex) 0 (me_method ex) (me_url ex) ?p0"
  obtain res q where c: "?c = (res, q)" by fastforce
  have "contacting ?p0 (snd ?c)" by (rule client_do_contacting)
  from contacting_facts(3) [OF this]
  have "outgoings (px_trace q) = outgoings (px_trace p) @ [exchange_outgoing ex]" by (simp add: c)
  then show ?thesis
    by (auto simp: forward_mitm_request_def c Let_def split_beta split: sum.splits option.splits)
qed

lemma mitm_loop_outgoings:
  "outgoings (px_trace (mitm_loop exs host target p)) =
     outgoings (px_trace p) @ map (\<lambda>ex. exchange_outgoing (rewrite_exchange target ex)) exs"
  by (induction exs arbitrary: p) (simp_all add: forward_mitm_outgoings)

end
