(* ===== verification/Proxy_Tunnel.thy ===== *)
theory Proxy_Tunnel
  imports Prelude
begin

text \<open>
  The two concurrent relays of a CONNECT tunnel (\<open>relay\<close> and the end of \<open>handleConnect\<close> in
  \<open>internal/proxy/connect.go\<close>) as a transition system. \<open>relay(dst, src, counter)\<close> copies from
  \<open>src\<close> to \<open>dst\<close>, stores the number of bytes in its counter when the copy has ended, and then
  closes both connections. The goroutine runs \<open>relay(clientConn, upstream, &bytesToUpstream)\<close>,
  the handler itself \<open>relay(upstream, clientConn, &bytesFromUpstream)\<close>; when the latter returns
  the handler loads both counters for the audit event.
\<close>

section \<open>The state\<close>

text \<open>
  For each relay: the bytes copied, whether the copy has ended, whether the counter has been
  stored and whether the deferred closes have run. The background relay carries upstream's bytes
  to the client (down), the foreground relay the client's to upstream (up).
\<close>

record relay_state =
  rs_copied :: nat
  rs_ended :: bool
  rs_stored :: bool
  rs_closed :: bool

record tunnel =
  tn_down :: relay_state
  tn_up :: relay_state
  tn_to_upstream :: nat
  tn_from_upstream :: nat
  tn_open :: bool
  tn_loaded_to :: "nat option"
  tn_event :: "(nat \<times> nat) option"

definition fresh_relay :: relay_state where
  "fresh_relay = \<lparr>rs_copied = 0, rs_ended = False, rs_stored = False, rs_closed = False\<rparr>"

definition new_tunnel :: tunnel where
  "new_tunnel =
     \<lparr>tn_down = fresh_relay, tn_up = fresh_relay, tn_to_upstream = 0, tn_from_upstream = 0,
      tn_open = True, tn_loaded_to = None, tn_event = None\<rparr>"

section \<open>Steps\<close>

text \<open>
  Data moves only while the connections are open; a copy may end at any time, on EOF, an error or
  a closed connection. \<open>bytesToUpstream\<close> is loaded before \<open>bytesFromUpstream\<close>.
\<close>

inductive tunnel_step :: "tunnel \<Rightarrow> tunnel \<Rightarrow> bool" where
  CopyDown: "\<not> rs_ended (tn_down t) \<Longrightarrow> tn_open t \<Longrightarrow>
    tunnel_step t (t\<lparr>tn_down := (tn_down t)\<lparr>rs_copied := rs_copied (tn_down t) + k\<rparr>\<rparr>)"
| CopyUp: "\<not> rs_ended (tn_up t) \<Longrightarrow> tn_open t \<Longrightarrow>
    tunnel_step t (t\<lparr>tn_up := (tn_up t)\<lparr>rs_copied := rs_copied (tn_up t) + k\<rparr>\<rparr>)"
| EndDown: "\<not> rs_ended (tn_down t) \<Longrightarrow> tunnel_step t (t\<lparr>tn_down := (tn_down t)\<lparr>rs_ended := True\<rparr>\<rparr>)"
| EndUp: "\<not> rs_ended (tn_up t) \<Longrightarrow> tunnel_step t (t\<lparr>tn_up := (tn_up t)\<lparr>rs_ended := True\<rparr>\<rparr>)"
| StoreDown: "rs_ended (tn_down t) \<Longrightarrow> \<not> rs_stored (tn_down t) \<Longrightarrow>
    tunnel_step t (t\<lparr>tn_to_upstream := rs_copied (tn_down t),
                     tn_down := (tn_down t)\<lparr>rs_stored := True\<rparr>\<rparr>)"
| StoreUp: "rs_ended (tn_up t) \<Longrightarrow> \<not> rs_stored (tn_up t) \<Longrightarrow>
    tunnel_step t (t\<lparr>tn_from_upstream := rs_copied (tn_up t),
                     tn_up := (tn_up t)\<lparr>rs_stored := True\<rparr>\<rparr>)"
| CloseDown: "rs_stored (tn_down t) \<Longrightarrow> \<not> rs_closed (tn_down t) \<Longrightarrow>
    tunnel_step t (t\<lparr>tn_open := False, tn_down := (tn_down t)\<lparr>rs_closed := True\<rparr>\<rparr>)"
| CloseUp: "rs_stored (tn_up t) \<Longrightarrow> \<not> rs_closed (tn_up t) \<Longrightarrow>
    tunnel_step t (t\<lparr>tn_open := False, tn_up := (tn_up t)\<lparr>rs_closed := True\<rparr>\<rparr>)"
| LoadTo: "rs_closed (tn_up t) \<Longrightarrow> tn_loaded_to t = None \<Longrightarrow>
    tunnel_step t (t\<lparr>tn_loaded_to := Some (tn_to_upstream t)\<rparr>)"
| LoadFrom: "tn_loaded_to t = Some n \<Longrightarrow> tn_event t = None \<Longrightarrow>
    tunnel_step t (t\<lparr>tn_event := Some (n, tn_from_upstream t)\<rparr>)"

inductive reachable :: "tunnel \<Rightarrow> bool" where
  Start: "reachable new_tunnel"
| Step: "reachable t \<Longrightarrow> tunnel_step t t' \<Longrightarrow> reachable t'"

section \<open>The invariant\<close>

text \<open>
  A counter is zero or the final number of bytes of its relay; the foreground relay's counter has
  been stored when the handler loads it.
\<close>

definition relay_ordered :: "relay_state \<Rightarrow> bool" where
  "relay_ordered r \<longleftrightarrow> (rs_closed r \<longrightarrow> rs_stored r) \<and> (rs_stored r \<longrightarrow> rs_ended r)"

definition counter_ok :: "nat \<Rightarrow> relay_state \<Rightarrow> bool" where
  "counter_ok n r \<longleftrightarrow> (if rs_stored r then n = rs_copied r else n = 0)"

definition tunnel_inv :: "tunnel \<Rightarrow> bool" where
  "tunnel_inv t \<longleftrightarrow>
     relay_ordered (tn_down t) \<and> relay_ordered (tn_up t) \<and>
     counter_ok (tn_to_upstream t) (tn_down t) \<and> counter_ok (tn_from_upstream t) (tn_up t) \<and>
     (tn_open t \<longleftrightarrow> \<not> rs_closed (tn_down t) \<and> \<not> rs_closed (tn_up t)) \<and>
     (\<forall>n. tn_loaded_to t = Some n \<longrightarrow> rs_closed (tn_up t) \<and>
        (n = 0 \<or> rs_ended (tn_down t) \<and> n = rs_copied (tn_down t))) \<and>
     (\<forall>a b. tn_event t = Some (a, b) \<longrightarrow>
        tn_loaded_to t = Some a \<and> b = rs_copied (tn_up t))"

lemma tunnel_inv_new: "tunnel_inv new_tunnel"
  by (simp add: tunnel_inv_def new_tunnel_def fresh_relay_def relay_ordered_def counter_ok_def)

lemma tunnel_inv_step: "tunnel_step t t' \<Longrightarrow> tunnel_inv t \<Longrightarrow> tunnel_inv t'"
  by (induction rule: tunnel_step.induct)
    (auto simp: tunnel_inv_def relay_ordered_def counter_ok_def split: if_splits)

lemma reachable_inv: "reachable t \<Longrightarrow> tunnel_inv t"
  by (induction rule: reachable.induct) (auto intro: tunnel_inv_new tunnel_inv_step)

lemma reachable_steps: "tunnel_step\<^sup>*\<^sup>* t t' \<Longrightarrow> reachable t \<Longrightarrow> reachable t'"
  by (induction rule: rtranclp_induct) (auto intro: reachable.Step)

section \<open>Properties\<close>

text \<open>
  C26. The byte counts of a tunnel's audit event are swapped: what is reported as bytes from
  upstream is what the client sent to upstream, and what is reported as bytes to upstream is what
  upstream sent to the client, or zero when the goroutine has not stored its count yet.
\<close>

theorem tunnel_counters_swapped:
  assumes "reachable t" and "tn_event t = Some (to_up, from_up)"
  shows "from_up = rs_copied (tn_up t) \<and> (to_up = 0 \<or> to_up = rs_copied (tn_down t))"
  using reachable_inv [OF assms(1)] assms(2) by (auto simp: tunnel_inv_def)

text \<open>An execution that moves bytes both ways and loads the counters before or after the goroutine stores.\<close>

definition busy_tunnel :: "nat \<Rightarrow> nat \<Rightarrow> tunnel" where
  "busy_tunnel up down =
     new_tunnel\<lparr>tn_down := \<lparr>rs_copied = down, rs_ended = False, rs_stored = False, rs_closed = False\<rparr>,
                tn_up := \<lparr>rs_copied = up, rs_ended = True, rs_stored = True, rs_closed = True\<rparr>,
                tn_from_upstream := up, tn_open := False\<rparr>"

lemma reach_busy: "reachable (busy_tunnel up down)"
proof -
  let ?t1 = "new_tunnel\<lparr>tn_down := (tn_down new_tunnel)\<lparr>rs_copied := rs_copied (tn_down new_tunnel) + down\<rparr>\<rparr>"
  have "reachable ?t1"
    by (rule reachable.Step [OF reachable.Start tunnel_step.CopyDown])
      (simp_all add: new_tunnel_def fresh_relay_def)
  from reachable.Step [OF this tunnel_step.CopyUp [where k = up]]
  have 2: "reachable (?t1\<lparr>tn_up := (tn_up ?t1)\<lparr>rs_copied := rs_copied (tn_up ?t1) + up\<rparr>\<rparr>)" (is "reachable ?t2")
    by (simp add: new_tunnel_def fresh_relay_def)
  from reachable.Step [OF 2 tunnel_step.EndUp]
  have 3: "reachable (?t2\<lparr>tn_up := (tn_up ?t2)\<lparr>rs_ended := True\<rparr>\<rparr>)" (is "reachable ?t3")
    by (simp add: new_tunnel_def fresh_relay_def)
  from reachable.Step [OF 3 tunnel_step.StoreUp]
  have 4: "reachable (?t3\<lparr>tn_from_upstream := rs_copied (tn_up ?t3), tn_up := (tn_up ?t3)\<lparr>rs_stored := True\<rparr>\<rparr>)"
    (is "reachable ?t4")
    by (simp add: new_tunnel_def fresh_relay_def)
  from reachable.Step [OF 4 tunnel_step.CloseUp]
  have "reachable (?t4\<lparr>tn_open := False, tn_up := (tn_up ?t4)\<lparr>rs_closed := True\<rparr>\<rparr>)"
    by (simp add: new_tunnel_def fresh_relay_def)
  then show ?thesis by (simp add: busy_tunnel_def new_tunnel_def fresh_relay_def)
qed

theorem tunnel_counters_swapped_witness:
  "\<exists>t a b. reachable t \<and> tn_event t = Some (a, b) \<and> rs_copied (tn_up t) = 10 \<and>
     rs_copied (tn_down t) = 500 \<and> b = 10 \<and> a = 0"
proof -
  let ?b = "busy_tunnel 10 500"
  let ?t = "?b\<lparr>tn_loaded_to := Some 0, tn_event := Some (0, 10)\<rparr>"
  have "tunnel_step\<^sup>*\<^sup>* ?b ?t"
    using tunnel_step.LoadTo [of ?b] tunnel_step.LoadFrom [of "?b\<lparr>tn_loaded_to := Some 0\<rparr>" 0]
    by (auto simp: busy_tunnel_def new_tunnel_def)
  then have r: "reachable ?t" using reachable_steps reach_busy by blast
  then show ?thesis
    using tunnel_counters_swapped [OF r, of 0 10]
    by (intro exI [of _ ?t]) (simp add: busy_tunnel_def)
qed

lemma one_step: "tunnel_step t t' \<Longrightarrow> P t' \<Longrightarrow> \<exists>u. tunnel_step\<^sup>*\<^sup>* t u \<and> P u"
  by blast

lemma finish_up:
  assumes "reachable t"
  shows "\<exists>t'. tunnel_step\<^sup>*\<^sup>* t t' \<and> rs_closed (tn_up t') \<and> tn_event t' = tn_event t"
proof -
  have 1: "\<exists>t'. tunnel_step\<^sup>*\<^sup>* t t' \<and> rs_ended (tn_up t') \<and> tn_event t' = tn_event t"
  proof (cases "rs_ended (tn_up t)")
    case False
    show ?thesis by (rule one_step [OF tunnel_step.EndUp [OF False]]) simp
  qed auto
  have 2: "\<exists>t'. tunnel_step\<^sup>*\<^sup>* t t' \<and> rs_stored (tn_up t') \<and> tn_event t' = tn_event t"
    if "rs_ended (tn_up t)" for t
  proof (cases "rs_stored (tn_up t)")
    case False
    show ?thesis by (rule one_step [OF tunnel_step.StoreUp [OF that False]]) simp
  qed auto
  have 3: "\<exists>t'. tunnel_step\<^sup>*\<^sup>* t t' \<and> rs_closed (tn_up t') \<and> tn_event t' = tn_event t"
    if "rs_stored (tn_up t)" for t
  proof (cases "rs_closed (tn_up t)")
    case False
    show ?thesis by (rule one_step [OF tunnel_step.CloseUp [OF that False]]) simp
  qed auto
  from 1 2 3 show ?thesis by (metis rtranclp_trans)
qed

text \<open>
  A tunnel always comes to its event: from every reachable state without an event, whatever
  the connections have done so far, the handler can reach the point where it emits it.
\<close>

theorem tunnel_reaches_event:
  assumes "reachable t"
  shows "\<exists>t'. tunnel_step\<^sup>*\<^sup>* t t' \<and> tn_event t' \<noteq> None"
proof (cases "tn_event t")
  case None
  obtain u where u: "tunnel_step\<^sup>*\<^sup>* t u" "rs_closed (tn_up u)" "tn_event u = None"
    using finish_up [OF assms] None by auto
  have "\<exists>v n. tunnel_step\<^sup>*\<^sup>* u v \<and> tn_loaded_to v = Some n \<and> tn_event v = None"
  proof (cases "tn_loaded_to u")
    case None
    have "\<exists>v. tunnel_step\<^sup>*\<^sup>* u v \<and> (tn_loaded_to v = Some (tn_to_upstream u) \<and> tn_event v = None)"
      by (rule one_step [OF tunnel_step.LoadTo [OF u(2) None]]) (simp add: u(3))
    then show ?thesis by blast
  qed (use u(3) in auto)
  then obtain v n where v: "tunnel_step\<^sup>*\<^sup>* u v" "tn_loaded_to v = Some n" "tn_event v = None" by blast
  from tunnel_step.LoadFrom [OF v(2,3)] have "tunnel_step v (v\<lparr>tn_event := Some (n, tn_from_upstream v)\<rparr>)" .
  with u(1) v(1) have "tunnel_step\<^sup>*\<^sup>* t (v\<lparr>tn_event := Some (n, tn_from_upstream v)\<rparr>)" by simp
  then show ?thesis by (intro exI conjI) auto
qed auto

theorem tunnel_reaches_event_witness:
  "\<exists>t. tunnel_step\<^sup>*\<^sup>* (busy_tunnel 3 4) t \<and> tn_event t \<noteq> None"
  by (rule tunnel_reaches_event [OF reach_busy])

end
