(* ===== verification/Proxy_Connect.thy ===== *)
theory Proxy_Connect
  imports Proxy_Mitm Proxy_Tunnel
begin

text \<open>
  \<open>handleConnect\<close> of \<open>internal/proxy/connect.go\<close>. The outcomes of dialing, hijacking and writing
  are inputs, and so are the two byte counters as the handler loads them after its relay
  (\<open>Proxy_Tunnel\<close> is the model of the relays that store them).
\<close>

section \<open>The handler\<close>

record tunnel_io =
  ti_dial_error :: "string option"
  ti_hijackable :: bool
  ti_hijack_error :: "string option"
  ti_write_error :: "string option"
  ti_loaded :: "nat \<times> nat"

definition connect_target :: "url \<Rightarrow> request \<Rightarrow> string" where
  "connect_target u r = (if u_host u = [] then rq_host r else u_host u)"

definition connect_payload :: "string \<Rightarrow> string \<Rightarrow> gmap" where
  "connect_payload host target =
     [(''host'', GStr host), (''target'', GStr target), (''method'', GStr method_connect)]"

definition tunnel_error :: "string \<Rightarrow> string \<Rightarrow> string \<Rightarrow> 's proxy \<Rightarrow> 's proxy" where
  "tunnel_error host target err p =
     px_emit ''egress_error'' (connect_payload host target @ [(''error'', GStr err)]) p"

text \<open>The two relays, from the reading of the clock to the event.\<close>

definition relay_tunnel :: "tunnel_io \<Rightarrow> string \<Rightarrow> string \<Rightarrow> 's proxy \<Rightarrow> 's proxy" where
  "relay_tunnel io host target p =
     (let start = now p; p2 = perform CloseUpstream (perform CloseClient (tick p)) in
      px_emit ''egress_allowed''
        (connect_payload host target @
         [(''bytes_to_upstream'', GInt (of_nat (fst (ti_loaded io)))),
          (''bytes_from_upstream'', GInt (of_nat (snd (ti_loaded io)))),
          (''duration_ms'', GInt (elapsed_ms start p2))]) (tick p2))"

text \<open>The tunnel once the client's connection is taken over.\<close>

definition finish_tunnel :: "tunnel_io \<Rightarrow> string \<Rightarrow> string \<Rightarrow> 's proxy \<Rightarrow> 's proxy" where
  "finish_tunnel io host target p =
     (let p1 = perform (ClientWrite connection_established) (perform Hijacked p) in
      case ti_write_error io of
        Some err \<Rightarrow>
          tunnel_error host target (''write 200: '' @ err)
            (perform CloseUpstream (perform CloseClient p1))
      | None \<Rightarrow> relay_tunnel io host target p1)"

definition open_tunnel :: "tunnel_io \<Rightarrow> string \<Rightarrow> string \<Rightarrow> 's proxy \<Rightarrow> 's proxy" where
  "open_tunnel io host target p =
     (let p0 = perform (Contact target) p in
      case ti_dial_error io of
        Some err \<Rightarrow>
          http_error [(''X-Aegrail-Decision'', ''error'')] (''aegrail-engine: dial upstream: '' @ err) 502
            (tunnel_error host target err p0)
      | None \<Rightarrow>
          if \<not> ti_hijackable io then
            http_error [] ''aegrail-engine: server does not support tunneling'' 500
              (tunnel_error host target ''response writer does not support hijack''
                 (perform CloseUpstream p0))
          else
            (case ti_hijack_error io of
               Some err \<Rightarrow> tunnel_error host target (''hijack: '' @ err) (perform CloseUpstream p0)
             | None \<Rightarrow> finish_tunnel io host target p0))"

definition handle_connect :: "request \<Rightarrow> mitm_io \<Rightarrow> tunnel_io \<Rightarrow> 's proxy \<Rightarrow> 's proxy" where
  "handle_connect r mio tio p =
     (case rq_url r of
        None \<Rightarrow> perform Panic p
      | Some u \<Rightarrow>
          (let target = connect_target u r; host = host_without_port target in
           if host = [] then
             http_error [] ''aegrail-engine: missing CONNECT target'' 400
               (px_emit ''egress_error''
                  [(''method'', GStr method_connect), (''error'', GStr ''no CONNECT target'')] p)
           else if \<not> policy_allows (px_policy p) host then
             deny_host (connect_payload host target @ [(''reason'', GStr ''not_in_allowlist'')]) host p
           else if should_mitm (px_mitm p) host then handle_mitm mio target host p
           else open_tunnel tio host target p))"

section \<open>Steps\<close>

lemma steps_tunnel_error [intro]: "handler_steps p q \<Longrightarrow> handler_steps p (tunnel_error h t e q)"
  unfolding tunnel_error_def connect_payload_def by (rule steps_emit) simp_all

lemma connect_payload_audit [simp]: "audit_payload l (connect_payload h t)"
  by (simp add: connect_payload_def)

lemma steps_finish_tunnel: "handler_steps p q \<Longrightarrow> handler_steps p (finish_tunnel io h t q)"
  by (auto simp: finish_tunnel_def relay_tunnel_def Let_def intro!: steps_close steps_hijack steps_emit steps_tick steps_tunnel_error split: option.splits)

lemma steps_open_tunnel: "handler_steps p q \<Longrightarrow> handler_steps p (open_tunnel io h t q)"
  by (auto simp: open_tunnel_def Let_def split: option.splits
      intro!: steps_close steps_finish_tunnel steps_http_error steps_tunnel_error)

theorem steps_handle_connect: "handler_steps p (handle_connect r mio tio p)"
  by (auto simp: handle_connect_def Let_def split: option.splits
      intro!: steps_close steps_open_tunnel steps_handle_mitm steps_http_error steps_emit steps_deny_host)

section \<open>Contacts and events\<close>

lemma tunnel_error_facts [simp]:
  "contacts (px_trace (tunnel_error h t e p)) = contacts (px_trace p)"
  "statuses (px_trace (tunnel_error h t e p)) = statuses (px_trace p)"
  "configured (tunnel_error h t e p) = configured p"
  "configured p \<Longrightarrow> event_count (tunnel_error h t e p) = Suc (event_count p)"
  "configured p \<Longrightarrow> aborted (tunnel_error h t e p) = aborted p"
  by (simp_all add: tunnel_error_def)

lemma open_tunnel_contacts:
  "contacts (px_trace (open_tunnel io h t p)) = contacts (px_trace p) @ [t]"
  by (auto simp: open_tunnel_def finish_tunnel_def relay_tunnel_def Let_def split: option.splits)

lemma event_count_perform [simp]: "(\<And>ev. e \<noteq> Audit ev) \<Longrightarrow> event_count (perform e p) = event_count p"
  by (cases e) (auto simp: event_count_def)

lemma open_tunnel_events:
  assumes "configured p"
  shows "event_count (open_tunnel io h t p) = Suc (event_count p)"
    and "aborted (open_tunnel io h t p) = aborted p"
  using assms by (auto simp: open_tunnel_def finish_tunnel_def relay_tunnel_def Let_def split: option.splits)

lemma mitm_fail_facts [simp]:
  "contacts (px_trace (mitm_fail h e p)) = contacts (px_trace p)"
  "statuses (px_trace (mitm_fail h e p)) = statuses (px_trace p)"
  "configured (mitm_fail h e p) = configured p"
  "configured p \<Longrightarrow> event_count (mitm_fail h e p) = Suc (event_count p)"
  "configured p \<Longrightarrow> aborted (mitm_fail h e p) = aborted p"
  by (simp_all add: mitm_fail_def)

text \<open>Whether the decrypted requests of a connection are reached.\<close>

definition tls_opens :: "mitm_io \<Rightarrow> bool" where
  "tls_opens io \<longleftrightarrow> mi_hijackable io \<and> mi_hijack_error io = None \<and>
     mi_write_error io = None \<and> mi_handshake_error io = None"

definition leaf_minted :: "mitm_io \<Rightarrow> string \<Rightarrow> mitm_config option \<Rightarrow> bool" where
  "leaf_minted io host m \<longleftrightarrow>
     (case m of
        None \<Rightarrow> False
      | Some mc \<Rightarrow>
          (case fst (leaf_for (mi_minting io) (mi_instants io) host (mc_authority mc)) of
             Inl _ \<Rightarrow> False | Inr _ \<Rightarrow> True))"

definition mitm_opens :: "mitm_io \<Rightarrow> string \<Rightarrow> mitm_config option \<Rightarrow> bool" where
  "mitm_opens io host m \<longleftrightarrow> leaf_minted io host m \<and> tls_opens io"

lemma terminate_opens:
  "tls_opens io \<Longrightarrow> terminate_tls io leaf target host p =
     perform CloseClient (mitm_loop (mi_requests io) host target (perform (Present host (tc_chain leaf))
       (perform (ClientWrite connection_established) (perform Hijacked p))))"
  by (simp add: tls_opens_def terminate_tls_def)

lemma mitm_update [simp]:
  "configured (p\<lparr>px_mitm := m\<rparr>) = configured p" "aborted (p\<lparr>px_mitm := m\<rparr>) = aborted p"
  "event_count (p\<lparr>px_mitm := m\<rparr>) = event_count p"
  by (simp_all add: configured_def aborted_def event_count_def)

lemma terminate_events:
  assumes "configured p"
  shows "event_count (terminate_tls io leaf target host p) =
      event_count p + (if tls_opens io then length (mi_requests io) else 1)"
    and "aborted (terminate_tls io leaf target host p) = aborted p"
proof -
  have "event_count (terminate_tls io leaf target host p) = event_count p + length (mi_requests io) \<and>
    aborted (terminate_tls io leaf target host p) = aborted p" if "tls_opens io"
    using assms by (simp add: terminate_opens that mitm_loop_facts)
  moreover have "event_count (terminate_tls io leaf target host p) = Suc (event_count p) \<and>
    aborted (terminate_tls io leaf target host p) = aborted p" if "\<not> tls_opens io"
    using that assms by (auto simp: terminate_tls_def tls_opens_def Let_def split: option.splits)
  ultimately show "event_count (terminate_tls io leaf target host p) =
      event_count p + (if tls_opens io then length (mi_requests io) else 1)"
    and "aborted (terminate_tls io leaf target host p) = aborted p" by auto
qed

text \<open>A call of \<open>handleMITM\<close> either fails for want of a certificate or goes on with one.\<close>

lemma handle_mitm_cases:
  assumes "px_mitm p = Some mc"
  obtains (Unsigned) err a where
      "leaf_for (mi_minting io) (mi_instants io) host (mc_authority mc) = (Inl err, a)"
      and "\<not> leaf_minted io host (px_mitm p)"
      and "handle_mitm io target host p =
        http_error [] (''aegrail-engine: mint leaf: '' @ mi_leaf_text io err) 500
          (px_emit type_egress_error
             [(''host'', GStr host), (''target'', GStr target), (''method'', GStr method_connect),
              (''mitm'', GBool True), (''error'', GStr (''leaf cert: '' @ mi_leaf_text io err))]
             (p\<lparr>px_mitm := Some (mc\<lparr>mc_authority := a\<rparr>)\<rparr>))"
  | (Signed) leaf a where
      "leaf_for (mi_minting io) (mi_instants io) host (mc_authority mc) = (Inr leaf, a)"
      and "leaf_minted io host (px_mitm p)"
      and "handle_mitm io target host p =
        terminate_tls io leaf target host (p\<lparr>px_mitm := Some (mc\<lparr>mc_authority := a\<rparr>)\<rparr>)"
proof -
  obtain res a where l: "leaf_for (mi_minting io) (mi_instants io) host (mc_authority mc) = (res, a)"
    by fastforce
  show thesis
  proof (cases res)
    case (Inl err)
    with l assms Unsigned [of err a] show thesis by (simp add: handle_mitm_def leaf_minted_def)
  next
    case (Inr leaf)
    with l assms Signed [of leaf a] show thesis by (simp add: handle_mitm_def leaf_minted_def)
  qed
qed

lemma should_mitm_Some: "should_mitm m host \<Longrightarrow> \<exists>mc. m = Some mc"
  by (cases m) (simp_all add: should_mitm_def)

lemma handle_mitm_events:
  assumes "configured p" and "px_mitm p \<noteq> None"
  shows "event_count (handle_mitm io target host p) =
      event_count p + (if mitm_opens io host (px_mitm p) then length (mi_requests io) else 1)"
    and "aborted (handle_mitm io target host p) = aborted p"
proof -
  obtain mc where mc: "px_mitm p = Some mc" using assms(2) by blast
  then have "event_count (handle_mitm io target host p) =
      event_count p + (if mitm_opens io host (px_mitm p) then length (mi_requests io) else 1) \<and>
    aborted (handle_mitm io target host p) = aborted p"
    by (cases rule: handle_mitm_cases [where io = io and host = host and target = target])
      (simp_all add: assms(1) mitm_opens_def terminate_events)
  then show "event_count (handle_mitm io target host p) =
      event_count p + (if mitm_opens io host (px_mitm p) then length (mi_requests io) else 1)"
    and "aborted (handle_mitm io target host p) = aborted p" by blast+
qed

lemma terminate_contacts:
  assumes "\<forall>ex \<in> set (mi_requests io). no_redirect ex"
  shows "contacts (px_trace (terminate_tls io leaf target host p)) = contacts (px_trace p) @
    (if tls_opens io then replicate (length (mi_requests io)) target else [])"
  by (auto simp: terminate_tls_def tls_opens_def Let_def mitm_loop_contacts [OF assms]
      split: option.splits)

lemma handle_mitm_contacts:
  assumes "\<forall>ex \<in> set (mi_requests io). no_redirect ex"
  shows "contacts (px_trace (handle_mitm io target host p)) = contacts (px_trace p) @
    (if mitm_opens io host (px_mitm p) then replicate (length (mi_requests io)) target else [])"
proof (cases "px_mitm p")
  case None
  then show ?thesis by (simp add: handle_mitm_def mitm_opens_def leaf_minted_def)
next
  case (Some mc)
  then show ?thesis
    by (cases rule: handle_mitm_cases [where io = io and host = host and target = target])
      (simp_all add: mitm_opens_def terminate_contacts [OF assms])
qed

lemma handle_connect_contacts:
  assumes "\<forall>ex \<in> set (mi_requests mio). no_redirect ex"
    and "a \<in> set (contacts (px_trace (handle_connect r mio tio p))) - set (contacts (px_trace p))"
  shows "policy_allows (px_policy p) (host_without_port a) \<and> (\<exists>u. rq_url r = Some u \<and> a = connect_target u r)"
  using assms(2)
  by (auto simp: handle_connect_def Let_def deny_host_def open_tunnel_contacts
      handle_mitm_contacts [OF assms(1)] split: option.splits if_splits)

text \<open>The requests sent on are the decrypted ones, rewritten.\<close>

lemma tunnel_outgoings [simp]:
  "outgoings (px_trace (tunnel_error h t e p)) = outgoings (px_trace p)"
  "outgoings (px_trace (mitm_fail h e p)) = outgoings (px_trace p)"
  "outgoings (px_trace (open_tunnel io h t p)) = outgoings (px_trace p)"
  by (auto simp: tunnel_error_def mitm_fail_def open_tunnel_def finish_tunnel_def relay_tunnel_def
      Let_def split: option.splits)

lemma terminate_outgoings:
  "outgoings (px_trace (terminate_tls io leaf target host p)) = outgoings (px_trace p) @
    (if tls_opens io then map (\<lambda>ex. exchange_outgoing (rewrite_exchange target ex)) (mi_requests io) else [])"
  by (auto simp: terminate_tls_def tls_opens_def Let_def mitm_loop_outgoings split: option.splits)

lemma handle_mitm_outgoings:
  "outgoings (px_trace (handle_mitm io target host p)) = outgoings (px_trace p) @
    (if mitm_opens io host (px_mitm p)
     then map (\<lambda>ex. exchange_outgoing (rewrite_exchange target ex)) (mi_requests io) else [])"
proof (cases "px_mitm p")
  case None
  then show ?thesis by (simp add: handle_mitm_def mitm_opens_def leaf_minted_def)
next
  case (Some mc)
  then show ?thesis
    by (cases rule: handle_mitm_cases [where io = io and host = host and target = target])
      (simp_all add: mitm_opens_def terminate_outgoings)
qed

lemma handle_connect_outgoings:
  assumes "o' \<in> set (outgoings (px_trace (handle_connect r mio tio p))) - set (outgoings (px_trace p))"
  shows "\<exists>u ex. rq_url r = Some u \<and> o' = exchange_outgoing (rewrite_exchange (connect_target u r) ex) \<and>
    policy_allows (px_policy p) (host_without_port (connect_target u r))"
  using assms
  by (auto simp: handle_connect_def Let_def deny_host_def handle_mitm_outgoings
      split: option.splits if_splits)

end
