(* ===== verification/Proxy.thy ===== *)
theory Proxy
  imports Proxy_Connect
begin

text \<open>
  \<open>ServeHTTP\<close> of \<open>internal/proxy/proxy.go\<close>: the preflight budgets and the dispatch to the two
  paths. An interface (\<open>egress_handler\<close>) states what each path guarantees; it is discharged for
  the plain path, for the CONNECT path and for the whole.
\<close>

section \<open>Elementary steps\<close>

text \<open>
  The elementary steps of a whole request. Concurrent requests interleave at this grain (each step
  is one call of a synchronised object, or local to its request), so what every step keeps holds
  in every interleaving.
\<close>

inductive proxy_step :: "'s proxy \<Rightarrow> 's proxy \<Rightarrow> bool" where
  Handle: "handler_step p q \<Longrightarrow> proxy_step p q"
| Count: "px_counter p = Some c \<Longrightarrow> proxy_step p (p\<lparr>px_counter := Some (snd (counter_allow c))\<rparr>)"
| Limit: "proxy_step p (p\<lparr>px_limiter := snd (rl_allow (px_limiter p) t)\<rparr>)"

definition proxy_steps :: "'s proxy \<Rightarrow> 's proxy \<Rightarrow> bool" where
  "proxy_steps = proxy_step\<^sup>*\<^sup>*"

lemma proxy_steps_refl [simp, intro]: "proxy_steps p p"
  by (simp add: proxy_steps_def)

lemma proxy_steps_trans: "proxy_steps p q \<Longrightarrow> proxy_steps q r \<Longrightarrow> proxy_steps p r"
  unfolding proxy_steps_def by (rule rtranclp_trans)

lemma proxy_steps_step: "proxy_steps p q \<Longrightarrow> proxy_step q r \<Longrightarrow> proxy_steps p r"
  unfolding proxy_steps_def by (rule rtranclp.rtrancl_into_rtrancl)

lemma handler_proxy_steps: "handler_steps p q \<Longrightarrow> proxy_steps p q"
  unfolding handler_steps_def proxy_steps_def
  by (induction rule: rtranclp_induct) (auto intro: proxy_step.Handle rtranclp.rtrancl_into_rtrancl)

lemma proxy_steps_handle: "proxy_steps p q \<Longrightarrow> handler_steps q r \<Longrightarrow> proxy_steps p r"
  by (rule proxy_steps_trans) (auto intro: handler_proxy_steps)

lemma proxy_step_same_config: "proxy_step p q \<Longrightarrow> same_config p q"
  by (induction rule: proxy_step.induct) (auto simp: same_config_def dest: step_same_config [unfolded same_config_def])

lemma proxy_steps_same_config: "proxy_steps p q \<Longrightarrow> same_config p q"
  unfolding proxy_steps_def
proof (induction rule: rtranclp_induct)
  case (step q r)
  then show ?case using proxy_step_same_config [of q r] by (simp add: same_config_def)
qed (simp add: same_config_def)

section \<open>The interface of a handler\<close>

text \<open>The effects a sequence of requests leaves, one after the other.\<close>

definition run_calls :: "('c \<Rightarrow> 's proxy \<Rightarrow> 's proxy) \<Rightarrow> 'c list \<Rightarrow> 's proxy \<Rightarrow> 's proxy" where
  "run_calls handle cs p = fold handle cs p"

text \<open>
  A handler does nothing but elementary steps, and for acceptable inputs it contacts only
  addresses whose host the policy allows.
\<close>

locale egress_handler =
  fixes handle :: "'c \<Rightarrow> 's proxy \<Rightarrow> 's proxy" and acceptable :: "'c \<Rightarrow> bool"
  assumes handle_steps: "proxy_steps p (handle c p)"
    and handle_contacts: "acceptable c \<Longrightarrow> a \<in> set (contacts (px_trace (handle c p))) \<Longrightarrow>
      a \<in> set (contacts (px_trace p)) \<or> policy_allows (px_policy p) (host_without_port a)"
begin

lemma run_steps: "proxy_steps p (run_calls handle cs p)"
proof (induction cs arbitrary: p)
  case (Cons c cs)
  then show ?case using handle_steps [of p c] by (auto simp: run_calls_def intro: proxy_steps_trans)
qed (simp add: run_calls_def)

lemma handle_policy: "px_policy (handle c p) = px_policy p"
  using proxy_steps_same_config [OF handle_steps] by (simp add: same_config_def)

lemma run_contacts:
  assumes "\<forall>c \<in> set cs. acceptable c" and "a \<in> set (contacts (px_trace (run_calls handle cs p)))"
  shows "a \<in> set (contacts (px_trace p)) \<or> policy_allows (px_policy p) (host_without_port a)"
  using assms
proof (induction cs arbitrary: p)
  case (Cons c cs)
  from Cons.IH [of "handle c p"] Cons.prems
  have "a \<in> set (contacts (px_trace (handle c p))) \<or> policy_allows (px_policy p) (host_without_port a)"
    by (simp add: run_calls_def handle_policy)
  then show ?case using handle_contacts [of c a p] Cons.prems(1) by auto
qed (simp add: run_calls_def)

end

text \<open>
  A handler that moreover sends on only requests for an allowed host, addressed to that host by
  \<open>Host\<close> as well, without the headers meant for the proxy itself.
\<close>

definition sendable :: "policy option \<Rightarrow> outgoing \<Rightarrow> bool" where
  "sendable pol o' \<longleftrightarrow> policy_allows pol (host_without_port (u_host (og_url o'))) \<and>
     og_host o' = u_host (og_url o') \<and> map_of (og_header o') ''Proxy-Connection'' = None \<and>
     map_of (og_header o') ''Proxy-Authorization'' = None"

locale forwarding_handler = egress_handler +
  assumes handle_sends: "o' \<in> set (outgoings (px_trace (handle c p))) \<Longrightarrow>
    o' \<in> set (outgoings (px_trace p)) \<or> sendable (px_policy p) o'"
begin

lemma run_sends:
  "o' \<in> set (outgoings (px_trace (run_calls handle cs p))) \<Longrightarrow>
   o' \<in> set (outgoings (px_trace p)) \<or> sendable (px_policy p) o'"
proof (induction cs arbitrary: p)
  case (Cons c cs)
  from Cons.IH [of "handle c p"] Cons.prems
  have "o' \<in> set (outgoings (px_trace (handle c p))) \<or> sendable (px_policy p) o'"
    by (simp add: run_calls_def handle_policy)
  then show ?case using handle_sends [of o' c p] by auto
qed (simp add: run_calls_def)

end

lemma sendable_director:
  assumes "upstream_url_for_request r = Some t" and "policy_allows pol (request_host r)"
  shows "sendable pol (director t u r)"
  using assms upstream_host [OF assms(1)]
  by (simp add: sendable_def director_def strip_proxy_headers_def map_of_header_del)

lemma sendable_exchange:
  "policy_allows pol (host_without_port target) \<Longrightarrow> sendable pol (exchange_outgoing (rewrite_exchange target ex))"
  by (simp add: sendable_def exchange_outgoing_def rewrite_exchange_def strip_proxy_headers_def map_of_header_del)

section \<open>ServeHTTP\<close>

text \<open>A request with everything its handling meets.\<close>

record call =
  cl_request :: request
  cl_round_trip :: round_trip
  cl_mitm :: mitm_io
  cl_tunnel :: tunnel_io

text \<open>Each preflight check answers whether to go on.\<close>

definition check_counter :: "request \<Rightarrow> 's proxy \<Rightarrow> bool \<times> 's proxy" where
  "check_counter r p =
     (case px_counter p of
        None \<Rightarrow> (True, p)
      | Some c \<Rightarrow>
          (case counter_allow c of
             ((ok, n), c') \<Rightarrow>
               (let p' = p\<lparr>px_counter := Some c'\<rparr> in
                if ok then (True, p')
                else (False, deny_rate_or_count ''request_count_exceeded''
                   [(''total'', GInt n), (''max'', GInt (counter_max c)),
                    (''host'', GStr (host_from_request r)), (''method'', GStr (rq_method r))] p'))))"

definition check_limiter :: "request \<Rightarrow> 's proxy \<Rightarrow> bool \<times> 's proxy" where
  "check_limiter r p =
     (if px_limiter p = None then (True, p)
      else
        (case rl_allow (px_limiter p) (ck_mono (now p)) of
           (ok, l) \<Rightarrow>
             (let p' = (tick p)\<lparr>px_limiter := l\<rparr> in
              if ok then (True, p')
              else (False, deny_rate_or_count ''rate_limited''
                 [(''rate_per_sec'', GFloat (rl_rate_of l)), (''burst'', GFloat (rl_burst_of l)),
                  (''host'', GStr (host_from_request r)), (''method'', GStr (rq_method r))] p'))))"

definition check_budget :: "request \<Rightarrow> 's proxy \<Rightarrow> bool \<times> 's proxy" where
  "check_budget r p =
     (case px_budget p of
        None \<Rightarrow> (True, p)
      | Some b \<Rightarrow>
          if over_budget b
          then (False, deny_rate_or_count ''token_budget_exceeded''
             [(''tokens_used'', GInt (budget_used b)), (''tokens_max'', GInt (budget_max b)),
              (''host'', GStr (host_from_request r)), (''method'', GStr (rq_method r))] p)
          else (True, p))"

definition and_then :: "bool \<times> 's proxy \<Rightarrow> ('s proxy \<Rightarrow> bool \<times> 's proxy) \<Rightarrow> bool \<times> 's proxy" where
  "and_then x f = (case x of (ok, p) \<Rightarrow> if ok then f p else (False, p))"

definition preflight :: "request \<Rightarrow> 's proxy \<Rightarrow> bool \<times> 's proxy" where
  "preflight r p = and_then (and_then (check_counter r p) (check_limiter r)) (check_budget r)"

definition dispatch :: "call \<Rightarrow> 's proxy \<Rightarrow> 's proxy" where
  "dispatch c p =
     (if rq_method (cl_request c) = method_connect
      then handle_connect (cl_request c) (cl_mitm c) (cl_tunnel c) p
      else handle_http (cl_request c) (cl_round_trip c) p)"

definition serve_http :: "call \<Rightarrow> 's proxy \<Rightarrow> 's proxy" where
  "serve_http c p =
     (if \<not> configured p then http_error [] ''aegrail-engine: proxy not configured'' 500 p
      else (case preflight (cl_request c) p of (ok, p') \<Rightarrow> if ok then dispatch c p' else p'))"

section \<open>Preflight\<close>

lemma rl_allow_keeps:
  "rl_allow r t = (ok, l) \<Longrightarrow> rl_rate_of l = rl_rate_of r \<and> rl_burst_of l = rl_burst_of r \<and> (l = None \<longleftrightarrow> r = None)"
  by (auto simp: rl_allow_def rl_rate_of_def rl_burst_of_def Let_def split: option.splits if_splits)

lemma steps_deny: "proxy_steps p q \<Longrightarrow> audit_payload (px_limiter q) pl \<Longrightarrow>
    proxy_steps p (deny_rate_or_count why pl q)"
  unfolding deny_rate_or_count_def
  by (erule proxy_steps_handle) (intro steps_respond steps_emit; simp)

lemma steps_check_counter: "proxy_steps p q \<Longrightarrow> proxy_steps p (snd (check_counter r q))"
proof -
  assume q: "proxy_steps p q"
  have "proxy_steps p (q\<lparr>px_counter := Some c'\<rparr>)"
    if "px_counter q = Some c" "counter_allow c = (a, c')" for c a c'
    using proxy_steps_step [OF q proxy_step.Count [OF that(1)]] that(2) by simp
  then show ?thesis
    using q by (auto simp: check_counter_def Let_def intro!: steps_deny split: option.splits prod.splits)
qed

lemma steps_check_limiter: "proxy_steps p q \<Longrightarrow> proxy_steps p (snd (check_limiter r q))"
proof -
  assume q: "proxy_steps p q"
  then have t: "proxy_steps p (tick q)" by (rule proxy_steps_handle) auto
  have "proxy_steps p ((tick q)\<lparr>px_limiter := l\<rparr>)" if "rl_allow (px_limiter q) t = (ok, l)" for ok l t
    using proxy_steps_step [OF t proxy_step.Limit, of t] that by simp
  then show ?thesis
    using q by (auto simp: check_limiter_def Let_def intro!: steps_deny split: prod.splits)
qed

lemma steps_check_budget: "proxy_steps p q \<Longrightarrow> proxy_steps p (snd (check_budget r q))"
  by (auto simp: check_budget_def intro!: steps_deny split: option.splits)

lemma steps_and_then:
  assumes "proxy_steps p (snd x)" and "\<And>q. proxy_steps p q \<Longrightarrow> proxy_steps p (snd (f q))"
  shows "proxy_steps p (snd (and_then x f))"
  using assms by (cases x) (auto simp: and_then_def)

lemma steps_preflight: "proxy_steps p (snd (preflight r p))"
  unfolding preflight_def
  by (intro steps_and_then steps_check_counter steps_check_limiter steps_check_budget proxy_steps_refl)

lemma steps_dispatch: "handler_steps p (dispatch c p)"
  by (simp add: dispatch_def steps_handle_connect steps_handle_http)

theorem steps_serve_http: "proxy_steps p (serve_http c p)"
proof -
  obtain ok q where q: "preflight (cl_request c) p = (ok, q)" by fastforce
  have "proxy_steps p q" using steps_preflight [of p "cl_request c"] by (simp add: q)
  then show ?thesis
    by (auto simp: serve_http_def q intro: proxy_steps_handle steps_dispatch handler_proxy_steps)
qed

text \<open>What a preflight check that goes on, or refuses, leaves.\<close>

definition quiet :: "'s proxy \<Rightarrow> 's proxy \<Rightarrow> bool" where
  "quiet p q \<longleftrightarrow> px_trace q = px_trace p \<and> px_budget q = px_budget p \<and> px_mitm q = px_mitm p \<and>
     same_config p q"

definition refused :: "'s proxy \<Rightarrow> 's proxy \<Rightarrow> bool" where
  "refused p q \<longleftrightarrow> contacts (px_trace q) = contacts (px_trace p) \<and>
     outgoings (px_trace q) = outgoings (px_trace p) \<and>
     statuses (px_trace q) = statuses (px_trace p) @ [429] \<and> px_budget q = px_budget p \<and>
     event_count q = Suc (event_count p) \<and> aborted q = aborted p"

lemma quiet_refl [simp]: "quiet p p"
  by (simp add: quiet_def same_config_def)

lemma quiet_trans: "quiet p q \<Longrightarrow> quiet q r \<Longrightarrow> quiet p r"
  by (simp add: quiet_def same_config_def)

lemma quiet_configured: "quiet p q \<Longrightarrow> configured q = configured p"
  by (simp add: quiet_def same_config_def configured_def)

lemma quiet_refused: "quiet p q \<Longrightarrow> refused q r \<Longrightarrow> refused p r"
  by (simp add: quiet_def refused_def event_count_def aborted_def)

lemma refused_deny: "configured p \<Longrightarrow> refused p (deny_rate_or_count why pl p)"
  by (simp add: refused_def deny_rate_or_count_def)

definition passes_or_refuses :: "'s proxy \<Rightarrow> bool \<times> 's proxy \<Rightarrow> bool" where
  "passes_or_refuses p x \<longleftrightarrow> (if fst x then quiet p (snd x) else refused p (snd x))"

lemma check_counter_passes: "configured p \<Longrightarrow> passes_or_refuses p (check_counter r p)"
proof -
  assume c: "configured p"
  have q: "quiet p (p\<lparr>px_counter := c'\<rparr>)" for c' by (simp add: quiet_def same_config_def)
  with c have "refused p (deny_rate_or_count why pl (p\<lparr>px_counter := c'\<rparr>))" for why pl c'
    using quiet_refused [OF q refused_deny] quiet_configured [OF q] by blast
  with q show ?thesis
    by (simp add: passes_or_refuses_def check_counter_def Let_def split: option.splits prod.splits)
qed

lemma check_limiter_passes: "configured p \<Longrightarrow> passes_or_refuses p (check_limiter r p)"
proof -
  assume c: "configured p"
  have q: "quiet p ((tick p)\<lparr>px_limiter := l\<rparr>)" for l by (simp add: quiet_def same_config_def)
  with c have "refused p (deny_rate_or_count why pl ((tick p)\<lparr>px_limiter := l\<rparr>))" for why pl l
    using quiet_refused [OF q refused_deny] quiet_configured [OF q] by blast
  with q show ?thesis
    by (simp add: passes_or_refuses_def check_limiter_def Let_def split: prod.splits)
qed

lemma check_budget_passes: "configured p \<Longrightarrow> passes_or_refuses p (check_budget r p)"
  by (simp add: passes_or_refuses_def check_budget_def refused_deny split: option.splits)

lemma and_then_passes:
  assumes "configured p" and "passes_or_refuses p x"
    and "\<And>q. configured q \<Longrightarrow> passes_or_refuses q (f q)"
  shows "passes_or_refuses p (and_then x f)"
proof (cases x)
  case (Pair ok q)
  show ?thesis
  proof (cases ok)
    case True
    with assms(2) Pair have q: "quiet p q" by (simp add: passes_or_refuses_def)
    with assms(1) have "configured q" by (simp add: quiet_configured)
    from assms(3) [OF this] q show ?thesis
      using True Pair quiet_trans [OF q] quiet_refused [OF q]
      by (auto simp: passes_or_refuses_def and_then_def split: if_splits)
  qed (use assms(2) Pair in \<open>simp add: passes_or_refuses_def and_then_def\<close>)
qed

lemma preflight_passes: "configured p \<Longrightarrow> passes_or_refuses p (preflight r p)"
  unfolding preflight_def
  by (intro and_then_passes check_counter_passes check_limiter_passes check_budget_passes)

lemma serve_cases:
  assumes "configured p"
  obtains (Refused) "refused p (serve_http c p)"
  | (Dispatched) q where "quiet p q" and "configured q" and "serve_http c p = dispatch c q"
proof -
  obtain ok q where q: "preflight (cl_request c) p = (ok, q)" by fastforce
  with preflight_passes [OF assms, of "cl_request c"]
  have pr: "if ok then quiet p q else refused p q" by (auto simp: passes_or_refuses_def)
  show thesis
  proof (cases ok)
    case True
    with pr have "quiet p q" by simp
    with True q assms Dispatched show thesis by (simp add: serve_http_def quiet_configured)
  next
    case False
    with pr q assms Refused show thesis by (simp add: serve_http_def)
  qed
qed

section \<open>The handlers satisfy the interface\<close>

definition unredirected :: "mitm_io \<Rightarrow> bool" where
  "unredirected io \<longleftrightarrow> (\<forall>ex \<in> set (mi_requests io). no_redirect ex)"

interpretation plain: egress_handler "\<lambda>(r, rt). handle_http r rt" "\<lambda>_. True"
proof
  fix c :: "request \<times> round_trip" and p :: "'s proxy" and a :: string
  show "proxy_steps p ((case c of (r, rt) \<Rightarrow> handle_http r rt) p)"
    by (auto intro: handler_proxy_steps steps_handle_http split: prod.split)
  assume "a \<in> set (contacts (px_trace ((case c of (r, rt) \<Rightarrow> handle_http r rt) p)))"
  then show "a \<in> set (contacts (px_trace p)) \<or> policy_allows (px_policy p) (host_without_port a)"
    using handle_http_contacts [of "fst c" "snd c" p] upstream_host by (auto simp: split_beta)
qed

interpretation connect: egress_handler "\<lambda>(r, mio, tio). handle_connect r mio tio"
  "\<lambda>(r, mio, tio). unredirected mio"
proof
  fix c :: "request \<times> mitm_io \<times> tunnel_io" and p :: "'s proxy" and a :: string
  show "proxy_steps p ((case c of (r, mio, tio) \<Rightarrow> handle_connect r mio tio) p)"
    by (auto intro: handler_proxy_steps steps_handle_connect split: prod.split)
  assume "case c of (r, mio, tio) \<Rightarrow> unredirected mio"
    and "a \<in> set (contacts (px_trace ((case c of (r, mio, tio) \<Rightarrow> handle_connect r mio tio) p)))"
  then show "a \<in> set (contacts (px_trace p)) \<or> policy_allows (px_policy p) (host_without_port a)"
    using handle_connect_contacts [of "fst (snd c)" a "fst c" "snd (snd c)" p]
    by (auto simp: split_beta unredirected_def)
qed

lemma dispatch_contacts:
  assumes "unredirected (cl_mitm c)" and "a \<in> set (contacts (px_trace (dispatch c p)))"
  shows "a \<in> set (contacts (px_trace p)) \<or> policy_allows (px_policy p) (host_without_port a)"
  using assms connect.handle_contacts [where c = "(cl_request c, cl_mitm c, cl_tunnel c)" and a = a and p = p]
    plain.handle_contacts [where c = "(cl_request c, cl_round_trip c)" and a = a and p = p]
  by (auto simp: dispatch_def split: if_splits)

interpretation server: egress_handler serve_http "\<lambda>c. unredirected (cl_mitm c)"
proof
  fix c :: call and p :: "'s proxy" and a :: string
  show "proxy_steps p (serve_http c p)" by (rule steps_serve_http)
  assume c: "unredirected (cl_mitm c)" and a: "a \<in> set (contacts (px_trace (serve_http c p)))"
  show "a \<in> set (contacts (px_trace p)) \<or> policy_allows (px_policy p) (host_without_port a)"
  proof (cases "configured p")
    case True
    then show ?thesis
    proof (cases rule: serve_cases [where c = c])
      case Refused
      with a show ?thesis by (simp add: refused_def)
    next
      case (Dispatched q)
      with dispatch_contacts [OF c, of a q] a show ?thesis
        by (simp add: quiet_def same_config_def)
    qed
  qed (use a in \<open>simp add: serve_http_def\<close>)
qed

interpretation fplain: forwarding_handler "\<lambda>(r, rt). handle_http r rt" "\<lambda>_. True"
proof
  fix c :: "request \<times> round_trip" and p :: "'s proxy" and o' :: outgoing
  assume "o' \<in> set (outgoings (px_trace ((case c of (r, rt) \<Rightarrow> handle_http r rt) p)))"
  then show "o' \<in> set (outgoings (px_trace p)) \<or> sendable (px_policy p) o'"
    using handle_http_outgoings [of "fst c" "snd c" p] sendable_director by (auto simp: split_beta)
qed

interpretation fconnect: forwarding_handler "\<lambda>(r, mio, tio). handle_connect r mio tio"
  "\<lambda>(r, mio, tio). unredirected mio"
proof
  fix c :: "request \<times> mitm_io \<times> tunnel_io" and p :: "'s proxy" and o' :: outgoing
  assume "o' \<in> set (outgoings (px_trace ((case c of (r, mio, tio) \<Rightarrow> handle_connect r mio tio) p)))"
  then show "o' \<in> set (outgoings (px_trace p)) \<or> sendable (px_policy p) o'"
    using handle_connect_outgoings [of o' "fst c" "fst (snd c)" "snd (snd c)" p] sendable_exchange
    by (auto simp: split_beta)
qed

lemma dispatch_sends:
  assumes "o' \<in> set (outgoings (px_trace (dispatch c p)))"
  shows "o' \<in> set (outgoings (px_trace p)) \<or> sendable (px_policy p) o'"
  using assms fconnect.handle_sends [where c = "(cl_request c, cl_mitm c, cl_tunnel c)" and o' = o' and p = p]
    fplain.handle_sends [where c = "(cl_request c, cl_round_trip c)" and o' = o' and p = p]
  by (auto simp: dispatch_def split: if_splits)

interpretation fserver: forwarding_handler serve_http "\<lambda>c. unredirected (cl_mitm c)"
proof
  fix c :: call and p :: "'s proxy" and o' :: outgoing
  assume a: "o' \<in> set (outgoings (px_trace (serve_http c p)))"
  show "o' \<in> set (outgoings (px_trace p)) \<or> sendable (px_policy p) o'"
  proof (cases "configured p")
    case True
    then show ?thesis
    proof (cases rule: serve_cases [where c = c])
      case Refused
      with a show ?thesis by (simp add: refused_def)
    next
      case (Dispatched q)
      with dispatch_sends [of o' c q] a show ?thesis by (simp add: quiet_def same_config_def)
    qed
  qed (use a in \<open>simp add: serve_http_def\<close>)
qed

section \<open>The preflight state\<close>

lemma deny_keeps [simp]:
  "px_counter (deny_rate_or_count why pl p) = px_counter p"
  "px_limiter (deny_rate_or_count why pl p) = px_limiter p"
  "px_budget (deny_rate_or_count why pl p) = px_budget p"
  by (simp_all add: deny_rate_or_count_def)

lemma check_limiter_keeps [simp]:
  "px_counter (snd (check_limiter r p)) = px_counter p"
  "px_budget (snd (check_limiter r p)) = px_budget p"
  by (simp_all add: check_limiter_def Let_def split: prod.splits)

lemma check_budget_keeps [simp]: "px_counter (snd (check_budget r p)) = px_counter p"
  by (simp add: check_budget_def split: option.splits)

lemma check_counter_some:
  assumes "px_counter p = Some c"
  shows "fst (check_counter r p) = fst (fst (counter_allow c))"
    and "px_counter (snd (check_counter r p)) = Some (snd (counter_allow c))"
  using assms by (simp_all add: check_counter_def Let_def split: prod.splits)

lemma check_counter_budget [simp]: "px_budget (snd (check_counter r p)) = px_budget p"
  by (simp add: check_counter_def Let_def split: option.splits prod.splits)

lemma preflight_counter:
  assumes "px_counter p = Some c"
  shows "px_counter (snd (preflight r p)) = Some (snd (counter_allow c))"
    and "fst (preflight r p) \<Longrightarrow> fst (fst (counter_allow c))"
proof -
  obtain ok q where q: "check_counter r p = (ok, q)" by fastforce
  have "px_counter q = Some (snd (counter_allow c))" "ok = fst (fst (counter_allow c))"
    using check_counter_some [OF assms, of r] by (simp_all add: q)
  moreover obtain ok2 q2 where "check_limiter r q = (ok2, q2)" by fastforce
  ultimately show "px_counter (snd (preflight r p)) = Some (snd (counter_allow c))"
    "fst (preflight r p) \<Longrightarrow> fst (fst (counter_allow c))"
    using check_limiter_keeps(1) [of r q] by (simp_all add: preflight_def and_then_def q split: if_splits)
qed

lemma preflight_over_budget:
  assumes "px_budget p = Some b" and "over_budget b"
  shows "\<not> fst (preflight r p)"
proof -
  obtain ok q where q: "and_then (check_counter r p) (check_limiter r) = (ok, q)" by fastforce
  have "px_budget (snd (and_then (check_counter r p) (check_limiter r))) = px_budget p"
    using check_counter_budget [of r p] by (cases "check_counter r p") (simp add: and_then_def)
  with assms q show ?thesis by (simp add: preflight_def and_then_def [of "(ok, q)"] check_budget_def)
qed

lemma serve_refused:
  assumes "configured p" and "\<not> fst (preflight (cl_request c) p)"
  shows "refused p (serve_http c p)"
  using preflight_passes [OF assms(1), of "cl_request c"] assms
  by (auto simp: passes_or_refuses_def serve_http_def split: prod.splits)

lemma serve_counter:
  assumes "configured p" and "px_counter p = Some c"
  shows "px_counter (serve_http cl p) = Some (snd (counter_allow c))"
    and "\<not> fst (fst (counter_allow c)) \<Longrightarrow> refused p (serve_http cl p)"
proof -
  obtain ok q where q: "preflight (cl_request cl) p = (ok, q)" by fastforce
  show "px_counter (serve_http cl p) = Some (snd (counter_allow c))"
    using preflight_counter(1) [OF assms(2), of "cl_request cl"] assms(1)
      handler_steps_keep [OF steps_dispatch [of q cl]] by (simp add: serve_http_def q)
  show "\<not> fst (fst (counter_allow c)) \<Longrightarrow> refused p (serve_http cl p)"
    using preflight_counter(2) [OF assms(2), of "cl_request cl"] serve_refused [OF assms(1)] by blast
qed

lemma serve_configured: "configured (serve_http c p) = configured p"
  using proxy_steps_same_config [OF steps_serve_http, of p c] by (simp add: same_config_def configured_def)

section \<open>What a dispatched request leaves\<close>

lemma dispatch_one_contact:
  assumes "px_mitm p = None"
  shows "length (contacts (px_trace (dispatch c p))) \<le> Suc (length (contacts (px_trace p)))"
proof -
  have "length (contacts (px_trace (handle_connect r m t p))) \<le> Suc (length (contacts (px_trace p)))" for r m t
    using assms
    by (auto simp: handle_connect_def Let_def deny_host_def open_tunnel_contacts should_mitm_def
        split: option.splits)
  moreover have "length (contacts (px_trace (handle_http r rt p))) \<le> Suc (length (contacts (px_trace p)))" for r rt
    using handle_http_contacts [of r rt p] by auto
  ultimately show ?thesis by (simp add: dispatch_def)
qed

text \<open>Both paths decide by the same host.\<close>

lemma request_host_target:
  "rq_url r = Some u \<Longrightarrow> request_host r = host_without_port (connect_target u r)"
  by (auto simp: request_host_def connect_target_def host_without_port_def)

text \<open>A request that is to be TLS-terminated.\<close>

definition intercepted :: "request \<Rightarrow> mitm_config option \<Rightarrow> bool" where
  "intercepted r m \<longleftrightarrow> rq_method r = method_connect \<and> should_mitm m (request_host r)"

lemma intercepted_None [simp]: "\<not> intercepted r None"
  by (simp add: intercepted_def should_mitm_def)

lemma dispatch_events:
  assumes "configured p" and "\<not> aborted p" and "rq_url (cl_request c) \<noteq> None"
    and "\<not> intercepted (cl_request c) (px_mitm p)"
  shows "event_count (dispatch c p) = (if aborted (dispatch c p) then event_count p else Suc (event_count p))"
proof (cases "rq_method (cl_request c) = method_connect")
  case True
  then have "event_count (handle_connect (cl_request c) m t p) = Suc (event_count p) \<and>
    \<not> aborted (handle_connect (cl_request c) m t p)" for m t
    using assms
    by (auto simp: handle_connect_def Let_def deny_host_def intercepted_def request_host_target open_tunnel_events
        split: option.splits)
  with True show ?thesis by (simp add: dispatch_def)
next
  case False
  with handle_http_events [OF assms(1,2,3)] show ?thesis by (simp add: dispatch_def)
qed

end
