(* ===== verification/Proxy_Log.thy ===== *)
theory Proxy_Log
  imports Proxy
begin

text \<open>
  The proxy and its sink together: every event the proxy emits can be recorded, so under every
  interleaving of requests the log of a working sink holds all of them, in order, and verifies.
\<close>

section \<open>Events of the proxy can be recorded\<close>

definition is_finite :: "f64 \<Rightarrow> bool" where
  "is_finite f = (case f of Fin x \<Rightarrow> True | _ \<Rightarrow> False)"

definition finite_limiter :: "rate_limiter option \<Rightarrow> bool" where
  "finite_limiter l \<longleftrightarrow> is_finite (rl_rate_of l) \<and> is_finite (rl_burst_of l)"

lemma fold_max_bound: "n \<le> k \<Longrightarrow> \<forall>x \<in> set ns. x \<le> k \<Longrightarrow> fold max ns n \<le> (k::nat)"
  by (induction ns arbitrary: n) auto

lemma string_list_json:
  assumes "list_all (\<lambda>x. case x of GStr s \<Rightarrow> True | _ \<Rightarrow> False) vs"
  shows "\<exists>js. rmap to_json vs = Inr js \<and> (\<forall>j \<in> set js. jdepth j = 0)"
  using assms by (induction vs) (auto split: gval.splits)

lemma audit_value_json:
  assumes "audit_value l v" and "finite_limiter l"
  shows "\<exists>j. to_json v = Inr j \<and> jdepth j \<le> 1"
proof (cases v)
  case (GFloat f)
  with assms have "is_finite f" by (auto simp: finite_limiter_def)
  then show ?thesis by (auto simp: GFloat is_finite_def split: f64.splits)
next
  case (GList vs)
  with assms obtain js where "rmap to_json vs = Inr js" "\<forall>j \<in> set js. jdepth j = 0"
    using string_list_json by (auto simp: audit_value_def)
  then show ?thesis using fold_max_bound [of 0 0 "map jdepth js"] by (auto simp: GList)
qed (use assms in \<open>auto simp: audit_value_def\<close>)

lemma audit_payload_json:
  assumes "audit_payload l pl" and "finite_limiter l"
  shows "\<exists>j. to_json (GMap pl) = Inr j \<and> jdepth j \<le> 2"
proof -
  have "\<exists>ms. rmap (\<lambda>(k, v). rbind (to_json v) (\<lambda>j. Inr (k, j))) pl = Inr ms \<and>
    (\<forall>m \<in> set ms. jdepth (snd m) \<le> 1)"
    using assms(1)
  proof (induction pl)
    case (Cons kv pl)
    obtain k v where kv: "kv = (k, v)" by (cases kv)
    with Cons.prems have "audit_value l v" by simp
    from audit_value_json [OF this assms(2)] obtain j where "to_json v = Inr j" "jdepth j \<le> 1" by blast
    with Cons kv show ?case by auto
  qed simp
  then obtain ms where ms: "rmap (\<lambda>(k, v). rbind (to_json v) (\<lambda>j. Inr (k, j))) pl = Inr ms"
    "\<forall>m \<in> set ms. jdepth (snd m) \<le> 1" by blast
  have "fold max (map (\<lambda>(k, v). jdepth v) (sort_key fst ms)) 0 \<le> 1"
    by (rule fold_max_bound) (use ms(2) in auto)
  with ms show ?thesis by auto
qed

lemma make_event_recordable:
  assumes "audit_payload l pl" and "finite_limiter l"
  shows "recordable (make_event ss ms ty pl)"
  using audit_payload_json [OF assms]
  by (auto simp: recordable_def make_event_def map_json_def normalise_payload_def g_opt_map_def
      max_nesting_def)

section \<open>The log of a run\<close>

text \<open>What the sink has written since \<open>d0\<close> are the lines of a linked log of the given events.\<close>

definition logs :: "('s \<Rightarrow> string option) \<Rightarrow> ('s \<Rightarrow> string) \<Rightarrow> string \<Rightarrow> string option \<Rightarrow> event list \<Rightarrow> 's \<Rightarrow> bool" where
  "logs tip text_of d0 p0 evs s \<longleftrightarrow>
     (\<exists>es. list_all2 (\<lambda>e e'. \<exists>p h. e' = stamp e p h) evs es \<and>
        linked compute_event_hash ev_event_hash p0 es \<and> text_of s = d0 @ log_text es \<and>
        tip s = tip_of ev_event_hash p0 es)"

text \<open>The state of a proxy whose sink has logged all its events.\<close>

definition all_logged :: "(event \<Rightarrow> 's \<Rightarrow> sink_error option \<times> 's) \<Rightarrow> ('s \<Rightarrow> bool) \<Rightarrow>
    (event list \<Rightarrow> 's \<Rightarrow> bool) \<Rightarrow> 's proxy \<Rightarrow> bool" where
  "all_logged emit ready logged p \<longleftrightarrow>
     px_session p \<noteq> None \<and> finite_limiter (px_limiter p) \<and>
     (\<exists>sv. px_sink p = Some sv \<and> sv_emit sv = emit \<and> ready (sv_state sv) \<and>
        logged (audits (px_trace p)) (sv_state sv))"

context verified_sink
begin

lemma emit_logged:
  assumes "works io" and "ready s" and "recordable e" and "logs tip text_of d0 p0 evs s"
  shows "fst (emit io e s) = None \<and> logs tip text_of d0 p0 (evs @ [e]) (snd (emit io e s))"
proof -
  obtain l where "compute_event_hash e (tip s) = Inr (event_digest (hash_input e (tip s)))"
    "event_line (stamp e (tip s) (event_digest (hash_input e (tip s)))) = Inr l"
    using assms(3) recordable_hash recordable_line recordable_stamp by meson
  then have "fst (emit io e s) = None" using emit_works assms(1,2) by blast
  then obtain s' where em: "emit io e s = (None, s')" by (metis prod.collapse)
  from emit_ok [OF em] obtain h l where h: "compute_event_hash e (tip s) = Inr h"
    "event_line (stamp e (tip s) h) = Inr l" "text_of s' = text_of s @ l @ [CHR 0x0A]" "tip s' = Some h"
    by blast
  from assms(4) obtain es where es: "list_all2 (\<lambda>e e'. \<exists>p h. e' = stamp e p h) evs es"
    "linked compute_event_hash ev_event_hash p0 es" "text_of s = d0 @ log_text es"
    "tip s = tip_of ev_event_hash p0 es" by (auto simp: logs_def)
  have "list_all2 (\<lambda>e e'. \<exists>p h. e' = stamp e p h) (evs @ [e]) (es @ [stamp e (tip s) h])"
    using es(1) by (auto intro: list_all2_appendI)
  with es h have "logs tip text_of d0 p0 (evs @ [e]) s'" unfolding logs_def
    by (intro exI [of _ "es @ [stamp e (tip s) h]"])
      (simp add: linked_append log_text_append al.hash_stamp al.hash_of_stamp)
  with em show ?thesis by simp
qed

lemma step_logged:
  assumes "works io" and "proxy_step p q" and "all_logged (emit io) ready (logs tip text_of d0 p0) p"
  shows "all_logged (emit io) ready (logs tip text_of d0 p0) q"
  using assms(2,3)
proof (induction rule: proxy_step.induct)
  case (Handle p q)
  then show ?case
  proof (induction rule: handler_step.induct)
    case (Emit p payload ty)
    then obtain sv ss where p: "px_sink p = Some sv" "sv_emit sv = emit io" "ready (sv_state sv)"
      "logs tip text_of d0 p0 (audits (px_trace p)) (sv_state sv)" "px_session p = Some ss"
      "finite_limiter (px_limiter p)" by (auto simp: all_logged_def)
    let ?e = "make_event ss (ck_wall_ms (now p)) ty payload"
    obtain s' where em: "emit io ?e (sv_state sv) = (None, s')"
      using emit_logged [OF assms(1) p(3) make_event_recordable [OF Emit(1) p(6)] p(4)]
      by (metis prod.collapse)
    then have "logs tip text_of d0 p0 (audits (px_trace p) @ [?e]) s'" "ready s'"
      using emit_logged [OF assms(1) p(3) make_event_recordable [OF Emit(1) p(6)] p(4), of ss
          "ck_wall_ms (now p)" ty] emit_ready [OF p(3), of io ?e]
      by simp_all
    with p em show ?case by (auto simp: all_logged_def px_emit_def)
  next
    case (Effect e p)
    then have "audits [e] = []" by (cases e) auto
    with Effect show ?case by (auto simp: all_logged_def)
  qed (auto simp: all_logged_def)
next
  case (Limit p t)
  then show ?case
    using rl_allow_keeps [of "px_limiter p" t] by (auto simp: all_logged_def finite_limiter_def)
      (metis prod.collapse)+
qed (auto simp: all_logged_def)

lemma steps_logged:
  assumes "works io" and "proxy_steps p q" and "all_logged (emit io) ready (logs tip text_of d0 p0) p"
  shows "all_logged (emit io) ready (logs tip text_of d0 p0) q"
  using assms(2,3) unfolding proxy_steps_def
  by (induction rule: rtranclp_induct) (auto intro: step_logged [OF assms(1)])

end

end
