(* ===== verification/Go_Mux.thy ===== *)
theory Go_Mux
  imports Json
begin

text \<open>
  The parts of the standard library between the process and its handlers: \<open>path.Clean\<close> and the
  routing of \<open>http.ServeMux\<close> for patterns without method and host, and \<open>flag.Parse\<close> as far as
  single arguments are concerned.
\<close>

section \<open>Clean paths\<close>

text \<open>The segments \<open>path.Clean\<close> keeps of a rooted path, last first.\<close>

fun clean_segments :: "string list \<Rightarrow> string list \<Rightarrow> string list" where
  "clean_segments [] kept = kept"
| "clean_segments (s # ss) kept =
     (if s = [] \<or> s = ''.'' then clean_segments ss kept
      else if s = ''..'' then clean_segments ss (tl kept)
      else clean_segments ss (s # kept))"

definition join_segments :: "string list \<Rightarrow> string" where
  "join_segments ss = concat (map (\<lambda>s. CHR ''/'' # s) ss)"

text \<open>\<open>path.Clean\<close> of a path that starts with a slash.\<close>

definition path_clean :: "string \<Rightarrow> string" where
  "path_clean p =
     (let ss = rev (clean_segments (split_on (CHR ''/'') p) []) in
      if ss = [] then ''/'' else join_segments ss)"

text \<open>\<open>net/http\<close>'s \<open>cleanPath\<close>: a trailing slash is kept.\<close>

definition clean_path :: "string \<Rightarrow> string" where
  "clean_path p0 =
     (if p0 = [] then ''/''
      else
        (let p = (if hd p0 \<noteq> CHR ''/'' then CHR ''/'' # p0 else p0); np = path_clean p in
         if last p = CHR ''/'' \<and> np \<noteq> ''/'' then np @ ''/'' else np))"

section \<open>Unescaping a segment\<close>

fun percent_decode :: "string \<Rightarrow> string option" where
  "percent_decode [] = Some []"
| "percent_decode (c # cs) =
     (if c \<noteq> CHR ''%'' then map_option ((#) c) (percent_decode cs)
      else
        (case cs of
           a # b # rest \<Rightarrow>
             (case (hex_val a, hex_val b) of
                (Some x, Some y) \<Rightarrow> map_option ((#) (char_of (16 * x + y))) (percent_decode rest)
              | _ \<Rightarrow> None)
         | _ \<Rightarrow> None))"

definition path_unescape :: "string \<Rightarrow> string" where
  "path_unescape s = (case percent_decode s of Some t \<Rightarrow> t | None \<Rightarrow> s)"

section \<open>Routing\<close>

text \<open>
  A mux with some literal one-segment patterns and \<open>/\<close>, for a request that is not a CONNECT,
  given its escaped path: a path that is not clean is redirected; a single segment selects its
  literal pattern; everything else goes to \<open>/\<close>.
\<close>

datatype route = Literal string | CatchAll | Moved

definition match_path :: "string list \<Rightarrow> string \<Rightarrow> route" where
  "match_path literals path =
     (let seg = path_unescape (tl path) in
      if CHR ''/'' \<in> set (tl path) \<or> tl path = [] then CatchAll
      else if seg \<in> set literals then Literal seg
      else CatchAll)"

definition mux_route :: "string list \<Rightarrow> string \<Rightarrow> route" where
  "mux_route literals escaped =
     (let path = clean_path escaped in
      if path \<noteq> escaped then Moved else match_path literals path)"

text \<open>The location, HTML-escaped, of \<open>http.Redirect\<close> with status 301: its headers and body.\<close>

definition moved_headers :: "string \<Rightarrow> string \<Rightarrow> (string \<times> string) list" where
  "moved_headers rmethod location =
     (''Location'', location) #
     (if rmethod \<in> {''GET'', ''HEAD''} then [(''Content-Type'', ''text/html; charset=utf-8'')] else [])"

definition moved_body :: "string \<Rightarrow> string \<Rightarrow> string" where
  "moved_body rmethod html =
     (if rmethod = ''GET''
      then ''<a href='' @ [CHR 0x22] @ html @ [CHR 0x22] @ ''>Moved Permanently</a>.'' @ [CHR 0x0A, CHR 0x0A]
      else [])"

section \<open>Cleaning is idempotent\<close>

definition clean_segment :: "string \<Rightarrow> bool" where
  "clean_segment s \<longleftrightarrow> s \<noteq> [] \<and> s \<noteq> ''.'' \<and> s \<noteq> ''..'' \<and> CHR ''/'' \<notin> set s"

lemma clean_segments_clean:
  "\<forall>s \<in> set ss. CHR ''/'' \<notin> set s \<Longrightarrow> \<forall>s \<in> set kept. clean_segment s \<Longrightarrow>
    \<forall>s \<in> set (clean_segments ss kept). clean_segment s"
proof (induction ss arbitrary: kept)
  case (Cons s ss)
  have ss: "\<forall>t \<in> set ss. CHR ''/'' \<notin> set t" and s: "CHR ''/'' \<notin> set s" using Cons.prems(1) by simp_all
  have tl: "\<forall>t \<in> set (tl kept). clean_segment t" using Cons.prems(2) by (cases kept) simp_all
  have push: "\<forall>t \<in> set (s # kept). clean_segment t" if "clean_segment s"
    using Cons.prems(2) that by simp
  have "clean_segment s" if "\<not> (s = [] \<or> s = ''.'')" "s \<noteq> ''..''"
    using that s unfolding clean_segment_def by blast
  then show ?case unfolding clean_segments.simps
    using Cons.IH [OF ss Cons.prems(2)] Cons.IH [OF ss tl] Cons.IH [OF ss push] by presburger
qed simp

lemma clean_segments_id:
  "\<forall>s \<in> set ss. clean_segment s \<Longrightarrow> clean_segments ss kept = rev ss @ kept"
  by (induction ss arbitrary: kept) (simp_all add: clean_segment_def)

lemma split_join:
  assumes "\<forall>s \<in> set ss. CHR ''/'' \<notin> set s"
  shows "split_on (CHR ''/'') (join_segments ss) = [] # ss"
  using assms
proof (induction ss)
  case (Cons s ss)
  then show ?case
  proof (cases ss)
    case Nil
    with Cons show ?thesis by (simp add: join_segments_def split_on_single)
  next
    case (Cons t ts)
    with Cons.IH Cons.prems show ?thesis
      using split_on_append [of "CHR ''/''" s "t @ join_segments ts"] by (simp add: join_segments_def)
  qed
qed (simp add: join_segments_def)

lemma split_join_slash:
  assumes "\<forall>s \<in> set ss. CHR ''/'' \<notin> set s"
  shows "split_on (CHR ''/'') (join_segments ss @ ''/'') = [] # ss @ [[]]"
  using split_join [of "ss @ [[]]"] assms by (simp add: join_segments_def)

text \<open>The segments of a cleaned path.\<close>

definition kept_segments :: "string \<Rightarrow> string list" where
  "kept_segments p = rev (clean_segments (split_on (CHR ''/'') p) [])"

lemma kept_clean: "\<forall>s \<in> set (kept_segments p). clean_segment s"
  using clean_segments_clean [of "split_on (CHR ''/'') p" "[]"] split_on_no_sep
  by (auto simp: kept_segments_def)

lemma kept_no_slash: "\<forall>s \<in> set (kept_segments p). CHR ''/'' \<notin> set s"
  using kept_clean [of p] by (simp add: clean_segment_def)

lemma path_clean_kept: "path_clean p = (if kept_segments p = [] then ''/'' else join_segments (kept_segments p))"
  by (simp add: path_clean_def kept_segments_def Let_def)

lemma clean_segments_append: "clean_segments (ss @ ts) kept = clean_segments ts (clean_segments ss kept)"
  by (induction ss arbitrary: kept) simp_all

lemma kept_join [simp]: "\<forall>s \<in> set ss. clean_segment s \<Longrightarrow> kept_segments (join_segments ss) = ss"
  by (simp add: kept_segments_def split_join clean_segments_id clean_segment_def)

lemma kept_join_slash [simp]: "\<forall>s \<in> set ss. clean_segment s \<Longrightarrow> kept_segments (join_segments ss @ ''/'') = ss"
  by (simp add: kept_segments_def split_join_slash clean_segments_append clean_segments_id clean_segment_def)

lemma last_join:
  assumes "ss \<noteq> []" and "\<forall>s \<in> set ss. clean_segment s"
  shows "last (join_segments ss) \<noteq> CHR ''/''"
proof -
  have "last ss \<in> set ss" using assms(1) by simp
  with assms(2) have l: "last ss \<noteq> []" "CHR ''/'' \<notin> set (last ss)" by (auto simp: clean_segment_def)
  have "join_segments ss = join_segments (butlast ss) @ CHR ''/'' # last ss"
    by (subst append_butlast_last_id [OF assms(1), symmetric]) (simp only: join_segments_def, simp)
  then have "last (join_segments ss) = last (last ss)" using l(1) by simp
  then show ?thesis using l by (metis last_in_set)
qed

lemma join_starts: "ss \<noteq> [] \<Longrightarrow> join_segments ss \<noteq> [] \<and> hd (join_segments ss) = CHR ''/''"
  by (cases ss) (simp_all add: join_segments_def)

lemma clean_path_cases:
  obtains "clean_path p = ''/''"
  | ss where "ss \<noteq> []" and "\<forall>s \<in> set ss. clean_segment s" and "clean_path p = join_segments ss"
  | ss where "ss \<noteq> []" and "\<forall>s \<in> set ss. clean_segment s" and "clean_path p = join_segments ss @ ''/''"
proof -
  let ?q = "if hd p \<noteq> CHR ''/'' then CHR ''/'' # p else p"
  consider "p = []" | "kept_segments ?q = []" | "p \<noteq> []" "kept_segments ?q \<noteq> []" by blast
  then show thesis
  proof cases
    case 3
    then have "clean_path p = join_segments (kept_segments ?q) \<or> clean_path p = join_segments (kept_segments ?q) @ ''/''"
      by (simp add: clean_path_def path_clean_kept Let_def)
    with 3 that(2,3) kept_clean show thesis by blast
  qed (use that(1) in \<open>simp_all add: clean_path_def path_clean_kept Let_def\<close>)
qed

lemma clean_path_idem: "clean_path (clean_path p) = clean_path p"
proof (cases rule: clean_path_cases [of p])
  case 1
  then show ?thesis by (simp add: clean_path_def path_clean_kept kept_segments_def)
next
  case (2 ss)
  then show ?thesis using join_starts [of ss] last_join [of ss]
    by (simp add: clean_path_def path_clean_kept Let_def)
next
  case (3 ss)
  then have "join_segments ss \<noteq> [] \<and> hd (join_segments ss @ ''/'') = CHR ''/''"
    using join_starts [of ss] by simp
  moreover have "join_segments ss \<noteq> ''/''" using last_join [OF 3(1,2)] by auto
  ultimately show ?thesis using 3 by (simp add: clean_path_def path_clean_kept Let_def)
qed

lemma route_of_clean: "mux_route ls (clean_path p) \<noteq> Moved"
  by (simp add: mux_route_def Let_def clean_path_idem match_path_def)

end
