(* ===== verification/Engine_Main.thy ===== *)
theory Engine_Main
  imports Proxy_Log Mitm_Cert Go_Mux
begin

text \<open>
  \<open>cmd/aegrail-engine/main.go\<close>: flags and environment, the start of the engine, the root handler
  and the shutdown. An environment is a function from names to values, the empty string for an
  unset variable. Files, randomness, clocks and cryptography are fields of \<open>world\<close>.
\<close>

section \<open>Flags\<close>

definition env_or :: "(string \<Rightarrow> string) \<Rightarrow> string \<Rightarrow> string \<Rightarrow> string" where
  "env_or env key fallback = (if env key \<noteq> [] then env key else fallback)"

record flags =
  fl_listen :: string
  fl_agent_identity :: string
  fl_allowlist :: string
  fl_audit_file :: string
  fl_audit_stdout :: bool
  fl_max_requests :: string
  fl_rate_limit :: string
  fl_max_tokens :: string
  fl_shutdown_timeout :: int
  fl_version :: bool

definition default_flags :: "(string \<Rightarrow> string) \<Rightarrow> flags" where
  "default_flags env =
     \<lparr>fl_listen = env_or env ''AEGRAIL_ENGINE_LISTEN'' '':8080'',
      fl_agent_identity = env_or env ''AEGRAIL_ENGINE_AGENT_IDENTITY'' ''egress-proxy/v1'',
      fl_allowlist = env ''AEGRAIL_ENGINE_ALLOWLIST'',
      fl_audit_file = env ''AEGRAIL_ENGINE_AUDIT_FILE'',
      fl_audit_stdout = (env ''AEGRAIL_ENGINE_AUDIT_STDOUT'' = ''1''),
      fl_max_requests = env ''AEGRAIL_ENGINE_MAX_REQUESTS'',
      fl_rate_limit = env ''AEGRAIL_ENGINE_RATE_LIMIT'',
      fl_max_tokens = env ''AEGRAIL_ENGINE_MAX_TOKENS'',
      fl_shutdown_timeout = 10 * 10 ^ 9, fl_version = False\<rparr>"

definition parse_bool :: "string \<Rightarrow> bool option" where
  "parse_bool s =
     (if s \<in> {''1'', ''t'', ''T'', ''TRUE'', ''true'', ''True''} then Some True
      else if s \<in> {''0'', ''f'', ''F'', ''FALSE'', ''false'', ''False''} then Some False
      else None)"

definition bool_flags :: "string list" where
  "bool_flags = [''audit-stdout'', ''version'']"

definition value_flags :: "string list" where
  "value_flags = [''listen'', ''agent-identity'', ''allowlist'', ''audit-file'', ''max-requests'',
     ''rate-limit'', ''max-tokens'', ''shutdown-timeout'']"

text \<open>Setting a flag to a value; the argument parses a duration.\<close>

definition set_flag :: "(string \<Rightarrow> int option) \<Rightarrow> string \<Rightarrow> string \<Rightarrow> flags \<Rightarrow> flags option" where
  "set_flag duration name v fl =
     (if name = ''listen'' then Some (fl\<lparr>fl_listen := v\<rparr>)
      else if name = ''agent-identity'' then Some (fl\<lparr>fl_agent_identity := v\<rparr>)
      else if name = ''allowlist'' then Some (fl\<lparr>fl_allowlist := v\<rparr>)
      else if name = ''audit-file'' then Some (fl\<lparr>fl_audit_file := v\<rparr>)
      else if name = ''max-requests'' then Some (fl\<lparr>fl_max_requests := v\<rparr>)
      else if name = ''rate-limit'' then Some (fl\<lparr>fl_rate_limit := v\<rparr>)
      else if name = ''max-tokens'' then Some (fl\<lparr>fl_max_tokens := v\<rparr>)
      else if name = ''shutdown-timeout''
      then map_option (\<lambda>d. fl\<lparr>fl_shutdown_timeout := d\<rparr>) (duration v)
      else if name = ''audit-stdout'' then map_option (\<lambda>b. fl\<lparr>fl_audit_stdout := b\<rparr>) (parse_bool v)
      else if name = ''version'' then map_option (\<lambda>b. fl\<lparr>fl_version := b\<rparr>) (parse_bool v)
      else None)"

text \<open>
  \<open>flag.Parse\<close> with its \<open>ExitOnError\<close>: the flags and the remaining arguments, or the status with
  which the process exits (0 for the help, 2 for an error).
\<close>

fun flag_parse :: "(string \<Rightarrow> int option) \<Rightarrow> string list \<Rightarrow> flags \<Rightarrow> (nat, flags \<times> string list) result" where
  "flag_parse duration [] fl = Inr (fl, [])"
| "flag_parse duration (s # args) fl =
     (if length s < 2 \<or> hd s \<noteq> CHR ''-'' then Inr (fl, s # args)
      else if s = ''--'' then Inr (fl, args)
      else
        (let full = (if s ! 1 = CHR ''-'' then drop 2 s else drop 1 s) in
         if hd full = CHR ''-'' \<or> hd full = CHR ''='' then Inl 2
         else
           (case split_once (CHR ''='') full of
              (name, given) \<Rightarrow>
                if name \<in> set bool_flags then
                  (case set_flag duration name (case given of Some v \<Rightarrow> v | None \<Rightarrow> ''true'') fl of
                     Some fl' \<Rightarrow> flag_parse duration args fl'
                   | None \<Rightarrow> Inl 2)
                else if name \<in> set value_flags then
                  (case given of
                     Some v \<Rightarrow>
                       (case set_flag duration name v fl of
                          Some fl' \<Rightarrow> flag_parse duration args fl' | None \<Rightarrow> Inl 2)
                   | None \<Rightarrow>
                       (case args of
                          [] \<Rightarrow> Inl 2
                        | v # rest \<Rightarrow>
                            (case set_flag duration name v fl of
                               Some fl' \<Rightarrow> flag_parse duration rest fl' | None \<Rightarrow> Inl 2)))
                else if name = ''help'' \<or> name = ''h'' then Inl 0
                else Inl 2)))"

section \<open>The sink\<close>

datatype engine_sink = StdoutSink stdout_sink | FileSink file_sink

text \<open>The outcomes of the I/O of an \<open>Emit\<close>, for either sink.\<close>

type_synonym sink_io = "write_outcome \<times> file_io"

fun sink_emit :: "sink_io \<Rightarrow> event \<Rightarrow> engine_sink \<Rightarrow> sink_error option \<times> engine_sink" where
  "sink_emit io e (StdoutSink s) = (case stdout_emit (fst io) e s of (r, s') \<Rightarrow> (r, StdoutSink s'))"
| "sink_emit io e (FileSink s) = (case file_emit (snd io) e s of (r, s') \<Rightarrow> (r, FileSink s'))"

text \<open>What the process meets when it starts.\<close>

record ('c, 's, 'ip) world =
  wo_env :: "string \<Rightarrow> string"
  wo_duration :: "string \<Rightarrow> int option"
  wo_mkdir :: "string \<Rightarrow> bool"
  wo_view :: "string \<Rightarrow> file_view"
  wo_open :: "string \<Rightarrow> bool"
  wo_read :: "string \<Rightarrow> string option"
  wo_random :: "string option"
  wo_unix_ms :: int
  wo_mono :: int
  wo_serial :: int
  wo_wall :: int
  wo_clock :: "nat \<Rightarrow> reading"
  wo_gen_key :: "'s option"
  wo_self_sign :: "'ip template \<Rightarrow> 's \<Rightarrow> string option"
  wo_parse_cert :: "string \<Rightarrow> 'c option"
  wo_to_pem :: "string \<Rightarrow> string"
  wo_pem_block :: "string \<Rightarrow> string option"
  wo_pkcs8 :: "string \<Rightarrow> 's pkcs8 option"
  wo_pkcs1 :: "string \<Rightarrow> 's option"
  wo_sec1 :: "string \<Rightarrow> 's option"

datatype open_sink_error = BothSinks | FileSinkFailed open_error

definition open_sink :: "('c, 's, 'ip) world \<Rightarrow> string \<Rightarrow> bool \<Rightarrow> (open_sink_error, engine_sink) result" where
  "open_sink w file_path stdout_flag =
     (if file_path \<noteq> [] then
        (if stdout_flag then Inl BothSinks
         else map_sum FileSinkFailed FileSink
                (new_file_sink (wo_mkdir w file_path) (wo_view w file_path) (wo_open w file_path)))
      else Inr (StdoutSink new_stdout_sink))"

section \<open>Parsing the configuration\<close>

text \<open>The loop over the comma-separated pieces.\<close>

fun trimmed_pieces :: "string list \<Rightarrow> string list" where
  "trimmed_pieces [] = []"
| "trimmed_pieces (p # ps) =
     (let q = trim_space p in if q \<noteq> [] then q # trimmed_pieces ps else trimmed_pieces ps)"

definition parse_allowlist :: "string \<Rightarrow> string list" where
  "parse_allowlist raw = trimmed_pieces (split_on (CHR '','') raw)"

text \<open>A cap from its flag: none when blank, zero or negative.\<close>

definition parse_cap :: "string \<Rightarrow> (num_error, int64 option) result" where
  "parse_cap raw =
     (if trim_space raw \<noteq> [] then
        rbind (parse_int64 (trim_space raw)) (\<lambda>n. Inr (if 0 < sint n then Some n else None))
      else Inr None)"

definition build_mitm_config :: "(string, string, 'ip) world \<Rightarrow> (cert_error, mitm_config option) result" where
  "build_mitm_config w =
     (let raw = trim_space (wo_env w ''AEGRAIL_ENGINE_MITM_HOSTS'') in
      if raw = [] then Inr None
      else
        (let patterns = trimmed_pieces (split_on (CHR '','') raw) in
         if patterns = [] then Inr None
         else
           (let cert_path = wo_env w ''AEGRAIL_ENGINE_MITM_CA_CERT_FILE'';
                key_path = wo_env w ''AEGRAIL_ENGINE_MITM_CA_KEY_FILE'' in
            rbind
              (if cert_path \<noteq> [] \<and> key_path \<noteq> []
               then load_authority (wo_read w) (wo_pem_block w) (wo_parse_cert w)
                      (parse_any_private_key (wo_pkcs8 w) (wo_pkcs1 w) (wo_sec1 w)) cert_path key_path
               else new_authority (wo_gen_key w) (wo_self_sign w) (wo_parse_cert w) (wo_to_pem w)
                      (wo_serial w) (wo_wall w) (365 * 24 * hour))
              (\<lambda>authority. Inr (Some \<lparr>mc_authority = authority, mc_host_patterns = patterns\<rparr>)))))"

section \<open>Starting\<close>

definition engine_version :: string where
  "engine_version = ''0.4.3''"

datatype startup_error =
    EmptyAllowlist | PolicyFailed policy_error | SinkFailed open_sink_error | SessionFailed
  | MaxRequestsFailed num_error | RateLimitFailed rate_error | MaxTokensFailed num_error
  | MitmFailed cert_error

text \<open>A serving engine: the proxy and the flags.\<close>

record engine =
  en_proxy :: "engine_sink proxy"
  en_flags :: flags

text \<open>
  The start, from the allowlist to the \<open>engine_start\<close> event, in the order of \<open>run\<close>. The I/O
  outcomes are those of the sink's later writes.
\<close>

definition start_engine :: "sink_io \<Rightarrow> (string, string, 'ip) world \<Rightarrow> flags \<Rightarrow> (startup_error, engine) result" where
  "start_engine io w fl =
     (let patterns = parse_allowlist (fl_allowlist fl) in
      if patterns = [] then Inl EmptyAllowlist
      else
        rbind (map_sum PolicyFailed id (policy_new patterns)) (\<lambda>pol.
        rbind (map_sum SinkFailed id (open_sink w (fl_audit_file fl) (fl_audit_stdout fl))) (\<lambda>snk.
        rbind (case new_session (fl_agent_identity fl) (wo_random w) (wo_unix_ms w) of
                 None \<Rightarrow> Inl SessionFailed | Some ss \<Rightarrow> Inr ss) (\<lambda>ss.
        rbind (map_sum MaxRequestsFailed id (parse_cap (fl_max_requests fl))) (\<lambda>max_requests.
        rbind (map_sum RateLimitFailed id (parse_rate_spec (fl_rate_limit fl) (wo_mono w))) (\<lambda>limiter.
        rbind (map_sum MaxTokensFailed id (parse_cap (fl_max_tokens fl))) (\<lambda>max_tokens.
        rbind (map_sum MitmFailed id (build_mitm_config w)) (\<lambda>mitm.
          Inr \<lparr>en_proxy = emit_engine_start engine_version
                 \<lparr>px_policy = Some pol, px_sink = Some \<lparr>sv_emit = sink_emit io, sv_state = snk\<rparr>,
                  px_session = Some ss, px_counter = map_option new_request_counter max_requests,
                  px_limiter = limiter, px_budget = map_option new_token_budget max_tokens,
                  px_mitm = mitm, px_dial_timeout = 0, px_forward_timeout = 0,
                  px_clock = wo_clock w, px_tick = 0, px_trace = []\<rparr>,
               en_flags = fl\<rparr>))))))))"

text \<open>\<open>main\<close>: the flags, the version, the start.\<close>

datatype 'e outcome = ExitStatus nat | PrintVersion string | Failed startup_error | Serving 'e

definition run_engine :: "sink_io \<Rightarrow> (string, string, 'ip) world \<Rightarrow> string list \<Rightarrow> engine outcome" where
  "run_engine io w args =
     (case flag_parse (wo_duration w) args (default_flags (wo_env w)) of
        Inl status \<Rightarrow> ExitStatus status
      | Inr (fl, rest) \<Rightarrow>
          if fl_version fl \<or> rest \<noteq> [] \<and> hd rest = ''version'' then PrintVersion engine_version
          else (case start_engine io w fl of Inl e \<Rightarrow> Failed e | Inr en \<Rightarrow> Serving en))"

section \<open>Serving\<close>

text \<open>
  A request as the server hands it over: whether its request line has \<open>*\<close> for a target, whether it
  is HTTP/1.1, its escaped path, and the location (plain and HTML-escaped) a redirect names.
\<close>

record engine_call =
  ec_call :: call
  ec_star :: bool
  ec_http11 :: bool
  ec_path :: string
  ec_location :: "string \<times> string"

definition liveness_handler :: "'s proxy \<Rightarrow> 's proxy" where
  "liveness_handler p = respond 200 [] (Text (''ok'' @ [CHR 0x0A])) p"

definition readiness_handler :: "'s proxy \<Rightarrow> 's proxy" where
  "readiness_handler p = respond 200 [] (Text (''ready'' @ [CHR 0x0A])) p"

definition mux_serve :: "engine_call \<Rightarrow> 's proxy \<Rightarrow> 's proxy" where
  "mux_serve c p =
     (if ec_star c
      then respond 400 (if ec_http11 c then [(''Connection'', ''close'')] else []) (Text []) p
      else
        (case mux_route [''healthz'', ''readyz''] (ec_path c) of
           Moved \<Rightarrow>
             (let m = rq_method (cl_request (ec_call c)) in
              respond 301 (moved_headers m (fst (ec_location c))) (Text (moved_body m (snd (ec_location c)))) p)
         | Literal l \<Rightarrow> if l = ''healthz'' then liveness_handler p else readiness_handler p
         | CatchAll \<Rightarrow> serve_http (ec_call c) p))"

definition root_handler :: "engine_call \<Rightarrow> 's proxy \<Rightarrow> 's proxy" where
  "root_handler c p =
     (if rq_method (cl_request (ec_call c)) = method_connect then serve_http (ec_call c) p
      else mux_serve c p)"

text \<open>The signal: the shutdown event comes first, then the server drains.\<close>

definition stop_engine :: "'s proxy \<Rightarrow> 's proxy" where
  "stop_engine p = emit_engine_shutdown ''sigterm'' p"

end
