(* ===== verification/Proxy_Safety.thy ===== *)
theory Proxy_Safety
  imports Proxy_Log
begin

text \<open>
  The properties of the proxy as a whole: what it contacts, what it audits, what it refuses, and
  what its log holds.
\<close>

section \<open>The host that is checked and the host that is dialed\<close>

lemma first_index_Some:
  assumes "first_index s c = Some e"
  shows "s = take e s @ c # drop (Suc e) s" and "e < length s"
proof -
  from assms have c: "c \<in> set s" and e: "e = length (takeWhile (\<lambda>d. d \<noteq> c) s)"
    by (simp_all add: first_index_def split: if_splits)
  have d: "dropWhile (\<lambda>d. d \<noteq> c) s \<noteq> []" using c by (auto simp: dropWhile_eq_Nil_conv)
  with hd_dropWhile [OF d] have "hd (dropWhile (\<lambda>d. d \<noteq> c) s) = c" by simp
  moreover have s: "s = takeWhile (\<lambda>d. d \<noteq> c) s @ dropWhile (\<lambda>d. d \<noteq> c) s" by simp
  ultimately have "s = takeWhile (\<lambda>d. d \<noteq> c) s @ c # tl (dropWhile (\<lambda>d. d \<noteq> c) s)"
    using d by (metis list.collapse)
  then obtain a b where ab: "s = a @ c # b" "length a = e" using e by metis
  then show "s = take e s @ c # drop (Suc e) s" "e < length s" by auto
qed

lemma bracketed_host:
  assumes "first_index s (CHR '']'') = Some e" and "CHR '']'' \<notin> set (drop (Suc e) s)"
    and "has_prefix s ''[''"
  shows "last_index s (CHR '']'') = Some e" and "take (Suc e) s = ''['' @ drop 1 (take e s) @ '']''"
proof -
  note s = first_index_Some [OF assms(1)]
  have "\<exists>a b. s = a @ CHR '']'' # b \<and> CHR '']'' \<notin> set b \<and> length a = e"
    using s assms(2) by (intro exI [of _ "take e s"] exI [of _ "drop (Suc e) s"]) simp
  then show "last_index s (CHR '']'') = Some e" by (simp add: last_index_Some)
  from assms(3) obtain t where t: "s = CHR ''['' # t" by (auto simp: has_prefix_def) (cases s; simp)
  with assms(1) have "0 < e" by (auto simp: first_index_def split: if_splits)
  then obtain k where k: "e = Suc k" by (cases e) auto
  have "take (Suc e) s = take e s @ [s ! e]" using s(2) by (simp add: take_Suc_conv_app_nth)
  moreover have "s ! e = CHR '']''" using s by (metis nth_append_length length_take min.absorb2 less_imp_le)
  ultimately show "take (Suc e) s = ''['' @ drop 1 (take e s) @ '']''" using t k by simp
qed

lemma bracketed_host_kept:
  assumes "split_host_port s = Inr (h, port)" and "has_prefix s ''[''"
  shows "host_without_port s = ''['' @ h @ '']''"
proof -
  from assms(1) obtain i where i: "last_index s (CHR '':'') = Some i"
    by (auto simp: split_host_port_def split: option.splits)
  with assms obtain e where e: "first_index s (CHR '']'') = Some e" "Suc e = i"
    "CHR '']'' \<notin> set (drop (Suc e) s)" "h = drop 1 (take e s)"
    by (auto simp: split_host_port_def split: option.splits if_splits)
  then show ?thesis using bracketed_host [OF e(1,3) assms(2)] assms(2) i by (auto simp: host_without_port_def)
qed



section \<open>Only allowed hosts are contacted\<close>

text \<open>
  C1. Egress control: whatever requests the proxy serves, every address it contacts has a host the
  policy allows, as long as no upstream of a TLS-terminated connection answers with a redirect.
\<close>

theorem egress_only_allowed:
  assumes "px_trace p = []" and "\<forall>c \<in> set cs. unredirected (cl_mitm c)"
    and "a \<in> set (contacts (px_trace (run_calls serve_http cs p)))"
  shows "policy_allows (px_policy p) (host_without_port a)"
  using server.run_contacts [OF assms(2,3)] assms(1) by simp


text \<open>
  C14. A request for a host the policy does not allow, once the preflight checks have let it pass,
  is answered 403 and recorded as \<open>egress_denied\<close>, on both paths, and nothing is contacted.
\<close>

theorem denied_host_gets_403:
  assumes "configured p" and "fst (preflight (cl_request c) p)" and "rq_url (cl_request c) = Some u"
    and "host = host_without_port (connect_target u (cl_request c))" and "host \<noteq> []"
    and "\<not> policy_allows (px_policy p) host"
  shows "statuses (px_trace (serve_http c p)) = statuses (px_trace p) @ [403] \<and>
    contacts (px_trace (serve_http c p)) = contacts (px_trace p) \<and>
    (\<exists>ev. audits (px_trace (serve_http c p)) = audits (px_trace p) @ [ev] \<and>
       ev_type ev = type_egress_denied \<and> map_of (the (ev_payload ev)) ''host'' = Some (GStr host))"
proof -
  obtain q where q: "preflight (cl_request c) p = (True, q)" using assms(2) by (cases "preflight (cl_request c) p") auto
  then have quiet: "quiet p q" using preflight_passes [OF assms(1), of "cl_request c"]
    by (simp add: passes_or_refuses_def)
  then have cq: "configured q" and pol: "px_policy q = px_policy p" and tr: "px_trace q = px_trace p"
    using assms(1) by (simp_all add: quiet_configured) (simp_all add: quiet_def same_config_def)
  have h: "request_host (cl_request c) = host" using request_host_target assms(3,4) by simp
  have d: "dispatch c q = deny_host (connect_payload host (connect_target u (cl_request c)) @
       [(''reason'', GStr ''not_in_allowlist'')]) host q \<or>
    dispatch c q = deny_host [(''host'', GStr host), (''method'', GStr (rq_method (cl_request c))),
       (''path'', GStr (u_path u)), (''reason'', GStr ''not_in_allowlist'')] host q"
    using assms(3-6) h pol by (simp add: dispatch_def handle_connect_def handle_http_def Let_def)
  have s: "serve_http c p = dispatch c q" using q assms(1) by (simp add: serve_http_def)
  show ?thesis
    using d cq by (auto simp: s deny_host_def tr make_event_def connect_payload_def type_egress_denied_def)
qed

section \<open>Every request is audited\<close>

text \<open>
  C4. Exactly one audit event per request, whatever its outcome (refused, denied, failed, forwarded
  or tunnelled), unless it is a CONNECT to a host whose TLS is to be terminated. The one exception is
  a forward whose body copy breaks: it panics and leaves no event.
\<close>

theorem one_event_per_request:
  assumes "configured p" and "\<not> aborted p" and "rq_url (cl_request c) \<noteq> None"
    and "\<not> intercepted (cl_request c) (px_mitm p)"
  shows "event_count (serve_http c p) =
    (if aborted (serve_http c p) then event_count p else Suc (event_count p))"
  using assms(1)
proof (cases rule: serve_cases [where c = c])
  case Refused
  with assms(2) show ?thesis by (simp add: refused_def)
next
  case (Dispatched q)
  then have "event_count q = event_count p" "\<not> aborted q" "px_mitm q = px_mitm p"
    using assms(2) by (simp_all add: quiet_def event_count_def aborted_def)
  with dispatch_events [OF Dispatched(2) _ assms(3)] assms(4) Dispatched(3) show ?thesis by simp
qed

text \<open>
  C29. A TLS-terminated connection is one request for the preflight checks, but each decrypted
  request of it is forwarded and audited: with \<open>n\<close> of them (none redirected) there are \<open>n\<close> events
  and \<open>n\<close> contacts, whatever the request counter and the rate limiter are, and both keep their
  state.
\<close>

theorem mitm_exchanges_uncounted:
  assumes "configured p" and "rq_url r = Some u" and "target = connect_target u r"
    and "host_without_port target \<noteq> []" and "policy_allows (px_policy p) (host_without_port target)"
    and "should_mitm (px_mitm p) (host_without_port target)"
    and "mitm_opens mio (host_without_port target) (px_mitm p)" and "unredirected mio" and "n = length (mi_requests mio)"
  shows "contacts (px_trace (handle_connect r mio tio p)) = contacts (px_trace p) @ replicate n target \<and>
    event_count (handle_connect r mio tio p) = event_count p + n \<and>
    px_counter (handle_connect r mio tio p) = px_counter p \<and>
    px_limiter (handle_connect r mio tio p) = px_limiter p"
proof -
  have "handle_connect r mio tio p = handle_mitm mio target (host_without_port target) p"
    using assms(2-6) by (simp add: handle_connect_def Let_def)
  then show ?thesis
    using assms(1,7,8,9) should_mitm_Some [OF assms(6)] handle_mitm_contacts [of mio target "host_without_port target" p]
      handle_mitm_events(1) [of p mio target "host_without_port target"]
      handler_steps_keep [OF steps_handle_connect [of p r mio tio]]
    by (simp add: unredirected_def)
qed

section \<open>Exhausted budgets\<close>

text \<open>
  C13. Once the token budget is used up the proxy is closed: every further request is answered 429
  with one event, nothing is contacted, and the budget stays as it is.
\<close>

theorem exhausted_budget_blocks:
  assumes "configured p" and "px_budget p = Some b" and "over_budget b"
  shows "statuses (px_trace (run_calls serve_http cs p)) = statuses (px_trace p) @ replicate (length cs) 429 \<and>
    contacts (px_trace (run_calls serve_http cs p)) = contacts (px_trace p) \<and>
    event_count (run_calls serve_http cs p) = event_count p + length cs \<and>
    px_budget (run_calls serve_http cs p) = Some b"
  using assms(1,2)
proof (induction cs arbitrary: p)
  case (Cons c cs)
  have "refused p (serve_http c p)"
    using serve_refused [OF Cons.prems(1)] preflight_over_budget [OF Cons.prems(2) assms(3)] by blast
  moreover have "configured (serve_http c p)" using Cons.prems(1) by (simp add: serve_configured)
  ultimately show ?case using Cons.IH [of "serve_http c p"] Cons.prems(2)
    by (simp add: run_calls_def refused_def)
qed (simp add: run_calls_def)

lemma counted_contacts:
  assumes "configured p" and "px_mitm p = None"
    and "px_counter p = Some \<lparr>rc_max = m, rc_n = of_nat i\<rparr>" and "0 < sint m"
    and "int (i + length cs) \<le> int64_max"
  shows "length (contacts (px_trace (run_calls serve_http cs p))) \<le>
    length (contacts (px_trace p)) + (nat (sint m) - i)"
  using assms(1,2,3,5)
proof (induction cs arbitrary: p i)
  case (Cons c cs)
  let ?q = "serve_http c p"
  have n: "sint (of_nat (Suc i) :: int64) = int (Suc i)"
    using Cons.prems(4) by (intro sint_of_nat_int64) simp
  have ca: "counter_allow \<lparr>rc_max = m, rc_n = of_nat i\<rparr> =
    ((int (Suc i) \<le> sint m, of_nat (Suc i)), \<lparr>rc_max = m, rc_n = of_nat (Suc i)\<rparr>)"
    using n assms(4) by (simp add: counter_allow_def Let_def add.commute)
  have "px_mitm ?q = None"
    using proxy_steps_same_config [OF steps_serve_http, of p c] Cons.prems(2)
    by (simp add: same_config_def flip: mitm_hosts_None)
  then have ih: "length (contacts (px_trace (run_calls serve_http cs ?q))) \<le>
    length (contacts (px_trace ?q)) + (nat (sint m) - Suc i)"
    using serve_counter(1) [OF Cons.prems(1,3), of c] Cons.prems(1,4)
    by (intro Cons.IH) (simp_all add: ca serve_configured)
  have one: "length (contacts (px_trace ?q)) \<le> Suc (length (contacts (px_trace p)))"
    using Cons.prems(1)
  proof (cases rule: serve_cases [where c = c])
    case (Dispatched q)
    with dispatch_one_contact [of q c] Cons.prems(2) show ?thesis
      by (simp add: quiet_def same_config_def)
  qed (simp add: refused_def)
  have none: "length (contacts (px_trace ?q)) = length (contacts (px_trace p))" if "nat (sint m) \<le> i"
    using serve_counter(2) [OF Cons.prems(1,3), of c] that by (auto simp: ca refused_def)
  show ?case
  proof (cases "nat (sint m) \<le> i")
    case True
    with ih none show ?thesis by (simp add: run_calls_def)
  next
    case False
    with ih one show ?thesis by (simp add: run_calls_def)
  qed
qed (simp add: run_calls_def)


section \<open>Token accounting\<close>

lemma handle_http_forwards:
  assumes "rq_url r = Some u" and "request_host r \<noteq> []" and "policy_allows (px_policy p) (request_host r)"
  obtains t where "upstream_url_for_request r = Some t"
    and "handle_http r rt p = finish_http (request_host r) (rq_method r) (u_path u) (now p)
      (forward_http (recognise u) u t rt (perform (Outgoing (director t u r)) (tick p)))"
  using upstream_exists [OF assms(2,1)] assms by (auto simp: handle_http_def Let_def)

lemma http_usage_accounted:
  assumes "configured p" and "px_budget p = Some b" and "rq_url r = Some u" and "request_host r \<noteq> []"
    and "policy_allows (px_policy p) (request_host r)" and "ur_status resp < 400"
    and "ur_status resp \<noteq> 101" and "ur_read_error resp = None" and "ur_copy_ok resp"
    and "us = parse_response u (ur_body resp) (ur_headers resp)" and "us_recognised us"
  shows "px_budget (handle_http r (Response resp) p) = Some (snd (budget_add (us_in us + us_out us) b)) \<and>
    (\<exists>ev. audits (px_trace (handle_http r (Response resp) p)) = audits (px_trace p) @ [ev] \<and>
       ev_type ev = type_egress_allowed \<and>
       map_of (the (ev_payload ev)) ''tokens_total'' = Some (GInt (tb_used b + (us_in us + us_out us))))"
proof -
  obtain t where "handle_http r (Response resp) p = finish_http (request_host r) (rq_method r) (u_path u) (now p)
      (forward_http (recognise u) u t (Response resp) (perform (Outgoing (director t u r)) (tick p)))"
    using handle_http_forwards [OF assms(3,4,5)] by metis
  moreover have "recognise u"
    using assms(10,11) by (auto simp: parse_response_def no_usage_def split: if_splits)
  then have "forward_http (recognise u) u t (Response resp) q =
    (FwdDone (ur_status resp) us, perform (Forwarded (ur_status resp) (ur_body resp))
      (perform (Contact (u_host t)) q))" for q :: "'a proxy"
    using assms by (simp add: forward_http_def modify_response_def)
  moreover obtain ok b' where ba: "budget_add (us_in us + us_out us) b =
    ((ok, tb_used b + (us_in us + us_out us)), b')"
    by (cases "sint (tb_max b) \<le> 0") (auto simp: budget_add_def Let_def)
  ultimately show ?thesis
    using assms(1,2,11)
    by (simp add: finish_http_def account_usage_def Let_def make_event_def type_egress_allowed_def configured_def)
qed

text \<open>
  C23. The tokens of a complete response of a recognised endpoint are added to the budget, once, and
  its one \<open>egress_allowed\<close> event carries the new total.
\<close>

theorem llm_usage_accounted:
  assumes "configured p" and "px_budget p = Some b" and "rq_url r = Some u" and "request_host r \<noteq> []"
    and "policy_allows (px_policy p) (request_host r)" and "ur_status resp < 400"
    and "ur_status resp \<noteq> 101" and "ur_read_error resp = None" and "ur_copy_ok resp"
    and "us = parse_response u (ur_body resp) (ur_headers resp)" and "us_recognised us"
  shows "px_budget (handle_http r (Response resp) p) = Some (snd (budget_add (us_in us + us_out us) b)) \<and>
    (\<exists>ev. audits (px_trace (handle_http r (Response resp) p)) = audits (px_trace p) @ [ev] \<and>
       ev_type ev = type_egress_allowed \<and>
       map_of (the (ev_payload ev)) ''tokens_total'' = Some (GInt (tb_used b + (us_in us + us_out us))))"
  using http_usage_accounted [OF assms] .

text \<open>
  C37. A forward whose copy to the client breaks is lost to the books: the response has been relayed
  as far as it went, but no event is emitted and no tokens are counted.
\<close>

theorem broken_copy_unaudited:
  assumes "rq_url r = Some u" and "request_host r \<noteq> []" and "policy_allows (px_policy p) (request_host r)"
    and "ur_status resp \<noteq> 101" and "ur_read_error resp = None" and "\<not> ur_copy_ok resp"
  shows "Forwarded (ur_status resp) (ur_body resp) \<in> set (px_trace (handle_http r (Response resp) p)) \<and>
    audits (px_trace (handle_http r (Response resp) p)) = audits (px_trace p) \<and>
    px_budget (handle_http r (Response resp) p) = px_budget p"
proof -
  obtain t where "handle_http r (Response resp) p = finish_http (request_host r) (rq_method r) (u_path u) (now p)
      (forward_http (recognise u) u t (Response resp) (perform (Outgoing (director t u r)) (tick p)))"
    using handle_http_forwards [OF assms(1,2,3)] by metis
  then show ?thesis
    using assms by (simp add: forward_http_def modify_response_def finish_http_def split: if_splits)
qed

section \<open>Redirects\<close>

lemma contacting_extends: "contacting p q \<Longrightarrow> \<exists>rest. contacts (px_trace q) = contacts (px_trace p) @ rest"
  by (induction rule: contacting.induct) auto

lemma forward_redirected:
  assumes "me_hops ex 0 = HopResponse resp (GoTo v)"
    and "redirect_behavior (me_method ex) (ur_status resp) (me_has_body ex) = Some m"
  shows "\<exists>rest. contacts (px_trace (forward_mitm_request ex host target p)) =
    contacts (px_trace p) @ [u_host (me_url ex), u_host v] @ rest"
proof -
  let ?p0 = "perform (Outgoing (exchange_outgoing ex)) (tick p)"
  let ?c = "client_do 9 (me_wrap ex) (me_hops ex) (me_has_body ex) 0 (me_method ex) (me_url ex) ?p0"
  obtain res q where c: "?c = (res, q)" by fastforce
  let ?p1 = "perform (Contact (u_host (me_url ex))) ?p0"
  let ?d = "client_do 8 (me_wrap ex) (me_hops ex) (me_has_body ex) 1 m v ?p1"
  have "?c = ?d" using assms by (subst client_do.simps) (simp add: eval_nat_numeral)
  then have "contacting (perform (Contact (u_host v)) ?p1) q" using client_do_first c by (metis snd_conv)
  from contacting_extends [OF this]
  have "\<exists>rest. contacts (px_trace q) = contacts (px_trace p) @ [u_host (me_url ex), u_host v] @ rest" by simp
  then show ?thesis
    by (auto simp: forward_mitm_request_def c Let_def split_beta split: sum.splits option.splits)
qed

text \<open>
  C25. A redirect escapes the allowlist: when the upstream of a TLS-terminated connection answers a
  request with a redirect that \<open>http.Client\<close> follows, the address it names is contacted, whatever
  the policy says of it.
\<close>

theorem mitm_redirect_escapes:
  assumes "me_hops ex 0 = HopResponse resp (GoTo v)"
    and "redirect_behavior (me_method ex) (ur_status resp) (me_has_body ex) = Some m"
  shows "\<exists>rest. contacts (px_trace (forward_mitm_request (rewrite_exchange target ex) host target p)) =
    contacts (px_trace p) @ [target, u_host v] @ rest"
  using forward_redirected [of "rewrite_exchange target ex" resp v m host target p] assms
  by (simp add: rewrite_exchange_def)

section \<open>The log\<close>

text \<open>
  C6. The audit trail is complete: from a fresh proxy on a working stdout sink, with a limiter
  whose parameters are finite, every interleaving of requests leaves a log that holds every event
  the proxy emitted, each stamped, in order, and that \<open>VerifyChain\<close> accepts.
\<close>

theorem proxy_log_complete:
  assumes "px_sink p = Some \<lparr>sv_emit = stdout_emit WriteOk, sv_state = new_stdout_sink\<rparr>"
    and "px_session p \<noteq> None" and "finite_limiter (px_limiter p)" and "px_trace p = []"
    and "proxy_steps p q"
  shows "\<exists>sv es. px_sink q = Some sv \<and> so_out (sv_state sv) = log_text es \<and>
    verify_chain es = (True, - 1, None) \<and>
    list_all2 (\<lambda>e e'. \<exists>prev h. e' = stamp e prev h) (audits (px_trace q)) es"
proof -
  have "all_logged (stdout_emit WriteOk) (\<lambda>s. True) (logs so_last so_out [] None) p"
    using assms by (simp add: all_logged_def logs_def new_stdout_sink_def)
  from sov.steps_logged [OF _ assms(5) this]
  show ?thesis by (auto simp: all_logged_def logs_def verify_chain_linked)
qed

text \<open>
  The same for a file sink opened on an existing log: what is appended are the lines of all the
  events emitted, linked to the hash the file ended with, and what was there is untouched.
\<close>

theorem proxy_file_log_complete:
  assumes "px_sink p = Some \<lparr>sv_emit = file_emit \<lparr>fio_write = WriteOk, fio_sync = True\<rparr>, sv_state = s0\<rparr>"
    and "fs_open s0" and "px_session p \<noteq> None" and "finite_limiter (px_limiter p)" and "px_trace p = []"
    and "proxy_steps p q"
  shows "\<exists>sv es. px_sink q = Some sv \<and> fs_data (sv_state sv) = fs_data s0 @ log_text es \<and>
    linked compute_event_hash ev_event_hash (fs_last s0) es \<and>
    list_all2 (\<lambda>e e'. \<exists>prev h. e' = stamp e prev h) (audits (px_trace q)) es"
proof -
  have "all_logged (file_emit \<lparr>fio_write = WriteOk, fio_sync = True\<rparr>) fs_open
      (logs fs_last fs_data (fs_data s0) (fs_last s0)) p"
    using assms by (simp add: all_logged_def logs_def)
  from fsv.steps_logged [OF _ assms(6) this]
  show ?thesis by (auto simp: all_logged_def logs_def)
qed

section \<open>Concrete runs\<close>

definition proxy_with :: "'s sink_value \<Rightarrow> 's proxy" where
  "proxy_with sv =
     \<lparr>px_policy = Some \<lparr>pol_patterns = [''a.io'']\<rparr>, px_sink = Some sv,
      px_session = Some \<lparr>ss_agent_identity = ''agent'', ss_session_id = ''s''\<rparr>,
      px_counter = None, px_limiter = None, px_budget = None, px_mitm = None,
      px_dial_timeout = 0, px_forward_timeout = 0,
      px_clock = \<lambda>_. \<lparr>ck_wall_ms = 0, ck_mono = 0\<rparr>, px_tick = 0, px_trace = []\<rparr>"

definition demo_proxy :: "stdout_sink proxy" where
  "demo_proxy = proxy_with \<lparr>sv_emit = stdout_emit WriteOk, sv_state = new_stdout_sink\<rparr>"

definition ok_response :: upstream_response where
  "ok_response = \<lparr>ur_status = 200, ur_headers = [], ur_body = ''hi'', ur_read_error = None,
     ur_copy_ok = True, ur_upgrade_error = None\<rparr>"

definition demo_exchange :: "location \<Rightarrow> nat \<Rightarrow> mitm_exchange" where
  "demo_exchange loc status =
     \<lparr>me_method = ''GET'', me_url = \<lparr>u_scheme = [], u_host = [], u_path = ''/''\<rparr>,
      me_host = ''a.io'', me_header = [(''Proxy-Connection'', [''close''])], me_has_body = False,
      me_hops = \<lambda>i. if i = 0 then HopResponse (ok_response\<lparr>ur_status := status\<rparr>) loc else HopError ''closed'',
      me_wrap = \<lambda>e. e, me_write_error = None\<rparr>"

definition demo_minting :: tls_minting where
  "demo_minting = \<lparr>mt_gen = Some ''k'', mt_sign = (\<lambda>t c k s. Some (tm_common_name t @ c)),
     mt_raw = (\<lambda>c. c), mt_parse_ip = (\<lambda>h. None)\<rparr>"

definition demo_authority :: tls_authority where
  "demo_authority = make_authority ''C'' ''K'' ''P''"

definition demo_mitm :: mitm_io where
  "demo_mitm =
     \<lparr>mi_minting = demo_minting, mi_instants = demo_instants 0, mi_leaf_text = \<lambda>e. ''failed'',
      mi_hijackable = True, mi_hijack_error = None, mi_write_error = None,
      mi_handshake_error = None,
      mi_requests = [demo_exchange NoLocation 200, demo_exchange NoLocation 200]\<rparr>"

definition demo_call :: "string \<Rightarrow> string \<Rightarrow> call" where
  "demo_call method host =
     \<lparr>cl_request = \<lparr>rq_method = method, rq_url = Some \<lparr>u_scheme = ''http'', u_host = host, u_path = ''/''\<rparr>,
                     rq_host = host, rq_header = [(''Proxy-Authorization'', [''Basic x''])]\<rparr>,
      cl_round_trip = Response ok_response, cl_mitm = demo_mitm,
      cl_tunnel = \<lparr>ti_dial_error = None, ti_hijackable = True, ti_hijack_error = None,
                    ti_write_error = None, ti_loaded = (0, 0)\<rparr>\<rparr>"

lemma proxy_with_simps [simp]:
  "configured (proxy_with sv)" "px_trace (proxy_with sv) = []" "px_mitm (proxy_with sv) = None"
  "px_counter (proxy_with sv) = None" "px_limiter (proxy_with sv) = None"
  "px_budget (proxy_with sv) = None" "px_session (proxy_with sv) \<noteq> None"
  "px_policy (proxy_with sv) = Some \<lparr>pol_patterns = [''a.io'']\<rparr>" "\<not> aborted (proxy_with sv)"
  "px_sink (proxy_with sv) = Some sv" "finite_limiter None"
  by (simp_all add: proxy_with_def configured_def aborted_def finite_limiter_def rl_rate_of_def
      rl_burst_of_def is_finite_def)

lemma demo_configured [simp]: "configured demo_proxy" "px_trace demo_proxy = []" "px_mitm demo_proxy = None"
  "px_counter demo_proxy = None" "px_limiter demo_proxy = None" "px_budget demo_proxy = None"
  "px_policy demo_proxy = Some \<lparr>pol_patterns = [''a.io'']\<rparr>" "\<not> aborted demo_proxy"
  by (simp_all add: demo_proxy_def)

lemma literal_matches: "literal l \<Longrightarrow> plain h \<Longrightarrow> match_ok l h \<longleftrightarrow> h = l"
  by (simp add: match_ok_sem pattern_matches_literal)

lemma demo_policy [simp]:
  "policy_allows (Some \<lparr>pol_patterns = [''a.io'']\<rparr>) ''a.io''"
  "\<not> policy_allows (Some \<lparr>pol_patterns = [''a.io'']\<rparr>) ''b.io''"
  "match_ok ''a.io'' ''a.io''"
  by (simp_all add: policy_allows_def literal_matches literal_def is_meta_def is_star_def)

lemma demo_hosts [simp]:
  "host_without_port ''a.io:80'' = ''a.io''" "host_without_port ''b.io:80'' = ''b.io''"
  by (simp_all add: host_without_port_def has_prefix_def)

lemma demo_preflight [simp]:
  "px_counter p = None \<Longrightarrow> px_limiter p = None \<Longrightarrow> px_budget p = None \<Longrightarrow> preflight r p = (True, p)"
  by (simp add: preflight_def and_then_def check_counter_def check_limiter_def check_budget_def)

lemma demo_unredirected [simp]: "unredirected demo_mitm"
  "mitm_opens demo_mitm h (Some \<lparr>mc_authority = demo_authority, mc_host_patterns = ps\<rparr>)"
  by (simp_all add: unredirected_def mitm_opens_def tls_opens_def leaf_minted_def leaf_for_def mint_leaf_def
      make_authority_def demo_authority_def demo_minting_def demo_mitm_def demo_exchange_def no_redirect_def)

declare demo_call_def [concrete_run] serve_http_def [concrete_run] dispatch_def [concrete_run]
  handle_connect_def [concrete_run] connect_target_def [concrete_run] should_mitm_def [concrete_run]
  open_tunnel_contacts [concrete_run]

lemma demo_connect: "contacts (px_trace (serve_http (demo_call method_connect ''a.io:80'') demo_proxy)) = [''a.io:80'']"
  by (simp add: concrete_run)

theorem egress_only_allowed_witness:
  "\<exists>a. a \<in> set (contacts (px_trace (run_calls serve_http [demo_call method_connect ''a.io:80''] demo_proxy))) \<and>
     policy_allows (px_policy demo_proxy) (host_without_port a)"
  using egress_only_allowed [of demo_proxy "[demo_call method_connect ''a.io:80'']" "''a.io:80''"] demo_connect
  by (simp add: run_calls_def demo_call_def)


theorem denied_host_gets_403_witness:
  "statuses (px_trace (serve_http (demo_call ''GET'' ''b.io:80'') demo_proxy)) = [403]"
  using denied_host_gets_403 [of demo_proxy "demo_call ''GET'' ''b.io:80''"
      "\<lparr>u_scheme = ''http'', u_host = ''b.io:80'', u_path = ''/''\<rparr>" "''b.io''"]
  by (simp add: demo_call_def connect_target_def)

theorem one_event_per_request_witness:
  "event_count (serve_http (demo_call method_connect ''b.io:80'') demo_proxy) = 1"
proof -
  let ?q = "serve_http (demo_call method_connect ''b.io:80'') demo_proxy"
  have "\<not> aborted ?q"
    by (simp add: concrete_run deny_host_def Let_def)
  then show ?thesis using one_event_per_request [of demo_proxy "demo_call method_connect ''b.io:80''"]
    by (simp add: demo_call_def event_count_def)
qed

definition demo_mitm_proxy :: "stdout_sink proxy" where
  "demo_mitm_proxy = demo_proxy\<lparr>px_mitm := Some \<lparr>mc_authority = demo_authority, mc_host_patterns = [''a.io'']\<rparr>,
     px_counter := Some \<lparr>rc_max = 1, rc_n = 1\<rparr>\<rparr>"

theorem mitm_exchanges_uncounted_witness:
  "contacts (px_trace (handle_connect (cl_request (demo_call method_connect ''a.io:80'')) demo_mitm
     (cl_tunnel (demo_call method_connect ''a.io:80'')) demo_mitm_proxy)) = [''a.io:80'', ''a.io:80'']"
proof -
  have "configured demo_mitm_proxy" "px_trace demo_mitm_proxy = []"
    "px_policy demo_mitm_proxy = px_policy demo_proxy"
    "px_mitm demo_mitm_proxy = Some \<lparr>mc_authority = demo_authority, mc_host_patterns = [''a.io'']\<rparr>"
    by (simp_all add: demo_mitm_proxy_def demo_proxy_def proxy_with_def configured_def)
  then show ?thesis
    using mitm_exchanges_uncounted [of demo_mitm_proxy "cl_request (demo_call method_connect ''a.io:80'')"
        "\<lparr>u_scheme = ''http'', u_host = ''a.io:80'', u_path = ''/''\<rparr>" "''a.io:80''" demo_mitm 2
        "cl_tunnel (demo_call method_connect ''a.io:80'')"]
    by (simp add: demo_call_def connect_target_def should_mitm_def demo_mitm_def [THEN arg_cong, of mi_requests]
        eval_nat_numeral)
qed

theorem exhausted_budget_blocks_witness:
  "statuses (px_trace (run_calls serve_http [demo_call ''GET'' ''a.io:80'', demo_call ''GET'' ''a.io:80'']
     (demo_proxy\<lparr>px_budget := Some \<lparr>tb_max = 5, tb_used = 7\<rparr>\<rparr>))) = [429, 429]"
proof -
  let ?p = "demo_proxy\<lparr>px_budget := Some \<lparr>tb_max = 5, tb_used = 7\<rparr>\<rparr>"
  have "configured ?p" "px_trace ?p = []" by (simp_all add: demo_proxy_def proxy_with_def configured_def)
  then show ?thesis
    using exhausted_budget_blocks [of ?p "\<lparr>tb_max = 5, tb_used = 7\<rparr>"
        "[demo_call ''GET'' ''a.io:80'', demo_call ''GET'' ''a.io:80'']"]
    by (simp add: over_budget_def)
qed


definition bedrock_url :: url where
  "bedrock_url = \<lparr>u_scheme = ''http'', u_host = ''bedrock-runtime.x.amazonaws.com'', u_path = ''/model/m/converse''\<rparr>"

definition bedrock_request :: request where
  "bedrock_request =
     \<lparr>rq_method = ''POST'', rq_url = Some bedrock_url, rq_host = ''bedrock-runtime.x.amazonaws.com'', rq_header = []\<rparr>"

definition bedrock_response :: "string \<Rightarrow> upstream_response" where
  "bedrock_response tokens = ok_response\<lparr>ur_headers :=
     [(''X-Amzn-Bedrock-Input-Token-Count'', [''5'']), (''X-Amzn-Bedrock-Output-Token-Count'', [tokens])]\<rparr>"

definition bedrock_proxy :: "token_budget \<Rightarrow> stdout_sink proxy" where
  "bedrock_proxy b = demo_proxy\<lparr>px_policy := Some \<lparr>pol_patterns = [''bedrock-runtime.x.amazonaws.com'']\<rparr>,
     px_budget := Some b\<rparr>"

lemma bedrock_simps [simp]:
  "rq_url bedrock_request = Some bedrock_url" "request_host bedrock_request = ''bedrock-runtime.x.amazonaws.com''"
  "ur_status (bedrock_response n) = 200" "ur_read_error (bedrock_response n) = None" "ur_copy_ok (bedrock_response n)"
  "configured (bedrock_proxy b)" "px_budget (bedrock_proxy b) = Some b" "px_trace (bedrock_proxy b) = []"
  by (simp_all add: bedrock_request_def bedrock_url_def request_host_def host_without_port_def
      bedrock_response_def ok_response_def bedrock_proxy_def demo_proxy_def proxy_with_def configured_def)

lemma bedrock_allowed [simp]: "policy_allows (px_policy (bedrock_proxy b)) ''bedrock-runtime.x.amazonaws.com''"
  by (simp add: bedrock_proxy_def policy_allows_def literal_matches literal_def is_meta_def is_star_def)

lemma bedrock_sample_usage:
  assumes "us = parse_response bedrock_url (ur_body (bedrock_response n)) (ur_headers (bedrock_response n))"
  shows "us_recognised us" and "us_in us = 5" and "us_out us = atoi_value n"
proof -
  have ps: "llm_path bedrock_url = ''/model/m/converse''" "url_hostname bedrock_url = ''bedrock-runtime.x.amazonaws.com''"
    by (simp_all add: bedrock_url_def llm_path_def trim_right_byte_def url_hostname_def has_prefix_def)
  have bh: "is_bedrock_runtime_host ''bedrock-runtime.x.amazonaws.com''" "is_bedrock_invoke_path ''/model/m/converse''"
    by (simp_all add: is_bedrock_runtime_host_def is_bedrock_invoke_path_def has_prefix_def has_suffix_def)
  have "show_int 5 = ''5''" by (simp add: show_int_def show_nat.simps digit_def char_of_def bit_0)
  then have "atoi_value ''5'' = 5"
    using parse_int64_show [of 5] by (simp add: atoi_value_def int64_min_def int64_max_def)
  moreover have "us = parse_bedrock (ur_headers (bedrock_response n)) ''/model/m/converse''"
    by (simp add: assms parse_response_def recognise_def ps bh has_suffix_def)
  ultimately show "us_recognised us" "us_in us = 5" "us_out us = atoi_value n"
    by (simp_all add: parse_bedrock_def bedrock_response_def header_get_def)
qed

theorem llm_usage_accounted_witness:
  "px_budget (handle_http bedrock_request (Response (bedrock_response ''6'')) (bedrock_proxy \<lparr>tb_max = 100, tb_used = 7\<rparr>)) =
     Some \<lparr>tb_max = 100, tb_used = 18\<rparr>"
proof -
  have "show_int 6 = ''6''" by (simp add: show_int_def show_nat.simps digit_def char_of_def bit_0)
  then have at: "atoi_value ''6'' = 6"
    using parse_int64_show [of 6] by (simp add: atoi_value_def int64_min_def int64_max_def)
  show ?thesis
    using llm_usage_accounted [of "bedrock_proxy \<lparr>tb_max = 100, tb_used = 7\<rparr>" "\<lparr>tb_max = 100, tb_used = 7\<rparr>"
        bedrock_request bedrock_url "bedrock_response ''6''", OF _ _ _ _ _ _ _ _ _ refl bedrock_sample_usage(1) [OF refl]]
    by (simp add: bedrock_sample_usage [OF refl] budget_add_def at)
qed

theorem broken_copy_unaudited_witness:
  "event_count (handle_http (cl_request (demo_call ''GET'' ''a.io:80''))
     (Response (ok_response\<lparr>ur_copy_ok := False\<rparr>)) demo_proxy) = 0"
  using broken_copy_unaudited [of "cl_request (demo_call ''GET'' ''a.io:80'')"
      "\<lparr>u_scheme = ''http'', u_host = ''a.io:80'', u_path = ''/''\<rparr>" demo_proxy "ok_response\<lparr>ur_copy_ok := False\<rparr>"]
  by (simp add: demo_call_def request_host_def ok_response_def event_count_def)

theorem mitm_redirect_escapes_witness:
  "\<exists>rest. contacts (px_trace (forward_mitm_request
       (rewrite_exchange ''a.io:443''
          (demo_exchange (GoTo \<lparr>u_scheme = ''http'', u_host = ''b.io:80'', u_path = ''/''\<rparr>) 302)) ''a.io'' ''a.io:443''
       demo_proxy)) = [''a.io:443'', ''b.io:80''] @ rest \<and>
     \<not> policy_allows (px_policy demo_proxy) (host_without_port ''b.io:80'')"
  using mitm_redirect_escapes [of "demo_exchange (GoTo \<lparr>u_scheme = ''http'', u_host = ''b.io:80'', u_path = ''/''\<rparr>) 302"
      "ok_response\<lparr>ur_status := 302\<rparr>" "\<lparr>u_scheme = ''http'', u_host = ''b.io:80'', u_path = ''/''\<rparr>" "''GET''"
      "''a.io:443''" "''a.io''" demo_proxy]
  by (simp add: demo_exchange_def redirect_behavior_def)

theorem proxy_log_complete_witness:
  "\<exists>sv es. px_sink (serve_http (demo_call ''GET'' ''b.io:80'') demo_proxy) = Some sv \<and>
     so_out (sv_state sv) = log_text es \<and> verify_chain es = (True, - 1, None)"
  using proxy_log_complete [of demo_proxy, OF _ _ _ _ steps_serve_http]
  by (fastforce simp: demo_proxy_def)

theorem proxy_file_log_complete_witness:
  "\<exists>sv es. px_sink (serve_http (demo_call ''GET'' ''b.io:80'') (proxy_with
       \<lparr>sv_emit = file_emit \<lparr>fio_write = WriteOk, fio_sync = True\<rparr>,
        sv_state = \<lparr>fs_last = None, fs_open = True, fs_data = ''x''\<rparr>\<rparr>)) = Some sv \<and>
     fs_data (sv_state sv) = ''x'' @ log_text es"
  (is "\<exists>sv es. px_sink (serve_http ?c (proxy_with ?sv)) = Some sv \<and> _")
  using proxy_file_log_complete [of "proxy_with ?sv" "sv_state ?sv", OF _ _ _ _ _ steps_serve_http]
  by fastforce

end
