(* ===== verification/Engine_Run.thy ===== *)
theory Engine_Run
  imports Engine_Main Proxy_Safety
begin

text \<open>
  The engine as a whole, from its flags and environment to its audit log: the sink it opens meets
  the contract of a verified sink, its root handler the contract of an egress handler, and the
  properties of the proxy carry over to every run.
\<close>

section \<open>The sink\<close>

fun sink_tip :: "engine_sink \<Rightarrow> string option" where
  "sink_tip (StdoutSink s) = so_last s"
| "sink_tip (FileSink s) = fs_last s"

fun sink_text :: "engine_sink \<Rightarrow> string" where
  "sink_text (StdoutSink s) = so_out s"
| "sink_text (FileSink s) = fs_data s"

fun sink_ready :: "engine_sink \<Rightarrow> bool" where
  "sink_ready (StdoutSink s) \<longleftrightarrow> True"
| "sink_ready (FileSink s) \<longleftrightarrow> fs_open s"

definition sink_works :: "sink_io \<Rightarrow> bool" where
  "sink_works io \<longleftrightarrow> fst io = WriteOk \<and> fio_write (snd io) = WriteOk \<and> fio_sync (snd io)"

interpretation es: verified_sink sink_emit sink_tip sink_text sink_ready sink_works
proof
  fix io :: sink_io and e s s' r h l
  show "sink_emit io e s = (None, s') \<Longrightarrow>
      \<exists>h l. compute_event_hash e (sink_tip s) = Inr h \<and> event_line (stamp e (sink_tip s) h) = Inr l \<and>
        sink_text s' = sink_text s @ l @ [CHR 0x0A] \<and> sink_tip s' = Some h"
    by (cases s) (auto split: prod.splits dest: so.emit_ok fs.emit_ok)
  show "sink_emit io e s = (Some r, s') \<Longrightarrow> sink_tip s' = sink_tip s"
    by (cases s) (auto split: prod.splits dest: so.emit_err fs.emit_err)
  show "sink_ready s \<Longrightarrow> sink_ready (snd (sink_emit io e s))"
    using fs.emit_ready [of _ "snd io" e] by (cases s) (simp_all add: split_beta)
  show "sink_ready s \<Longrightarrow> sink_works io \<Longrightarrow> compute_event_hash e (sink_tip s) = Inr h \<Longrightarrow>
      event_line (stamp e (sink_tip s) h) = Inr l \<Longrightarrow> fst (sink_emit io e s) = None"
    using so.emit_works [of "fst io" e] fs.emit_works [of _ "snd io" e]
    by (cases s) (fastforce simp: sink_works_def split: prod.splits)+
  show "sink_works io \<Longrightarrow> sink_emit io e s = (Some r, s') \<Longrightarrow> sink_text s' = sink_text s"
    using sov.emit_err_text [of "fst io" e] fsv.emit_err_text [of "snd io" e]
    by (cases s) (auto simp: sink_works_def split: prod.splits)
qed

lemma open_sink_ready: "open_sink w path stdout = Inr s \<Longrightarrow> sink_ready s"
  by (auto simp: open_sink_def new_file_sink_def split: if_splits sum.splits)

section \<open>The root handler\<close>

text \<open>A request the mux answers itself gets one response, and that is all.\<close>

lemma root_handler_answer:
  "root_handler c p = serve_http (ec_call c) p \<or> (\<exists>n h b. root_handler c p = respond n h b p)"
proof -
  have "mux_serve c p = serve_http (ec_call c) p \<or> (\<exists>n h b. mux_serve c p = respond n h b p)"
  proof (cases "ec_star c")
    case True
    then show ?thesis unfolding mux_serve_def if_P [OF True] by blast
  next
    case False
    show ?thesis unfolding mux_serve_def if_not_P [OF False]
      by (cases "mux_route [''healthz'', ''readyz''] (ec_path c)")
        (simp_all add: liveness_handler_def readiness_handler_def Let_def; blast)+
  qed
  then show ?thesis by (simp add: root_handler_def)
qed

lemma root_handler_cases:
  obtains (Served) "root_handler c p = serve_http (ec_call c) p"
  | (Answered) n h b where "root_handler c p = respond n h b p"
  using root_handler_answer by blast

interpretation root: forwarding_handler root_handler "\<lambda>c. unredirected (cl_mitm (ec_call c))"
proof
  fix c :: engine_call and p :: "'s proxy" and a :: string
  show "proxy_steps p (root_handler c p)"
    by (cases rule: root_handler_cases [of c p])
      (simp_all add: server.handle_steps handler_proxy_steps steps_respond)
  assume "unredirected (cl_mitm (ec_call c))" and "a \<in> set (contacts (px_trace (root_handler c p)))"
  then show "a \<in> set (contacts (px_trace p)) \<or> policy_allows (px_policy p) (host_without_port a)"
    by (cases rule: root_handler_cases [of c p])
      (auto dest: server.handle_contacts simp: respond_def)
next
  fix c :: engine_call and p :: "'s proxy" and o' :: outgoing
  assume "o' \<in> set (outgoings (px_trace (root_handler c p)))"
  then show "o' \<in> set (outgoings (px_trace p)) \<or> sendable (px_policy p) o'"
    by (cases rule: root_handler_cases [of c p])
      (auto dest: fserver.handle_sends simp: respond_def)
qed


section \<open>A serving engine\<close>

lemma run_engine_serving:
  assumes "run_engine io w args = Serving en"
  shows "start_engine io w (en_flags en) = Inr en"
proof -
  obtain fl rest where "flag_parse (wo_duration w) args (default_flags (wo_env w)) = Inr (fl, rest)"
    and st: "start_engine io w fl = Inr en"
    using assms by (auto simp: run_engine_def split: sum.splits if_splits prod.splits)
  from st have "en_flags en = fl" by (auto simp: start_engine_def Let_def rbind_eq_Inr split: if_splits)
  with st show ?thesis by simp
qed

lemma map_sum_eq_Inr: "map_sum f id x = Inr y \<longleftrightarrow> x = Inr y"
  by (cases x) auto

lemma map_sum_eq_Inl: "map_sum f id x = Inl y \<longleftrightarrow> (\<exists>e. x = Inl e \<and> y = f e)"
  by (cases x) auto

lemma rbind_eq_Inl: "rbind r f = Inl e \<longleftrightarrow> r = Inl e \<or> (\<exists>a. r = Inr a \<and> f a = Inl e)"
  by (cases r) auto

lemma start_engine_elim:
  assumes "start_engine io w fl = Inr en"
  obtains pol snk ss max_requests limiter max_tokens mitm
  where "parse_allowlist (fl_allowlist fl) \<noteq> []"
    and "policy_new (parse_allowlist (fl_allowlist fl)) = Inr pol"
    and "open_sink w (fl_audit_file fl) (fl_audit_stdout fl) = Inr snk"
    and "new_session (fl_agent_identity fl) (wo_random w) (wo_unix_ms w) = Some ss"
    and "parse_cap (fl_max_requests fl) = Inr max_requests"
    and "parse_rate_spec (fl_rate_limit fl) (wo_mono w) = Inr limiter"
    and "parse_cap (fl_max_tokens fl) = Inr max_tokens"
    and "build_mitm_config w = Inr mitm"
    and "en_proxy en = emit_engine_start engine_version
                 \<lparr>px_policy = Some pol, px_sink = Some \<lparr>sv_emit = sink_emit io, sv_state = snk\<rparr>,
                  px_session = Some ss, px_counter = map_option new_request_counter max_requests,
                  px_limiter = limiter, px_budget = map_option new_token_budget max_tokens,
                  px_mitm = mitm, px_dial_timeout = 0, px_forward_timeout = 0,
                  px_clock = wo_clock w, px_tick = 0, px_trace = []\<rparr>"
  using assms unfolding start_engine_def Let_def
  by (auto simp: rbind_eq_Inr map_sum_eq_Inr split: if_splits option.splits)

lemma build_mitm_fresh:
  assumes "build_mitm_config w = Inr (Some mc)"
  shows "\<exists>cert key pem. mc_authority mc = make_authority cert key pem"
  using assms
  by (auto simp: build_mitm_config_def Let_def rbind_eq_Inr split: if_splits intro: authority_starts)

lemma emit_engine_fields [simp]:
  "px_policy (emit_engine_start v p) = px_policy p" "px_counter (emit_engine_start v p) = px_counter p"
  "px_limiter (emit_engine_start v p) = px_limiter p" "px_budget (emit_engine_start v p) = px_budget p"
  "px_mitm (emit_engine_start v p) = px_mitm p" "px_session (emit_engine_start v p) = px_session p"
  "configured (emit_engine_start v p) = configured p"
  "contacts (px_trace (emit_engine_start v p)) = contacts (px_trace p)"
  by (simp_all add: emit_engine_start_def)

lemma emit_engine_sink [simp]:
  "(\<exists>y. px_sink (emit_engine_start v p) = Some y) \<longleftrightarrow> (\<exists>y. px_sink p = Some y)"
  using px_emit_sink [of type_engine_start _ p] by (simp add: emit_engine_start_def flip: not_None_eq)

lemma engine_start_steps: "proxy_steps p (emit_engine_start v p)"
  unfolding emit_engine_start_def by (intro handler_proxy_steps steps_emit steps_refl) simp

lemma stop_steps: "proxy_steps p (stop_engine p)"
  unfolding stop_engine_def emit_engine_shutdown_def
  by (intro handler_proxy_steps steps_emit steps_refl) simp

text \<open>The trace only grows.\<close>

lemma handler_step_trace: "handler_step p q \<Longrightarrow> \<exists>es. px_trace q = px_trace p @ es"
proof (induction rule: handler_step.induct)
  case (Emit p payload ty)
  then show ?case using px_emit_trace [of ty payload p] by blast
qed auto

lemma proxy_step_trace: "proxy_step p q \<Longrightarrow> \<exists>es. px_trace q = px_trace p @ es"
  by (induction rule: proxy_step.induct) (auto intro: handler_step_trace)

lemma proxy_steps_trace: "proxy_steps p q \<Longrightarrow> \<exists>es. px_trace q = px_trace p @ es"
  unfolding proxy_steps_def
proof (induction rule: rtranclp_induct)
  case (step q r)
  with proxy_step_trace [OF step(2)] show ?case by auto
qed simp

lemma proxy_steps_audits:
  assumes "proxy_steps p q"
  obtains evs where "audits (px_trace q) = audits (px_trace p) @ evs"
  using proxy_steps_trace [OF assms] by auto

text \<open>How the log of a serving engine starts.\<close>

lemma started:
  assumes "run_engine io w args = Serving en"
  obtains ev where "configured (en_proxy en)" and "audits (px_trace (en_proxy en)) = [ev]"
    and "ev_type ev = type_engine_start"
  using run_engine_serving [OF assms]
proof (cases rule: start_engine_elim)
  case (1 pol snk ss max_requests limiter max_tokens mitm)
  have "configured (en_proxy en)"
    unfolding 1(9) by (simp only: emit_engine_fields) (simp add: configured_def)
  moreover obtain ev where "audits (px_trace (en_proxy en)) = [ev]" "ev_type ev = type_engine_start"
    by (simp add: 1(9) emit_engine_start_def) (simp add: configured_def make_event_def)
  ultimately show thesis by (rule that)
qed

lemma started_logged:
  assumes "run_engine io w args = Serving en" and "sink_works io"
    and "finite_limiter (px_limiter (en_proxy en))"
    and "open_sink w (fl_audit_file (en_flags en)) (fl_audit_stdout (en_flags en)) = Inr s0"
  shows "all_logged (sink_emit io) sink_ready (logs sink_tip sink_text (sink_text s0) (sink_tip s0)) (en_proxy en)"
  using run_engine_serving [OF assms(1)]
proof (cases rule: start_engine_elim)
  case (1 pol snk ss max_requests limiter max_tokens mitm)
  let ?p0 = "\<lparr>px_policy = Some pol, px_sink = Some \<lparr>sv_emit = sink_emit io, sv_state = snk\<rparr>,
    px_session = Some ss, px_counter = map_option new_request_counter max_requests,
    px_limiter = limiter, px_budget = map_option new_token_budget max_tokens,
    px_mitm = mitm, px_dial_timeout = 0, px_forward_timeout = 0,
    px_clock = wo_clock w, px_tick = 0, px_trace = []\<rparr>"
  from 1(3) assms(4) have "snk = s0" by simp
  then have "all_logged (sink_emit io) sink_ready (logs sink_tip sink_text (sink_text s0) (sink_tip s0)) ?p0"
    using open_sink_ready [OF 1(3)] assms(3) 1(9) by (simp add: all_logged_def logs_def)
  from es.steps_logged [OF assms(2) engine_start_steps this] show ?thesis by (simp only: 1(9))
qed

lemma stop_event:
  assumes "configured p"
  obtains ev where "audits (px_trace (stop_engine p)) = audits (px_trace p) @ [ev]"
    and "ev_type ev = type_engine_shutdown"
  using assms by (simp add: stop_engine_def emit_engine_shutdown_def make_event_def)

lemma steps_configured: "proxy_steps p q \<Longrightarrow> configured p \<Longrightarrow> configured q"
  by (auto simp: configured_def same_config_def dest: proxy_steps_same_config)

lemma list_all2_split: "list_all2 P (a # xs @ b # ys) zs \<Longrightarrow>
    \<exists>a' xs' b' ys'. zs = a' # xs' @ b' # ys' \<and> P a a' \<and> P b b' \<and> length xs = length xs'"
  unfolding list_all2_Cons1 list_all2_append1 by (auto dest: list_all2_lengthD)

section \<open>The allowlist\<close>

lemma trimmed_pieces_set: "set (trimmed_pieces ps) = trim_space ` set ps - {[]}"
  by (induction ps) (auto simp: Let_def)

lemma parse_allowlist_empty:
  "parse_allowlist raw = [] \<longleftrightarrow> (\<forall>p \<in> set (split_on (CHR '','') raw). trim_space p = [])"
proof -
  have "parse_allowlist raw = [] \<longleftrightarrow> set (parse_allowlist raw) = {}" by simp
  then show ?thesis unfolding parse_allowlist_def trimmed_pieces_set by blast
qed


lemma engine_sends:
  assumes "run_engine io w args = Serving en"
    and "o' \<in> set (outgoings (px_trace (run_calls root_handler cs (en_proxy en))))"
  shows "sendable (px_policy (en_proxy en)) o'"
  using run_engine_serving [OF assms(1)]
proof (cases rule: start_engine_elim)
  case (1 pol snk ss max_requests limiter max_tokens mitm)
  then have "outgoings (px_trace (en_proxy en)) = []" by (simp add: emit_engine_start_def)
  with root.run_sends [OF assms(2)] show ?thesis by simp
qed

lemma engine_contacts:
  assumes "run_engine io w args = Serving en" and "\<forall>c \<in> set cs. unredirected (cl_mitm (ec_call c))"
    and "a \<in> set (contacts (px_trace (run_calls root_handler cs (en_proxy en))))"
  shows "\<exists>piece \<in> set (split_on (CHR '','') (fl_allowlist (en_flags en))).
    trim_space piece \<noteq> [] \<and> match_ok (trim_space piece) (host_without_port a)"
  using run_engine_serving [OF assms(1)]
proof (cases rule: start_engine_elim)
  case (1 pol snk ss max_requests limiter max_tokens mitm)
  have tr: "contacts (px_trace (en_proxy en)) = []" and pol: "px_policy (en_proxy en) = Some pol"
    by (simp_all add: 1(9))
  have "policy_allows (Some pol) (host_without_port a)"
    using root.run_contacts [OF assms(2,3)] tr pol by simp
  then obtain p where "p \<in> set (parse_allowlist (fl_allowlist (en_flags en)))"
    "match_ok p (host_without_port a)"
    using 1(2) by (auto simp: policy_new_ok policy_allows_def any_match_iff)
  then show ?thesis by (auto simp: parse_allowlist_def trimmed_pieces_set)
qed

section \<open>Properties\<close>

text \<open>
  C19. An engine that serves is fully configured: its policy is the nonempty list of trimmed pieces
  of its allowlist, each a well-formed pattern, its sink is open, its caps are the positive values
  of its flags, TLS termination comes with an authority that has certified nothing yet, nothing has been contacted, and the one
  event so far is \<open>engine_start\<close>. So the answer ``proxy not configured'' is never given.
\<close>

theorem serving_engine_configured:
  assumes "run_engine io w args = Serving en"
  shows "configured (en_proxy en) \<and>
    px_policy (en_proxy en) = Some \<lparr>pol_patterns = parse_allowlist (fl_allowlist (en_flags en))\<rparr> \<and>
    parse_allowlist (fl_allowlist (en_flags en)) \<noteq> [] \<and>
    (\<forall>p \<in> set (parse_allowlist (fl_allowlist (en_flags en))). wf_pattern p) \<and>
    (\<exists>n. parse_cap (fl_max_requests (en_flags en)) = Inr n \<and>
      px_counter (en_proxy en) = map_option new_request_counter n) \<and>
    (\<exists>n. parse_cap (fl_max_tokens (en_flags en)) = Inr n \<and>
      px_budget (en_proxy en) = map_option new_token_budget n) \<and>
    parse_rate_spec (fl_rate_limit (en_flags en)) (wo_mono w) = Inr (px_limiter (en_proxy en)) \<and>
    build_mitm_config w = Inr (px_mitm (en_proxy en)) \<and>
    (\<forall>mc. px_mitm (en_proxy en) = Some mc \<longrightarrow> au_cache (mc_authority mc) = []) \<and>
    contacts (px_trace (en_proxy en)) = [] \<and>
    List.map ev_type (audits (px_trace (en_proxy en))) = [type_engine_start]"
  using run_engine_serving [OF assms]
proof (cases rule: start_engine_elim)
  case (1 pol snk ss max_requests limiter max_tokens mitm)
  from 1(2) have "pol = \<lparr>pol_patterns = parse_allowlist (fl_allowlist (en_flags en))\<rparr>"
    "\<forall>p \<in> set (parse_allowlist (fl_allowlist (en_flags en))). wf_pattern p" by (simp_all add: policy_new_ok)
  moreover have "configured (en_proxy en)"
    unfolding 1(9) by (simp only: emit_engine_fields) (simp add: configured_def)
  moreover have "List.map ev_type (audits (px_trace (en_proxy en))) = [type_engine_start]"
    by (simp add: 1(9) emit_engine_start_def) (simp add: configured_def make_event_def)
  moreover have "au_cache (mc_authority mc) = []" if "mitm = Some mc" for mc
    using build_mitm_fresh [of w mc] 1(8) that by (auto simp: make_authority_def)
  ultimately show ?thesis using 1(1,5-8) by (simp add: 1(9))
qed


text \<open>
  C22. Start-up rejects a bad allowlist: it is refused as empty exactly when every comma-separated
  piece is blank, and as a policy error exactly when some piece is a malformed pattern, whatever
  else is configured.
\<close>

theorem startup_rejects_allowlist:
  "(start_engine io w fl = Inl EmptyAllowlist \<longleftrightarrow>
      (\<forall>p \<in> set (split_on (CHR '','') (fl_allowlist fl)). trim_space p = [])) \<and>
   ((\<exists>e. start_engine io w fl = Inl (PolicyFailed e)) \<longleftrightarrow>
      (\<exists>p \<in> set (split_on (CHR '','') (fl_allowlist fl)). trim_space p \<noteq> [] \<and> \<not> wf_pattern (trim_space p)))"
proof -
  let ?ps = "parse_allowlist (fl_allowlist fl)"
  have empty: "start_engine io w fl = Inl EmptyAllowlist \<longleftrightarrow> ?ps = []"
  proof (cases "?ps = []")
    case False
    then show ?thesis
      by (auto simp: start_engine_def Let_def rbind_eq_Inl map_sum_eq_Inl split: option.splits)
  qed (simp add: start_engine_def)
  have policy: "(\<exists>e. start_engine io w fl = Inl (PolicyFailed e)) \<longleftrightarrow> \<not> (\<forall>p \<in> set ?ps. wf_pattern p)"
  proof (cases "policy_new ?ps")
    case (Inl e)
    then have "?ps \<noteq> []" "\<not> (\<forall>p \<in> set ?ps. wf_pattern p)"
      using policy_new_ok [of ?ps "\<lparr>pol_patterns = ?ps\<rparr>"] by auto
    with Inl show ?thesis by (simp add: start_engine_def)
  next
    case (Inr pol)
    then have "\<forall>p \<in> set ?ps. wf_pattern p" by (simp add: policy_new_ok)
    with Inr show ?thesis
      by (auto simp: start_engine_def Let_def rbind_eq_Inl map_sum_eq_Inl split: option.splits)
  qed
  have "(\<exists>p \<in> set ?ps. \<not> wf_pattern p) \<longleftrightarrow> (\<exists>p \<in> set (split_on (CHR '','') (fl_allowlist fl)).
      trim_space p \<noteq> [] \<and> \<not> wf_pattern (trim_space p))"
    unfolding parse_allowlist_def trimmed_pieces_set by blast
  with empty policy parse_allowlist_empty [of "fl_allowlist fl"] show ?thesis by blast
qed

text \<open>
  The log of a whole run, on either sink with working I/O and a limiter with finite parameters:
  whatever interleaving of requests comes before and after the signal, what is appended to the log
  is one chain, linked to the hash the sink started with, with a line for every event; it starts
  with \<open>engine_start\<close>, and \<open>engine_shutdown\<close> comes after the events before the signal but before
  those of the requests still draining.
\<close>

theorem engine_log_complete:
  assumes "run_engine io w args = Serving en" and "sink_works io"
    and "finite_limiter (px_limiter (en_proxy en))"
    and "open_sink w (fl_audit_file (en_flags en)) (fl_audit_stdout (en_flags en)) = Inr s0"
    and "proxy_steps (en_proxy en) p" and "proxy_steps (stop_engine p) q"
  shows "\<exists>sv start middle stop rest. px_sink q = Some sv \<and>
    sink_text (sv_state sv) = sink_text s0 @ log_text (start # middle @ stop # rest) \<and>
    linked compute_event_hash ev_event_hash (sink_tip s0) (start # middle @ stop # rest) \<and>
    ev_type start = type_engine_start \<and> ev_type stop = type_engine_shutdown \<and>
    Suc (length middle) = event_count p \<and>
    list_all2 (\<lambda>e e'. \<exists>prev h. e' = stamp e prev h) (audits (px_trace q)) (start # middle @ stop # rest)"
proof -
  have "proxy_steps (en_proxy en) q" using assms(5) stop_steps [of p] assms(6) by (metis proxy_steps_trans)
  from es.steps_logged [OF assms(2) this started_logged [OF assms(1-4)]]
  obtain sv es where sv: "px_sink q = Some sv" "sink_text (sv_state sv) = sink_text s0 @ log_text es"
    "linked compute_event_hash ev_event_hash (sink_tip s0) es"
    "list_all2 (\<lambda>e e'. \<exists>p h. e' = stamp e p h) (audits (px_trace q)) es"
    by (auto simp: all_logged_def logs_def)
  obtain e0 where e0: "configured (en_proxy en)" "audits (px_trace (en_proxy en)) = [e0]"
    "ev_type e0 = type_engine_start" using started [OF assms(1)] .
  obtain evs where evs: "audits (px_trace p) = e0 # evs"
    using proxy_steps_audits [OF assms(5)] e0(2) by (metis append_Cons append_Nil)
  obtain e1 where e1: "audits (px_trace (stop_engine p)) = audits (px_trace p) @ [e1]"
    "ev_type e1 = type_engine_shutdown" using stop_event [OF steps_configured [OF assms(5) e0(1)]] .
  obtain tail where "audits (px_trace q) = audits (px_trace (stop_engine p)) @ tail"
    using proxy_steps_audits [OF assms(6)] .
  with e1 evs have "audits (px_trace q) = e0 # evs @ e1 # tail" by simp
  from list_all2_split [OF sv(4) [unfolded this]]
  obtain start middle stop rest where es: "es = start # middle @ stop # rest"
    "length evs = length middle" "\<exists>p h. start = stamp e0 p h" "\<exists>p h. stop = stamp e1 p h" by blast
  then have "ev_type start = type_engine_start" "ev_type stop = type_engine_shutdown"
    using e0 e1 by (auto simp: stamp_def)
  moreover have "Suc (length middle) = event_count p" by (simp add: event_count_def evs es(2))
  ultimately show ?thesis using sv es(1) by blast
qed

text \<open>
  C27. The engine's own paths shadow the upstreams': a plain request to any host with the path
  \<open>/healthz\<close> is answered 200 by the engine itself, and one whose path is not clean is answered 301;
  neither is checked, counted, forwarded or audited.
\<close>

theorem local_answers_unaudited:
  assumes "rq_method (cl_request (ec_call c)) \<noteq> method_connect" and "\<not> ec_star c"
    and "ec_path c = ''/healthz'' \<or> clean_path (ec_path c) \<noteq> ec_path c"
  shows "statuses (px_trace (root_handler c p)) =
      statuses (px_trace p) @ [if ec_path c = ''/healthz'' then 200 else 301] \<and>
    event_count (root_handler c p) = event_count p \<and>
    contacts (px_trace (root_handler c p)) = contacts (px_trace p) \<and>
    px_counter (root_handler c p) = px_counter p"
proof -
  have h: "mux_route [''healthz'', ''readyz''] ''/healthz'' = Literal ''healthz''"
    by (simp add: mux_route_def clean_path_def path_clean_def join_segments_def match_path_def
      path_unescape_def)
  show ?thesis
  proof (cases "ec_path c = ''/healthz''")
    case True
    with assms(1,2) h show ?thesis by (simp add: root_handler_def mux_serve_def liveness_handler_def)
  next
    case False
    with assms(3) have "mux_route [''healthz'', ''readyz''] (ec_path c) = Moved"
      by (simp add: mux_route_def)
    with False assms(1,2) show ?thesis by (simp add: root_handler_def mux_serve_def Let_def)
  qed
qed

text \<open>
  The patterns of the hosts to intercept are not validated, unlike the allowlist: with \<open>[\<close> for
  a setting the engine configures TLS termination, and no host is ever intercepted.
\<close>

theorem malformed_mitm_pattern_accepted:
  assumes "wo_env w ''AEGRAIL_ENGINE_MITM_HOSTS'' = ''[''"
    and "wo_env w ''AEGRAIL_ENGINE_MITM_CA_CERT_FILE'' = []"
    and "new_authority (wo_gen_key w) (wo_self_sign w) (wo_parse_cert w) (wo_to_pem w)
      (wo_serial w) (wo_wall w) (365 * 24 * hour) = Inr a"
  shows "build_mitm_config w = Inr (Some \<lparr>mc_authority = a, mc_host_patterns = [''['']\<rparr>) \<and>
    \<not> wf_pattern ''['' \<and> \<not> should_mitm (Some \<lparr>mc_authority = a, mc_host_patterns = [''['']\<rparr>) h"
proof -
  have "\<not> wf_pattern ''[''"
    by (simp add: wf_pattern_def class_neg_def get_range_def get_esc_def parse_class.simps)
  moreover from this have "\<not> match_ok ''['' h"
    using pm.mt_wf [of "''[''" h] by (auto simp: match_ok_def split: sum.splits)
  ultimately show ?thesis using assms by (simp add: build_mitm_config_def should_mitm_def Let_def
      trim_space_all_visible visible_def)
qed


section \<open>A concrete run\<close>

definition demo_world :: "(string, string, string) world" where
  "demo_world =
     \<lparr>wo_env = \<lambda>_. [], wo_duration = \<lambda>_. None, wo_mkdir = \<lambda>_. True, wo_view = \<lambda>_. NoFile,
      wo_open = \<lambda>_. True, wo_read = \<lambda>_. None, wo_random = Some ''r'', wo_unix_ms = 0, wo_mono = 0,
      wo_serial = 1, wo_wall = 0, wo_clock = \<lambda>_. \<lparr>ck_wall_ms = 0, ck_mono = 0\<rparr>,
      wo_gen_key = Some ''K'', wo_self_sign = \<lambda>t k. Some ''D'', wo_parse_cert = Some,
      wo_to_pem = \<lambda>d. ''P'', wo_pem_block = \<lambda>_. None, wo_pkcs8 = \<lambda>_. None, wo_pkcs1 = \<lambda>_. None,
      wo_sec1 = \<lambda>_. None\<rparr>"

definition demo_io :: sink_io where
  "demo_io = (WriteOk, \<lparr>fio_write = WriteOk, fio_sync = True\<rparr>)"

definition demo_flags :: flags where
  "demo_flags = (default_flags (\<lambda>_. []))\<lparr>fl_allowlist := ''a.io''\<rparr>"

definition demo_start :: "engine_sink proxy" where
  "demo_start =
     \<lparr>px_policy = Some \<lparr>pol_patterns = [''a.io'']\<rparr>,
      px_sink = Some \<lparr>sv_emit = sink_emit demo_io, sv_state = StdoutSink new_stdout_sink\<rparr>,
      px_session = new_session ''egress-proxy/v1'' (Some ''r'') 0, px_counter = None, px_limiter = None,
      px_budget = None, px_mitm = None, px_dial_timeout = 0, px_forward_timeout = 0,
      px_clock = \<lambda>_. \<lparr>ck_wall_ms = 0, ck_mono = 0\<rparr>, px_tick = 0, px_trace = []\<rparr>"

definition demo_engine :: engine where
  "demo_engine = \<lparr>en_proxy = emit_engine_start engine_version demo_start, en_flags = demo_flags\<rparr>"

definition demo_args :: "string list" where
  "demo_args = [''-allowlist'', ''a.io'']"

lemma demo_allowlist [simp]: "parse_allowlist ''a.io'' = [''a.io'']"
  by (simp add: parse_allowlist_def trim_space_all_visible visible_def)

lemma demo_parse: "flag_parse d demo_args (default_flags (\<lambda>_. [])) = Inr (demo_flags, [])"
  by (simp add: demo_args_def demo_flags_def bool_flags_def value_flags_def set_flag_def)

lemma demo_run: "run_engine demo_io demo_world demo_args = Serving demo_engine"
proof -
  have "policy_new [''a.io''] = Inr \<lparr>pol_patterns = [''a.io'']\<rparr>"
    by (simp add: policy_new_ok wf_literal literal_def is_meta_def is_star_def)
  then have "start_engine demo_io demo_world demo_flags = Inr demo_engine"
    by (simp add: start_engine_def demo_flags_def default_flags_def env_or_def demo_world_def
      open_sink_def new_session_def parse_cap_def parse_rate_spec_def build_mitm_config_def
      demo_engine_def demo_start_def)
  moreover have "\<not> fl_version demo_flags" by (simp add: demo_flags_def default_flags_def)
  moreover have "wo_env demo_world = (\<lambda>_. [])" by (simp add: demo_world_def)
  ultimately show ?thesis by (simp add: run_engine_def demo_parse)
qed

lemma demo_engine_fields [simp]:
  "configured (en_proxy demo_engine)" "px_mitm (en_proxy demo_engine) = None"
  "px_counter (en_proxy demo_engine) = None" "px_limiter (en_proxy demo_engine) = None"
  "px_budget (en_proxy demo_engine) = None" "contacts (px_trace (en_proxy demo_engine)) = []"
  "px_policy (en_proxy demo_engine) = Some \<lparr>pol_patterns = [''a.io'']\<rparr>"
  "fl_allowlist (en_flags demo_engine) = ''a.io''" "event_count (en_proxy demo_engine) = 1"
  by (simp_all add: demo_engine_def demo_start_def configured_def new_session_def demo_flags_def
    event_count_def emit_engine_start_def)

definition demo_engine_call :: "string \<Rightarrow> string \<Rightarrow> string \<Rightarrow> engine_call" where
  "demo_engine_call m host path =
     \<lparr>ec_call = demo_call m host, ec_star = False, ec_http11 = True, ec_path = path,
      ec_location = (''/'', ''/'')\<rparr>"

theorem serving_engine_configured_witness:
  "px_policy (en_proxy demo_engine) = Some \<lparr>pol_patterns = parse_allowlist ''a.io''\<rparr> \<and>
   List.map ev_type (audits (px_trace (en_proxy demo_engine))) = [type_engine_start]"
  using serving_engine_configured [OF demo_run] by simp

theorem startup_rejects_allowlist_witness:
  "start_engine demo_io demo_world (demo_flags\<lparr>fl_allowlist := '' , ''\<rparr>) =
     (Inl EmptyAllowlist :: (startup_error, engine) result)"
  by (simp add: startup_rejects_allowlist [THEN conjunct1])

theorem engine_log_complete_witness:
  "\<exists>es. px_sink (stop_engine (en_proxy demo_engine)) \<noteq> None \<and>
     List.map ev_type es = [type_engine_start, type_engine_shutdown] \<and> verify_chain es = (True, - 1, None) \<and>
     sink_text (sv_state (the (px_sink (stop_engine (en_proxy demo_engine))))) = log_text es"
proof -
  have s: "open_sink demo_world (fl_audit_file (en_flags demo_engine)) (fl_audit_stdout (en_flags demo_engine))
      = Inr (StdoutSink new_stdout_sink)"
    by (simp add: open_sink_def demo_engine_def demo_flags_def default_flags_def)
  have n: "event_count (stop_engine (en_proxy demo_engine)) = 2"
    by (simp add: stop_engine_def emit_engine_shutdown_def)
  obtain sv start middle stop rest where log: "px_sink (stop_engine (en_proxy demo_engine)) = Some sv"
    "sink_text (sv_state sv) = log_text (start # middle @ stop # rest)"
    "linked compute_event_hash ev_event_hash None (start # middle @ stop # rest)"
    "ev_type start = type_engine_start" "ev_type stop = type_engine_shutdown"
    "Suc (length middle) = 1" "length (start # middle @ stop # rest) = 2"
    using engine_log_complete [OF demo_run _ _ s proxy_steps_refl proxy_steps_refl] n
    by (auto simp: sink_works_def demo_io_def new_stdout_sink_def event_count_def dest!: list_all2_lengthD)
  then have "middle = []" "rest = []" by simp_all
  with log show ?thesis
    by (intro exI [of _ "[start, stop]"]) (simp add: verify_chain_linked)
qed

theorem local_answers_unaudited_witness:
  "contacts (px_trace (root_handler (demo_engine_call ''GET'' ''evil.io:80'' ''/healthz'') demo_start)) = [] \<and>
   event_count (root_handler (demo_engine_call ''GET'' ''evil.io:80'' ''/healthz'') demo_start) = 0"
  using local_answers_unaudited [of "demo_engine_call ''GET'' ''evil.io:80'' ''/healthz''" demo_start]
  by (simp add: demo_engine_call_def demo_call_def demo_start_def event_count_def method_connect_def)

theorem malformed_mitm_pattern_accepted_witness:
  "\<exists>a. build_mitm_config (demo_world
     \<lparr>wo_env := \<lambda>k. if k = ''AEGRAIL_ENGINE_MITM_HOSTS'' then ''['' else []\<rparr>) =
       Inr (Some \<lparr>mc_authority = a, mc_host_patterns = [''['']\<rparr>)"
  using malformed_mitm_pattern_accepted [of "demo_world
     \<lparr>wo_env := \<lambda>k. if k = ''AEGRAIL_ENGINE_MITM_HOSTS'' then ''['' else []\<rparr>"
     "make_authority ''D'' ''K'' ''P''"]
  by (auto simp: demo_world_def new_authority_def)

end
