(* ===== verification/Server_Process.thy ===== *)
theory Server_Process
  imports Prelude
begin

text \<open>
  The life of a server process, as \<open>run\<close> of both binaries has it: a goroutine listens and serves,
  the main goroutine waits for a signal, does what it has to, and shuts the server down. The state
  of the handlers, their elementary steps, what the signal triggers and the deferred cleanup are
  arguments. \<open>Shutdown\<close> closes the listeners, waits for the connections that have a request at
  work until its deadline, and neither closes nor waits for hijacked ones.
\<close>

section \<open>The state\<close>

datatype listener = Unbound | Open | Closed

text \<open>\<open>Exited\<close> carries whether \<open>run\<close> returned nil.\<close>

datatype phase = Up | Signalled | Draining | Exited bool

text \<open>The phases in the order in which a process goes through them; it may exit from any.\<close>

fun phase_rank :: "phase \<Rightarrow> nat" where
  "phase_rank Up = 0"
| "phase_rank Signalled = 1"
| "phase_rank Draining = 2"
| "phase_rank (Exited ok) = (if ok then 4 else 3)"

lemma phase_rank_inject: "phase_rank a = phase_rank b \<longleftrightarrow> a = b"
  by (cases a; cases b) auto

instantiation phase :: linorder
begin

definition less_eq_phase :: "phase \<Rightarrow> phase \<Rightarrow> bool" where
  "a \<le> b \<longleftrightarrow> phase_rank a \<le> phase_rank b"

definition less_phase :: "phase \<Rightarrow> phase \<Rightarrow> bool" where
  "a < b \<longleftrightarrow> phase_rank a < phase_rank b"

instance
  by standard (auto simp: less_eq_phase_def less_phase_def phase_rank_inject)

end

text \<open>What the process logs about itself: a request with its address, method, target and duration.\<close>

datatype log_entry = SignalLine | CleanLine | RequestLine string string string int

record 's process =
  ps_phase :: phase
  ps_listener :: listener
  ps_close_failed :: bool
  ps_active :: nat
  ps_hijacked :: nat
  ps_accepted :: nat
  ps_done :: nat
  ps_state :: 's
  ps_log :: "log_entry list"

definition new_process :: "'s \<Rightarrow> 's process" where
  "new_process s =
     \<lparr>ps_phase = Up, ps_listener = Unbound, ps_close_failed = False, ps_active = 0, ps_hijacked = 0,
      ps_accepted = 0, ps_done = 0, ps_state = s, ps_log = []\<rparr>"

definition running :: "'s process \<Rightarrow> bool" where
  "running p \<longleftrightarrow> (case ps_phase p of Exited _ \<Rightarrow> False | _ \<Rightarrow> True)"

lemma running_simps [simp]:
  "ps_phase p = Up \<Longrightarrow> running p" "ps_phase p = Signalled \<Longrightarrow> running p"
  "ps_phase p = Draining \<Longrightarrow> running p" "ps_phase p = Exited b \<Longrightarrow> \<not> running p"
  by (simp_all add: running_def)

definition add_line :: "log_entry \<Rightarrow> 's process \<Rightarrow> 's process" where
  "add_line l p = p\<lparr>ps_log := ps_log p @ [l]\<rparr>"

section \<open>Steps\<close>

text \<open>
  A handler at work may hijack its connection; when a handler returns, \<open>loggingMiddleware\<close> logs
  its request, and when it panics the server recovers and nothing is logged. A failure of the
  listener ends the process at once, without the deferred cleanup; the end of \<open>run\<close> comes with it.
\<close>

inductive server_step :: "('s \<Rightarrow> 's \<Rightarrow> bool) \<Rightarrow> ('s \<Rightarrow> 's) \<Rightarrow> ('s \<Rightarrow> 's) \<Rightarrow> 's process \<Rightarrow> 's process \<Rightarrow> bool"
  for work on_signal cleanup where
  Bind: "running p \<Longrightarrow> ps_listener p = Unbound \<Longrightarrow>
    server_step work on_signal cleanup p (p\<lparr>ps_listener := Open\<rparr>)"
| ListenFails: "running p \<Longrightarrow> ps_listener p \<noteq> Closed \<Longrightarrow>
    server_step work on_signal cleanup p (p\<lparr>ps_phase := Exited False\<rparr>)"
| Accept: "running p \<Longrightarrow> ps_listener p = Open \<Longrightarrow>
    server_step work on_signal cleanup p
      (p\<lparr>ps_active := Suc (ps_active p), ps_accepted := Suc (ps_accepted p)\<rparr>)"
| Work: "running p \<Longrightarrow> 0 < ps_active p + ps_hijacked p \<Longrightarrow> work (ps_state p) s \<Longrightarrow>
    server_step work on_signal cleanup p (p\<lparr>ps_state := s\<rparr>)"
| Hijack: "running p \<Longrightarrow> ps_active p = Suc n \<Longrightarrow>
    server_step work on_signal cleanup p (p\<lparr>ps_active := n, ps_hijacked := Suc (ps_hijacked p)\<rparr>)"
| Return: "running p \<Longrightarrow> ps_active p = Suc n \<Longrightarrow>
    server_step work on_signal cleanup p
      (add_line (RequestLine addr m uri d) (p\<lparr>ps_active := n, ps_done := Suc (ps_done p)\<rparr>))"
| Panics: "running p \<Longrightarrow> ps_active p = Suc n \<Longrightarrow>
    server_step work on_signal cleanup p (p\<lparr>ps_active := n, ps_done := Suc (ps_done p)\<rparr>)"
| ReturnHijacked: "running p \<Longrightarrow> ps_hijacked p = Suc n \<Longrightarrow>
    server_step work on_signal cleanup p
      (add_line (RequestLine addr m uri d) (p\<lparr>ps_hijacked := n, ps_done := Suc (ps_done p)\<rparr>))"
| Signal: "ps_phase p = Up \<Longrightarrow>
    server_step work on_signal cleanup p (add_line SignalLine (p\<lparr>ps_phase := Signalled\<rparr>))"
| OnSignal: "ps_phase p = Signalled \<Longrightarrow>
    server_step work on_signal cleanup p
      (p\<lparr>ps_phase := Draining, ps_state := on_signal (ps_state p)\<rparr>)"
| CloseListener: "ps_phase p = Draining \<Longrightarrow> ps_listener p \<noteq> Closed \<Longrightarrow>
    server_step work on_signal cleanup p (p\<lparr>ps_listener := Closed, ps_close_failed := failed\<rparr>)"
| Drained: "ps_phase p = Draining \<Longrightarrow> ps_listener p = Closed \<Longrightarrow> ps_active p = 0 \<Longrightarrow>
    server_step work on_signal cleanup p
      ((if ps_close_failed p then p else add_line CleanLine p)
        \<lparr>ps_phase := Exited (\<not> ps_close_failed p), ps_state := cleanup (ps_state p)\<rparr>)"
| Deadline: "ps_phase p = Draining \<Longrightarrow> ps_listener p = Closed \<Longrightarrow> 0 < ps_active p \<Longrightarrow>
    server_step work on_signal cleanup p
      (p\<lparr>ps_phase := Exited False, ps_state := cleanup (ps_state p)\<rparr>)"

inductive_cases exited_step: "server_step work on_signal cleanup p q"

definition server_run :: "('s \<Rightarrow> 's \<Rightarrow> bool) \<Rightarrow> ('s \<Rightarrow> 's) \<Rightarrow> ('s \<Rightarrow> 's) \<Rightarrow> 's process \<Rightarrow> 's process \<Rightarrow> bool" where
  "server_run work on_signal cleanup = (server_step work on_signal cleanup)\<^sup>*\<^sup>*"

lemma server_run_refl [simp, intro]: "server_run work on_signal cleanup p p"
  by (simp add: server_run_def)

lemma server_run_step:
  "server_run work on_signal cleanup p q \<Longrightarrow> server_step work on_signal cleanup q r \<Longrightarrow>
    server_run work on_signal cleanup p r"
  unfolding server_run_def by (rule rtranclp.rtrancl_into_rtrancl)

lemma server_run_trans:
  "server_run work on_signal cleanup p q \<Longrightarrow> server_run work on_signal cleanup q r \<Longrightarrow>
    server_run work on_signal cleanup p r"
  unfolding server_run_def by (rule rtranclp_trans)

section \<open>What every process keeps\<close>

text \<open>
  Every accepted request is at work, hijacked or done; before the drain the listener is not
  closed; a process that exited cleanly had drained.
\<close>

definition process_inv :: "'s process \<Rightarrow> bool" where
  "process_inv p \<longleftrightarrow> ps_accepted p = ps_active p + ps_hijacked p + ps_done p \<and>
     (ps_phase p = Up \<or> ps_phase p = Signalled \<longrightarrow> ps_listener p \<noteq> Closed) \<and>
     (ps_listener p \<noteq> Closed \<longrightarrow> ps_phase p \<noteq> Exited True) \<and>
     (ps_phase p = Exited True \<longrightarrow> ps_active p = 0 \<and> last (ps_log p) = CleanLine) \<and>
     length (filter (\<lambda>l. l \<noteq> SignalLine \<and> l \<noteq> CleanLine) (ps_log p)) \<le> ps_done p"

lemma process_inv_new: "process_inv (new_process s)"
  by (simp add: process_inv_def new_process_def)

lemma process_inv_step: "server_step work on_signal cleanup p q \<Longrightarrow> process_inv p \<Longrightarrow> process_inv q"
  by (induction rule: server_step.induct) (auto simp: process_inv_def add_line_def running_def)

lemma process_inv_run:
  assumes "server_run work on_signal cleanup (new_process s) q"
  shows "process_inv q"
  using assms unfolding server_run_def
  by (induction rule: rtranclp_induct) (auto intro: process_inv_new process_inv_step)

text \<open>Phases only advance, and so does the number of requests that are done.\<close>

lemma server_step_advances:
  "server_step work on_signal cleanup p q \<Longrightarrow> ps_phase p \<le> ps_phase q \<and> ps_done p \<le> ps_done q"
  by (induction rule: server_step.induct)
    (auto simp: less_eq_phase_def add_line_def running_def split: phase.splits)

lemma server_run_advances:
  assumes "server_run work on_signal cleanup p q"
  shows "ps_phase p \<le> ps_phase q \<and> ps_done p \<le> ps_done q"
  using assms unfolding server_run_def
proof (induction rule: rtranclp_induct)
  case (step q r)
  from server_step_advances [OF step(2)] step(3) show ?case by (meson order_trans)
qed simp

text \<open>The status the process exits with: \<open>main\<close> treats an error of \<open>run\<close> as fatal.\<close>

definition process_status :: "'s process \<Rightarrow> nat option" where
  "process_status p = (case ps_phase p of Exited ok \<Rightarrow> Some (if ok then 0 else 1) | _ \<Rightarrow> None)"

lemma status_zero_drained:
  assumes "server_run work on_signal cleanup (new_process s) q" and "process_status q = Some 0"
  shows "ps_listener q = Closed \<and> ps_active q = 0 \<and> ps_accepted q = ps_hijacked q + ps_done q"
  using process_inv_run [OF assms(1)] assms(2)
  by (auto simp: process_inv_def process_status_def split: phase.splits if_splits)

text \<open>No step leaves an exited process.\<close>

lemma exited_final: "ps_phase p = Exited b \<Longrightarrow> \<not> server_step work on_signal cleanup p q"
  by (auto elim: exited_step)

section \<open>Getting out\<close>

text \<open>A signalled process can always come to its end, and cleanly once its requests are done.\<close>

lemma drain_requests:
  assumes "running p"
  shows "\<exists>q. server_run work on_signal cleanup p q \<and> ps_active q = 0 \<and> ps_phase q = ps_phase p \<and>
    ps_listener q = ps_listener p \<and> ps_close_failed q = ps_close_failed p"
  using assms
proof (induction "ps_active p" arbitrary: p)
  case 0
  then show ?case by (metis server_run_refl)
next
  case (Suc n)
  let ?q = "p\<lparr>ps_active := n, ps_done := Suc (ps_done p)\<rparr>"
  have s: "server_step work on_signal cleanup p ?q"
    using Suc.prems Suc.hyps(2) by (intro server_step.Panics) simp_all
  have "running ?q" using Suc.prems by (simp add: running_def)
  with Suc.hyps(1) [of ?q] obtain r where "server_run work on_signal cleanup ?q r" "ps_active r = 0"
    "ps_phase r = ps_phase p" "ps_listener r = ps_listener p" "ps_close_failed r = ps_close_failed p" by auto
  with s show ?case by (meson server_run_refl server_run_step server_run_trans)
qed

lemma clean_exit_reachable:
  assumes "running p" and "process_inv p" and "ps_listener p \<noteq> Closed"
  shows "\<exists>q. server_run work on_signal cleanup p q \<and> ps_phase q = Exited True"
proof -
  let ?run = "server_run work on_signal cleanup"
  have signalled: "\<exists>q. ?run p q \<and> ps_phase q = Signalled \<and> ps_listener q = ps_listener p"
    if "ps_phase p = Up" for p :: "'a process"
    using server_run_step [OF server_run_refl server_step.Signal [OF that]]
    by (intro exI conjI) (assumption, simp_all add: add_line_def)
  have draining: "\<exists>q. ?run p q \<and> ps_phase q = Draining \<and> ps_listener q = ps_listener p"
    if "ps_phase p = Signalled" for p :: "'a process"
    using server_run_step [OF server_run_refl server_step.OnSignal [OF that]]
    by (intro exI conjI) (assumption, simp_all)
  have "ps_phase p = Up \<or> ps_phase p = Signalled \<or> ps_phase p = Draining"
    using assms(1) by (cases "ps_phase p") simp_all
  then obtain q where q: "?run p q" "ps_phase q = Draining" "ps_listener q \<noteq> Closed"
    using signalled draining assms(3) by (metis server_run_refl server_run_trans)
  let ?r = "q\<lparr>ps_listener := Closed, ps_close_failed := False\<rparr>"
  have r: "?run p ?r" using q by (intro server_run_step [OF q(1)] server_step.CloseListener)
  obtain t where t: "?run ?r t" "ps_active t = 0" "ps_phase t = Draining" "ps_listener t = Closed"
    "\<not> ps_close_failed t" using drain_requests [of ?r work on_signal cleanup] q(2) by auto
  have "server_step work on_signal cleanup t
      ((if ps_close_failed t then t else add_line CleanLine t)
        \<lparr>ps_phase := Exited (\<not> ps_close_failed t), ps_state := cleanup (ps_state t)\<rparr>)"
    using t by (intro server_step.Drained)
  from server_run_step [OF server_run_trans [OF r t(1)] this] t(5) show ?thesis
    by (intro exI conjI) (assumption, simp)
qed

section \<open>The contract of a server\<close>

text \<open>
  A property of the handlers' state that their steps and the signal keep, and what the cleanup
  makes of it.
\<close>

locale server =
  fixes work :: "'s \<Rightarrow> 's \<Rightarrow> bool" and on_signal cleanup :: "'s \<Rightarrow> 's"
    and good final :: "'s \<Rightarrow> bool"
  assumes work_good: "work s t \<Longrightarrow> good s \<Longrightarrow> good t"
    and signal_good: "good s \<Longrightarrow> good (on_signal s)"
    and cleanup_final: "good s \<Longrightarrow> final (cleanup s)"
    and good_final: "good s \<Longrightarrow> final s"
begin

lemma step_good:
  "server_step work on_signal cleanup p q \<Longrightarrow> (running p \<Longrightarrow> good (ps_state p)) \<Longrightarrow>
    (running q \<longrightarrow> good (ps_state q)) \<and> final (ps_state q)"
  by (induction rule: server_step.induct)
    (auto simp: add_line_def running_def intro: work_good signal_good cleanup_final good_final)

lemma run_good:
  assumes "server_run work on_signal cleanup (new_process s) q" and "good s"
  shows "(running q \<longrightarrow> good (ps_state q)) \<and> final (ps_state q)"
  using assms(1) unfolding server_run_def
proof (induction rule: rtranclp_induct)
  case base
  then show ?case using assms(2) by (simp add: new_process_def good_final)
next
  case (step q r)
  then show ?case using step_good [of q r] by blast
qed

end

end
