(* ===== verification/Engine_Process.thy ===== *)
theory Engine_Process
  imports Engine_Run Server_Process
begin

text \<open>
  The life of the engine process: \<open>run\<close> of \<open>cmd/aegrail-engine/main.go\<close> from the listener to the
  exit, with the handlers of the proxy at work at any grain. On a signal the shutdown event is
  emitted and then the server drained; the deferred cleanup closes the sink.
\<close>

section \<open>The process\<close>

fun sink_close :: "engine_sink \<Rightarrow> engine_sink" where
  "sink_close (StdoutSink s) = StdoutSink (snd (stdout_close s))"
| "sink_close (FileSink s) = FileSink (snd (file_close True s))"

definition close_sink :: "engine_sink proxy \<Rightarrow> engine_sink proxy" where
  "close_sink p = p\<lparr>px_sink := map_option (\<lambda>sv. sv\<lparr>sv_state := sink_close (sv_state sv)\<rparr>) (px_sink p)\<rparr>"

definition engine_process :: "engine \<Rightarrow> engine_sink proxy process \<Rightarrow> bool" where
  "engine_process en q \<longleftrightarrow> server_run proxy_step stop_engine close_sink (new_process (en_proxy en)) q"

text \<open>The exit status of \<open>main\<close>: an error of \<open>run\<close> is fatal.\<close>

definition exit_status :: "engine outcome \<Rightarrow> nat option" where
  "exit_status out =
     (case out of ExitStatus n \<Rightarrow> Some n | PrintVersion _ \<Rightarrow> Some 0 | Failed _ \<Rightarrow> Some 1 | Serving _ \<Rightarrow> None)"

lemma sink_close_keeps [simp]: "sink_text (sink_close s) = sink_text s" "sink_tip (sink_close s) = sink_tip s"
  by (cases s; simp add: stdout_close_def file_close_def)+

lemma close_sink_fields [simp]: "px_trace (close_sink p) = px_trace p" "configured (close_sink p) = configured p"
  by (auto simp: close_sink_def configured_def)

section \<open>The log\<close>

text \<open>With working I/O the sink has logged every event; closing it changes nothing of that.\<close>

definition engine_good :: "sink_io \<Rightarrow> engine_sink \<Rightarrow> engine_sink proxy \<Rightarrow> bool" where
  "engine_good io s0 p \<longleftrightarrow> sink_works io \<longrightarrow>
     all_logged (sink_emit io) sink_ready (logs sink_tip sink_text (sink_text s0) (sink_tip s0)) p"

definition engine_logged :: "sink_io \<Rightarrow> engine_sink \<Rightarrow> engine_sink proxy \<Rightarrow> bool" where
  "engine_logged io s0 p \<longleftrightarrow> sink_works io \<longrightarrow>
     (\<exists>sv. px_sink p = Some sv \<and>
        logs sink_tip sink_text (sink_text s0) (sink_tip s0) (audits (px_trace p)) (sv_state sv))"

lemma good_logged: "engine_good io s0 p \<Longrightarrow> engine_logged io s0 p"
  by (auto simp: engine_good_def engine_logged_def all_logged_def)

lemma steps_good: "proxy_steps p q \<Longrightarrow> engine_good io s0 p \<Longrightarrow> engine_good io s0 q"
  by (auto simp: engine_good_def intro: es.steps_logged)

lemma step_steps_proxy: "proxy_step p q \<Longrightarrow> proxy_steps p q"
  by (rule proxy_steps_step [OF proxy_steps_refl])

interpretation eng: server proxy_step stop_engine close_sink "engine_good io s0" "engine_logged io s0"
  for io :: sink_io and s0 :: engine_sink
proof
  fix p q :: "engine_sink proxy"
  show "proxy_step p q \<Longrightarrow> engine_good io s0 p \<Longrightarrow> engine_good io s0 q"
    by (rule steps_good [OF step_steps_proxy])
  show "engine_good io s0 p \<Longrightarrow> engine_good io s0 (stop_engine p)"
    by (rule steps_good [OF stop_steps])
  show "engine_good io s0 p \<Longrightarrow> engine_logged io s0 (close_sink p)"
    by (drule good_logged) (auto simp: engine_logged_def close_sink_def logs_def)
  show "engine_good io s0 p \<Longrightarrow> engine_logged io s0 p" by (rule good_logged)
qed

text \<open>The events so far, and the shutdown event once the drain has begun.\<close>

definition engine_events :: "event list \<Rightarrow> engine_sink proxy process \<Rightarrow> bool" where
  "engine_events evs0 q \<longleftrightarrow> configured (ps_state q) \<and>
     (\<exists>evs. audits (px_trace (ps_state q)) = evs0 @ evs \<and>
        (ps_phase q = Draining \<or> ps_phase q = Exited True \<longrightarrow>
           (\<exists>ev \<in> set evs. ev_type ev = type_engine_shutdown)))"

lemma engine_events_step:
  assumes "server_step proxy_step stop_engine close_sink p q" and "engine_events evs0 p"
  shows "engine_events evs0 q"
  using assms
proof (induction rule: server_step.induct)
  case (Work p s)
  then have st: "proxy_steps (ps_state p) s" by (simp add: step_steps_proxy)
  then obtain evs where "audits (px_trace s) = audits (px_trace (ps_state p)) @ evs"
    using proxy_steps_audits by blast
  with Work steps_configured [OF st] show ?case by (fastforce simp: engine_events_def)
next
  case (OnSignal p)
  then have c: "configured (ps_state p)" by (simp add: engine_events_def)
  obtain ev where "audits (px_trace (stop_engine (ps_state p))) = audits (px_trace (ps_state p)) @ [ev]"
    "ev_type ev = type_engine_shutdown" using stop_event [OF c] .
  with OnSignal steps_configured [OF stop_steps c] show ?case by (auto simp: engine_events_def)
qed (auto simp: engine_events_def add_line_def)

lemma engine_events_run:
  assumes "engine_process en q" and "configured (en_proxy en)"
  shows "engine_events (audits (px_trace (en_proxy en))) q"
  using assms(1) unfolding engine_process_def server_run_def
proof (induction rule: rtranclp_induct)
  case base
  then show ?case using assms(2) by (simp add: engine_events_def new_process_def)
qed (rule engine_events_step)

lemma stamp_type [simp]: "ev_type (stamp e p h) = ev_type e"
  by (simp add: stamp_def)

lemma list_all2_member: "list_all2 P xs ys \<Longrightarrow> x \<in> set xs \<Longrightarrow> \<exists>y \<in> set ys. P x y"
  by (induction rule: list_all2_induct) auto

section \<open>Properties\<close>

text \<open>
  C2. At every moment of the life of the process, and after its end however it ends, the log holds
  one chain that is linked to the hash the sink started with, starts with \<open>engine_start\<close> and has a
  line for every event emitted so far; once the drain has begun \<open>engine_shutdown\<close> is among them.
  This is for either sink with working I/O, any interleaving of requests, and a limiter with finite
  parameters.
\<close>

theorem process_log_complete:
  assumes "run_engine io w args = Serving en" and "sink_works io"
    and "finite_limiter (px_limiter (en_proxy en))"
    and "open_sink w (fl_audit_file (en_flags en)) (fl_audit_stdout (en_flags en)) = Inr s0"
    and "engine_process en q"
  shows "\<exists>sv es. px_sink (ps_state q) = Some sv \<and>
    sink_text (sv_state sv) = sink_text s0 @ log_text es \<and>
    linked compute_event_hash ev_event_hash (sink_tip s0) es \<and>
    list_all2 (\<lambda>e e'. \<exists>prev h. e' = stamp e prev h) (audits (px_trace (ps_state q))) es \<and>
    es \<noteq> [] \<and> ev_type (hd es) = type_engine_start \<and>
    (ps_phase q = Draining \<or> ps_phase q = Exited True \<longrightarrow>
      (\<exists>e \<in> set es. ev_type e = type_engine_shutdown))"
proof -
  obtain e0 where e0: "configured (en_proxy en)" "audits (px_trace (en_proxy en)) = [e0]"
    "ev_type e0 = type_engine_start" using started [OF assms(1)] .
  obtain evs where evs: "audits (px_trace (ps_state q)) = e0 # evs"
    "ps_phase q = Draining \<or> ps_phase q = Exited True \<longrightarrow>
       (\<exists>ev \<in> set evs. ev_type ev = type_engine_shutdown)"
    using engine_events_run [OF assms(5) e0(1)] e0(2) by (auto simp: engine_events_def)
  have "engine_good io s0 (en_proxy en)" using started_logged [OF assms(1-4)] by (simp add: engine_good_def)
  then have "engine_logged io s0 (ps_state q)"
    using eng.run_good assms(5) unfolding engine_process_def by blast
  then obtain sv es where log: "px_sink (ps_state q) = Some sv"
    "sink_text (sv_state sv) = sink_text s0 @ log_text es"
    "linked compute_event_hash ev_event_hash (sink_tip s0) es"
    "list_all2 (\<lambda>e e'. \<exists>p h. e' = stamp e p h) (e0 # evs) es"
    using assms(2) evs(1) by (auto simp: engine_logged_def logs_def)
  then obtain e1 es1 where es: "es = e1 # es1" "\<exists>p h. e1 = stamp e0 p h"
    "list_all2 (\<lambda>e e'. \<exists>p h. e' = stamp e p h) evs es1" by (auto simp: list_all2_Cons1)
  have "\<exists>e' \<in> set es1. ev_type e' = ev_type ev" if "ev \<in> set evs" for ev
    using list_all2_member [OF es(3) that] by (metis stamp_type)
  then have shut: "\<exists>e \<in> set es. ev_type e = type_engine_shutdown"
    if "ps_phase q = Draining \<or> ps_phase q = Exited True"
    using evs(2) that by (metis es(1) list.set_intros(2))
  have "ev_type (hd es) = type_engine_start" "es \<noteq> []" using es e0(3) by auto
  then show ?thesis
    by (intro exI [of _ sv] exI [of _ es] conjI impI log(1-3) shut) (simp_all add: evs(1) log(4))
qed




section \<open>Tunnels at the exit\<close>

text \<open>A tunnel that is up: upstream contacted, connection taken over, the client told.\<close>

definition tunnel_up :: "string \<Rightarrow> 's proxy \<Rightarrow> 's proxy" where
  "tunnel_up target p = perform (ClientWrite connection_established) (perform Hijacked (perform (Contact target) p))"

lemma tunnel_up_steps: "proxy_steps p q \<Longrightarrow> proxy_steps p (tunnel_up target q)"
  unfolding tunnel_up_def by (erule proxy_steps_handle) (intro steps_perform steps_refl; simp)

lemma tunnel_up_facts [simp]:
  "audits (px_trace (tunnel_up target p)) = audits (px_trace p)"
  "contacts (px_trace (tunnel_up target p)) = contacts (px_trace p) @ [target]"
  "configured (tunnel_up target p) = configured p"
  by (simp_all add: tunnel_up_def)

text \<open>A run from a start to an exit with one request hijacked on the way.\<close>

lemma work_run:
  assumes "proxy_steps s t" and "running q" and "0 < ps_active q + ps_hijacked q" and "ps_state q = s"
  shows "server_run proxy_step stop_engine close_sink q (q\<lparr>ps_state := t\<rparr>)"
  using assms(1) unfolding proxy_steps_def
proof (induction rule: rtranclp_induct)
  case base
  then show ?case using assms(4) by (metis (mono_tags, lifting) process.surjective process.update_convs(8) server_run_refl)
next
  case (step t u)
  have "server_step proxy_step stop_engine close_sink (q\<lparr>ps_state := t\<rparr>) (q\<lparr>ps_state := t\<rparr>\<lparr>ps_state := u\<rparr>)"
    by (rule server_step.Work) (use assms(2,3) step(2) in \<open>simp_all add: running_def\<close>)
  with server_run_step [OF step(3)] show ?case by simp
qed

lemma exit_with_hijacked:
  assumes "proxy_steps (en_proxy en) t"
  shows "\<exists>q. engine_process en q \<and> ps_phase q = Exited True \<and> ps_hijacked q = 1 \<and>
    ps_state q = close_sink (stop_engine t)"
proof -
  let ?step = "server_step proxy_step stop_engine close_sink"
    and ?run = "server_run proxy_step stop_engine close_sink"
  let ?p0 = "new_process (en_proxy en)"
  let ?p1 = "?p0\<lparr>ps_listener := Open\<rparr>"
  let ?p2 = "?p1\<lparr>ps_active := Suc (ps_active ?p1), ps_accepted := Suc (ps_accepted ?p1)\<rparr>"
  let ?p3 = "?p2\<lparr>ps_active := 0, ps_hijacked := Suc (ps_hijacked ?p2)\<rparr>"
  let ?p4 = "?p3\<lparr>ps_state := t\<rparr>"
  let ?p5 = "add_line SignalLine (?p4\<lparr>ps_phase := Signalled\<rparr>)"
  let ?p6 = "?p5\<lparr>ps_phase := Draining, ps_state := stop_engine (ps_state ?p5)\<rparr>"
  let ?p7 = "?p6\<lparr>ps_listener := Closed, ps_close_failed := False\<rparr>"
  let ?p8 = "(if ps_close_failed ?p7 then ?p7 else add_line CleanLine ?p7)
    \<lparr>ps_phase := Exited (\<not> ps_close_failed ?p7), ps_state := close_sink (ps_state ?p7)\<rparr>"
  have "?step ?p0 ?p1" by (rule server_step.Bind) (simp_all add: new_process_def)
  moreover have "?step ?p1 ?p2" by (rule server_step.Accept) (simp_all add: new_process_def)
  moreover have "?step ?p2 ?p3" by (rule server_step.Hijack) (simp_all add: new_process_def)
  moreover have "?run ?p3 ?p4" by (rule work_run [OF assms]) (simp_all add: new_process_def)
  moreover have "?step ?p4 ?p5" by (rule server_step.Signal) (simp add: new_process_def)
  moreover have "?step ?p5 ?p6" by (rule server_step.OnSignal) (simp add: add_line_def)
  moreover have "?step ?p6 ?p7"
    by (rule server_step.CloseListener) (simp_all add: add_line_def new_process_def)
  moreover have "?step ?p7 ?p8"
    by (rule server_step.Drained) (simp_all add: add_line_def new_process_def)
  ultimately have "?run ?p0 ?p8" by (meson server_run_refl server_run_step server_run_trans)
  moreover have "ps_phase ?p8 = Exited True" "ps_hijacked ?p8 = 1" "ps_state ?p8 = close_sink (stop_engine t)"
    by (simp_all add: add_line_def new_process_def)
  ultimately show ?thesis unfolding engine_process_def by blast
qed

lemma open_tunnel_up:
  assumes "ti_dial_error io = None" and "ti_hijackable io" and "ti_hijack_error io = None"
    and "ti_write_error io = None"
  shows "open_tunnel io host target p = relay_tunnel io host target (tunnel_up target p)"
  using assms by (simp add: open_tunnel_def finish_tunnel_def tunnel_up_def)

text \<open>
  C30. A tunnel that is open when the process is told to stop leaves no trace in the log: the handler
  of an allowed CONNECT contacts the upstream, sets the tunnel up and records its event only after
  the relay, and there is a run in which the process exits cleanly with the handler at that point;
  the upstream has been contacted, and all that was audited is the start and the shutdown.
\<close>

theorem open_tunnel_lost_at_exit:
  assumes "run_engine io w args = Serving en" and "rq_method (cl_request c) = method_connect"
    and "rq_url (cl_request c) = Some u" and "target = connect_target u (cl_request c)"
    and "host = host_without_port target" and "host \<noteq> []"
    and "policy_allows (px_policy (en_proxy en)) host" and "\<not> should_mitm (px_mitm (en_proxy en)) host"
    and "ti_dial_error (cl_tunnel c) = None" and "ti_hijackable (cl_tunnel c)"
    and "ti_hijack_error (cl_tunnel c) = None" and "ti_write_error (cl_tunnel c) = None"
    and "preflight (cl_request c) (en_proxy en) = (True, p)"
  shows "serve_http c (en_proxy en) = relay_tunnel (cl_tunnel c) host target (tunnel_up target p) \<and>
    event_count (serve_http c (en_proxy en)) = 2 \<and>
    (\<exists>q. engine_process en q \<and> ps_phase q = Exited True \<and>
      ps_state q = close_sink (stop_engine (tunnel_up target p)) \<and>
      target \<in> set (contacts (px_trace (ps_state q))) \<and>
      List.map ev_type (audits (px_trace (ps_state q))) = [type_engine_start, type_engine_shutdown])"
proof -
  obtain e0 where e0: "configured (en_proxy en)" "audits (px_trace (en_proxy en)) = [e0]"
    "ev_type e0 = type_engine_start" using started [OF assms(1)] .
  have quiet: "quiet (en_proxy en) p"
    using preflight_passes [OF e0(1), of "cl_request c"] assms(13) by (simp add: passes_or_refuses_def)
  then have p: "configured p" "px_policy p = px_policy (en_proxy en)" "px_mitm p = px_mitm (en_proxy en)"
    "audits (px_trace p) = [e0]"
    using e0 by (simp_all add: quiet_configured) (simp_all add: quiet_def same_config_def)
  have served: "serve_http c (en_proxy en) = relay_tunnel (cl_tunnel c) host target (tunnel_up target p)"
    using assms(2-13) e0(1) p
    by (simp add: serve_http_def dispatch_def handle_connect_def open_tunnel_up Let_def)
  have "proxy_steps (en_proxy en) (tunnel_up target p)"
    using tunnel_up_steps steps_preflight [of "en_proxy en" "cl_request c"] assms(13) by simp
  from exit_with_hijacked [OF this] obtain q where q: "engine_process en q" "ps_phase q = Exited True"
    "ps_state q = close_sink (stop_engine (tunnel_up target p))" by blast
  obtain e1 where e1: "audits (px_trace (stop_engine (tunnel_up target p))) =
      audits (px_trace (tunnel_up target p)) @ [e1]" "ev_type e1 = type_engine_shutdown"
    using stop_event [of "tunnel_up target p"] p(1) by auto
  have types: "List.map ev_type (audits (px_trace (ps_state q))) = [type_engine_start, type_engine_shutdown]"
    using q(3) e1 p(4) e0(3) by simp
  have contacted: "target \<in> set (contacts (px_trace (ps_state q)))"
    by (simp add: q(3) stop_engine_def emit_engine_shutdown_def)
  have "event_count (serve_http c (en_proxy en)) = 2"
    using p by (simp add: served relay_tunnel_def Let_def event_count_def)
  then show ?thesis by (intro conjI exI [of _ q] served q contacted types)
qed

section \<open>Witnesses\<close>

lemma demo_process: "engine_process demo_engine (new_process (en_proxy demo_engine))"
  by (simp add: engine_process_def)

lemma demo_sink: "open_sink demo_world (fl_audit_file (en_flags demo_engine)) (fl_audit_stdout (en_flags demo_engine))
    = Inr (StdoutSink new_stdout_sink)"
  by (simp add: open_sink_def demo_engine_def demo_flags_def default_flags_def)

theorem process_log_complete_witness:
  "\<exists>es. linked compute_event_hash ev_event_hash None es \<and> ev_type (hd es) = type_engine_start \<and> es \<noteq> []"
  using process_log_complete [OF demo_run _ _ demo_sink demo_process]
  by (auto simp: sink_works_def demo_io_def new_stdout_sink_def)

lemma demo_exit: "\<exists>q. engine_process demo_engine q \<and> ps_phase q = Exited True"
  using exit_with_hijacked [OF proxy_steps_refl] by blast



theorem open_tunnel_lost_at_exit_witness:
  "\<exists>q. engine_process demo_engine q \<and> ps_phase q = Exited True \<and>
     ''a.io:80'' \<in> set (contacts (px_trace (ps_state q))) \<and>
     List.map ev_type (audits (px_trace (ps_state q))) = [type_engine_start, type_engine_shutdown]"
  using open_tunnel_lost_at_exit [OF demo_run, of "demo_call method_connect ''a.io:80''"
      "\<lparr>u_scheme = ''http'', u_host = ''a.io:80'', u_path = ''/''\<rparr>" "''a.io:80''" "''a.io''" "en_proxy demo_engine"]
  by (auto simp: demo_call_def connect_target_def should_mitm_def)

end
