(* ===== verification/Proxy_Leaf.thy ===== *)
theory Proxy_Leaf
  imports Proxy_Safety
begin

text \<open>
  The certificates the proxy presents: how the requests of a run share the authority of
  \<open>internal/mitm\<close>, and what every chain presented in the name of a host is.
\<close>

section \<open>What leaves the authority alone\<close>

lemma contacting_presented: "contacting p q \<Longrightarrow> presented (px_trace q) = presented (px_trace p)"
  by (induction rule: contacting.induct) auto

lemma account_mitm [simp]: "px_mitm (snd (account_usage u pl p)) = px_mitm p"
  by (auto simp: account_usage_def Let_def split: option.splits prod.splits)

lemma http_error_mitm [simp]: "px_mitm (http_error h m n p) = px_mitm p"
  by (simp add: http_error_def)

lemma deny_host_leaf [simp]:
  "px_mitm (deny_host pl h p) = px_mitm p"
  "presented (px_trace (deny_host pl h p)) = presented (px_trace p)"
  by (simp_all add: deny_host_def)

lemma forward_mitm_leaf [simp]:
  "px_mitm (forward_mitm_request ex host target p) = px_mitm p"
  "presented (px_trace (forward_mitm_request ex host target p)) = presented (px_trace p)"
proof -
  let ?p0 = "perform (Outgoing (exchange_outgoing ex)) (tick p)"
  let ?c = "client_do 9 (me_wrap ex) (me_hops ex) (me_has_body ex) 0 (me_method ex) (me_url ex) ?p0"
  obtain res q where c: "?c = (res, q)" by fastforce
  have "contacting ?p0 (snd ?c)" by (rule client_do_contacting)
  then have q: "px_mitm q = px_mitm p" "presented (px_trace q) = presented (px_trace p)"
    using contacting_facts [of ?p0 q] contacting_presented [of ?p0 q] by (simp_all add: c)
  show "px_mitm (forward_mitm_request ex host target p) = px_mitm p"
    "presented (px_trace (forward_mitm_request ex host target p)) = presented (px_trace p)"
    using q by (auto simp: forward_mitm_request_def c Let_def split_beta write_mitm_error_def
        split: sum.splits option.splits)
qed

lemma mitm_loop_leaf [simp]:
  "px_mitm (mitm_loop exs host target p) = px_mitm p"
  "presented (px_trace (mitm_loop exs host target p)) = presented (px_trace p)"
  by (induction exs arbitrary: p) simp_all

lemma tunnel_leaf [simp]:
  "px_mitm (tunnel_error h t e p) = px_mitm p" "px_mitm (mitm_fail h e p) = px_mitm p"
  "px_mitm (open_tunnel io h t p) = px_mitm p"
  "presented (px_trace (tunnel_error h t e p)) = presented (px_trace p)"
  "presented (px_trace (mitm_fail h e p)) = presented (px_trace p)"
  "presented (px_trace (open_tunnel io h t p)) = presented (px_trace p)"
  by (auto simp: tunnel_error_def mitm_fail_def open_tunnel_def finish_tunnel_def relay_tunnel_def
      Let_def split: option.splits)

lemma handle_http_leaf [simp]:
  "px_mitm (handle_http r rt p) = px_mitm p"
  "presented (px_trace (handle_http r rt p)) = presented (px_trace p)"
proof -
  have f: "px_mitm (snd (forward_http l u t rt q)) = px_mitm q"
    "presented (px_trace (snd (forward_http l u t rt q))) = presented (px_trace q)" for l u t q
    by (auto simp: forward_http_def error_handler_def Let_def
        split: round_trip.splits sum.splits option.splits)
  have g: "px_mitm (finish_http h m pa st x) = px_mitm (snd x)"
    "presented (px_trace (finish_http h m pa st x)) = presented (px_trace (snd x))" for h m pa st x
    by (auto simp: finish_http_def split_beta split: forward_result.splits prod.splits)
  show "px_mitm (handle_http r rt p) = px_mitm p"
    "presented (px_trace (handle_http r rt p)) = presented (px_trace p)"
    by (auto simp: handle_http_def Let_def f g split: option.splits)
qed

lemma terminate_leaf:
  "px_mitm (terminate_tls io leaf target host p) = px_mitm p"
  "presented (px_trace (terminate_tls io leaf target host p)) = presented (px_trace p) \<or>
   presented (px_trace (terminate_tls io leaf target host p)) = presented (px_trace p) @ [(host, tc_chain leaf)]"
  by (auto simp: terminate_tls_def Let_def split: option.splits)

section \<open>The interface\<close>

text \<open>
  What the handling of a request does with the authority: nothing, or one call of \<open>LeafFor\<close> for a
  host that is allowed and to be intercepted, whose answer may be presented.
\<close>

definition leaf_step :: "mitm_io \<Rightarrow> 's proxy \<Rightarrow> 's proxy \<Rightarrow> bool" where
  "leaf_step io p q \<longleftrightarrow>
     px_mitm q = px_mitm p \<and> presented (px_trace q) = presented (px_trace p) \<or>
     (\<exists>mc host res a. px_mitm p = Some mc \<and> policy_allows (px_policy p) host \<and> should_mitm (px_mitm p) host \<and>
        leaf_for (mi_minting io) (mi_instants io) host (mc_authority mc) = (res, a) \<and>
        px_mitm q = Some (mc\<lparr>mc_authority := a\<rparr>) \<and>
        (presented (px_trace q) = presented (px_trace p) \<or>
         (\<exists>leaf. res = Inr leaf \<and> presented (px_trace q) = presented (px_trace p) @ [(host, tc_chain leaf)])))"

lemma handle_mitm_leaf:
  assumes "policy_allows (px_policy p) host" and "should_mitm (px_mitm p) host"
  shows "leaf_step io p (handle_mitm io target host p)"
proof -
  obtain mc where mc: "px_mitm p = Some mc" using should_mitm_Some [OF assms(2)] by blast
  then show ?thesis
  proof (cases rule: handle_mitm_cases [where io = io and host = host and target = target])
    case (Unsigned err a)
    with mc assms show ?thesis unfolding leaf_step_def
      by (intro disjI2 exI [of _ mc] exI [of _ host] exI [of _ "Inl err"] exI [of _ a]) simp
  next
    case (Signed leaf a)
    with mc assms show ?thesis unfolding leaf_step_def
      using terminate_leaf [of io leaf target host "p\<lparr>px_mitm := Some (mc\<lparr>mc_authority := a\<rparr>)\<rparr>"]
      by (intro disjI2 exI [of _ mc] exI [of _ host] exI [of _ "Inr leaf"] exI [of _ a]) auto
  qed
qed

lemma leaf_step_same:
  "px_mitm q = px_mitm p \<Longrightarrow> presented (px_trace q) = presented (px_trace p) \<Longrightarrow> leaf_step io p q"
  by (simp add: leaf_step_def)

lemma handle_connect_leaf: "leaf_step mio p (handle_connect r mio tio p)"
  by (auto simp: handle_connect_def Let_def handle_mitm_leaf leaf_step_same split: option.splits)

text \<open>
  A chain that is valid for a host at the lookup of a call; the authority of a later state, with a
  sound cache, that signs and intercepts as the one given.
\<close>

definition valid_chain :: "tls_minting \<Rightarrow> tls_authority \<Rightarrow> instants \<Rightarrow> string \<Rightarrow> string list \<Rightarrow> bool" where
  "valid_chain m a i host chain \<longleftrightarrow>
     (\<exists>key. signed_for m a host (in_lookup i) (in_lookup i) \<lparr>tc_chain = chain, tc_key = key\<rparr>)"

definition mitm_kept :: "tls_minting \<Rightarrow> int \<Rightarrow> mitm_config \<Rightarrow> 's proxy \<Rightarrow> bool" where
  "mitm_kept m t mc q \<longleftrightarrow>
     (\<exists>mc'. px_mitm q = Some mc' \<and> cache_ok m t (mc_authority mc') \<and>
        signed_for m (mc_authority mc') = signed_for m (mc_authority mc) \<and>
        mc_host_patterns mc' = mc_host_patterns mc)"

lemma leaf_step_kept:
  assumes "leaf_step io p q" and "px_mitm p = Some mc" and "cache_ok m t (mc_authority mc)"
    and "timely t (mi_instants io)" and "same_signer m (mi_minting io)"
  shows "mitm_kept m (in_store (mi_instants io)) mc q"
proof -
  let ?i = "mi_instants io"
  have late: "t \<le> in_store ?i" "in_lookup ?i \<le> in_store ?i" using assms(4) by (simp_all add: timely_def)
  consider "px_mitm q = px_mitm p" | host res a where
      "leaf_for (mi_minting io) ?i host (mc_authority mc) = (res, a)"
      "px_mitm q = Some (mc\<lparr>mc_authority := a\<rparr>)"
    using assms(1,2) by (auto simp: leaf_step_def)
  then show ?thesis
  proof cases
    case 1
    with assms(2) cache_ok_later [OF assms(3) late(1)] show ?thesis by (simp add: mitm_kept_def)
  next
    case (2 host res a)
    have "cache_ok m (in_lookup ?i) a"
      using leaf_for_keeps [OF _ assms(4) 2(1)] assms(3) same_signer_cache [OF assms(5)] by simp
    then have "cache_ok m (in_store ?i) a" by (rule cache_ok_later [OF _ late(2)])
    with 2(2) leaf_for_frame [OF 2(1)] show ?thesis by (auto simp: mitm_kept_def)
  qed
qed

lemma leaf_step_presented:
  assumes "leaf_step io p q" and "px_mitm p = Some mc" and "cache_ok m t (mc_authority mc)"
    and "timely t (mi_instants io)" and "same_signer m (mi_minting io)"
    and "(h, chain) \<in> set (presented (px_trace q))"
  shows "(h, chain) \<in> set (presented (px_trace p)) \<or>
    policy_allows (px_policy p) h \<and> should_mitm (px_mitm p) h \<and>
    valid_chain m (mc_authority mc) (mi_instants io) h chain"
proof (cases "(h, chain) \<in> set (presented (px_trace p))")
  case False
  with assms(1,2,6) obtain leaf a where l:
    "leaf_for (mi_minting io) (mi_instants io) h (mc_authority mc) = (Inr leaf, a)" "chain = tc_chain leaf"
    and al: "policy_allows (px_policy p) h" "should_mitm (px_mitm p) h"
    by (auto simp: leaf_step_def)
  have "signed_for m (mc_authority mc) h (in_lookup (mi_instants io)) (in_lookup (mi_instants io)) leaf"
    using leaf_for_valid [OF _ assms(4) l(1)] assms(3) same_signer_cache [OF assms(5)]
      same_signer_signed [OF assms(5)] by simp
  then have "valid_chain m (mc_authority mc) (mi_instants io) h chain"
    unfolding valid_chain_def l(2) by (intro exI [of _ "tc_key leaf"]) (cases leaf, simp)
  with al show ?thesis by simp
qed simp

locale certifying_handler = egress_handler handle acceptable
  for handle :: "'c \<Rightarrow> 's proxy \<Rightarrow> 's proxy" and acceptable +
  fixes io_of :: "'c \<Rightarrow> mitm_io"
  assumes handle_leaf: "leaf_step (io_of c) p (handle c p)"
begin

text \<open>A run whose calls read the clock in turn and sign with the same CA.\<close>

lemma run_presented:
  assumes "px_mitm p = Some mc" and "cache_ok m t (mc_authority mc)"
    and "in_turn t (List.map (\<lambda>c. (mi_instants (io_of c), [])) cs)"
    and "\<forall>c \<in> set cs. same_signer m (mi_minting (io_of c))"
    and "(h, chain) \<in> set (presented (px_trace (run_calls handle cs p)))"
  shows "(h, chain) \<in> set (presented (px_trace p)) \<or>
    policy_allows (px_policy p) h \<and> should_mitm (px_mitm p) h \<and>
    (\<exists>c \<in> set cs. valid_chain m (mc_authority mc) (mi_instants (io_of c)) h chain)"
  using assms
proof (induction cs arbitrary: p mc t)
  case (Cons c cs)
  let ?i = "mi_instants (io_of c)" and ?q = "handle c p"
  have tm: "timely t ?i" and sg: "same_signer m (mi_minting (io_of c))" using Cons.prems(3,4) by simp_all
  obtain mc' where mc': "px_mitm ?q = Some mc'" "cache_ok m (in_store ?i) (mc_authority mc')"
    "signed_for m (mc_authority mc') = signed_for m (mc_authority mc)" "mc_host_patterns mc' = mc_host_patterns mc"
    using leaf_step_kept [OF handle_leaf Cons.prems(1,2) tm sg] by (auto simp: mitm_kept_def)
  have same: "should_mitm (px_mitm ?q) h = should_mitm (px_mitm p) h"
    "valid_chain m (mc_authority mc') = valid_chain m (mc_authority mc)"
    using mc'(1,3,4) Cons.prems(1) by (simp_all add: should_mitm_def valid_chain_def fun_eq_iff)
  have "(h, chain) \<in> set (presented (px_trace (run_calls handle cs ?q)))"
    using Cons.prems(5) by (simp add: run_calls_def)
  with Cons.IH [OF mc'(1,2)] Cons.prems(3,4) leaf_step_presented [OF handle_leaf Cons.prems(1,2) tm sg]
  show ?case by (auto simp: same handle_policy)
qed (simp add: run_calls_def)

end

section \<open>The handlers\<close>

lemma preflight_leaf [simp]:
  "px_mitm (snd (preflight r p)) = px_mitm p"
  "presented (px_trace (snd (preflight r p))) = presented (px_trace p)"
proof -
  have d: "px_mitm (deny_rate_or_count why pl q) = px_mitm q"
    "presented (px_trace (deny_rate_or_count why pl q)) = presented (px_trace q)" for why pl and q :: "'a proxy"
    by (simp_all add: deny_rate_or_count_def)
  have "px_mitm (snd (check_counter r q)) = px_mitm q" "px_mitm (snd (check_limiter r q)) = px_mitm q"
    "px_mitm (snd (check_budget r q)) = px_mitm q"
    "presented (px_trace (snd (check_counter r q))) = presented (px_trace q)"
    "presented (px_trace (snd (check_limiter r q))) = presented (px_trace q)"
    "presented (px_trace (snd (check_budget r q))) = presented (px_trace q)" for q :: "'a proxy"
    by (simp_all add: check_counter_def check_limiter_def check_budget_def d Let_def
        split: option.splits prod.splits)
  then show "px_mitm (snd (preflight r p)) = px_mitm p"
    "presented (px_trace (snd (preflight r p))) = presented (px_trace p)"
    by (simp_all add: preflight_def and_then_def split_beta)
qed

lemma leaf_step_after:
  "leaf_step io q r \<Longrightarrow> px_mitm q = px_mitm p \<Longrightarrow> presented (px_trace q) = presented (px_trace p) \<Longrightarrow>
   px_policy q = px_policy p \<Longrightarrow> leaf_step io p r"
  by (simp add: leaf_step_def)

lemma dispatch_leaf: "leaf_step (cl_mitm c) p (dispatch c p)"
  by (simp add: dispatch_def handle_connect_leaf leaf_step_same)

lemma serve_leaf: "leaf_step (cl_mitm c) p (serve_http c p)"
proof -
  obtain ok q where q: "preflight (cl_request c) p = (ok, q)" by fastforce
  have m: "px_mitm q = px_mitm p" "presented (px_trace q) = presented (px_trace p)"
    using preflight_leaf [of "cl_request c" p] by (simp_all add: q)
  moreover have "px_policy q = px_policy p"
    using proxy_steps_same_config [OF steps_preflight, of p "cl_request c"] by (simp add: q same_config_def)
  ultimately show ?thesis
    using leaf_step_after [OF dispatch_leaf m] by (simp add: serve_http_def q leaf_step_same)
qed

interpretation cserver: certifying_handler serve_http "\<lambda>c. unredirected (cl_mitm c)" cl_mitm
  by unfold_locales (rule serve_leaf)

section \<open>Idle connections\<close>

text \<open>
  A terminated connection on which the client sends no request that can be read leaves no event: it
  was allowed, answered 200 and shown a certificate, and the log does not know of it.
\<close>

theorem idle_interception_unaudited:
  assumes "configured p" and "rq_url r = Some u" and "target = connect_target u r"
    and "host_without_port target \<noteq> []" and "policy_allows (px_policy p) (host_without_port target)"
    and "should_mitm (px_mitm p) (host_without_port target)"
    and "mitm_opens mio (host_without_port target) (px_mitm p)" and "mi_requests mio = []"
  shows "event_count (handle_connect r mio tio p) = event_count p \<and>
    contacts (px_trace (handle_connect r mio tio p)) = contacts (px_trace p) \<and>
    (\<exists>chain. presented (px_trace (handle_connect r mio tio p)) =
       presented (px_trace p) @ [(host_without_port target, chain)])"
proof -
  let ?host = "host_without_port target"
  obtain mc where mc: "px_mitm p = Some mc" using should_mitm_Some [OF assms(6)] by blast
  have h: "handle_connect r mio tio p = handle_mitm mio target ?host p"
    using assms(2-6) by (simp add: handle_connect_def Let_def)
  have "\<exists>chain. presented (px_trace (handle_mitm mio target ?host p)) = presented (px_trace p) @ [(?host, chain)]"
    using mc
  proof (cases rule: handle_mitm_cases [where io = mio and host = ?host and target = target])
    case (Unsigned err a)
    with assms(7) show ?thesis by (simp add: mitm_opens_def)
  next
    case (Signed leaf a)
    with assms(7) show ?thesis by (simp add: mitm_opens_def terminate_opens)
  qed
  then show ?thesis
    using handle_mitm_events(1) [of p mio target ?host] handle_mitm_contacts [of mio target ?host p]
      assms(1,7,8) mc by (simp add: h)
qed

section \<open>Addresses in brackets\<close>

text \<open>
  An IPv6 literal is certified as a name: \<open>handleMITM\<close> asks for a certificate for the host as
  \<open>hostWithoutPort\<close> leaves it, with its brackets, which the parser of addresses does not accept. The
  template that is signed names \<open>[h]\<close> as a DNS name, and neither the address \<open>h\<close> that is dialed nor
  any address at all.
\<close>

theorem bracketed_address_misnamed:
  assumes "split_host_port target = Inr (h, port)" and "has_prefix target ''[''"
    and "mt_parse_ip m (''['' @ h @ '']'') = None"
    and "map_of (au_cache a) (host_without_port target) = None"
    and "leaf_for m i (host_without_port target) a = (Inr leaf, a')"
  shows "\<exists>tmpl der. mt_sign m tmpl (au_ca_cert a) (tc_key leaf) (au_ca_key a) = Some der \<and>
    hd (tc_chain leaf) = der \<and> tm_ips tmpl = [] \<and> tm_dns tmpl = [''['' @ h @ '']''] \<and> h \<notin> set (tm_dns tmpl)"
proof -
  have host: "host_without_port target = ''['' @ h @ '']''"
    using bracketed_host_kept [OF assms(1,2)] .
  let ?t = "leaf_template (mt_parse_ip m) (in_serial i) (in_mint i) (''['' @ h @ '']'')"
  have "tm_ips ?t = []" "tm_dns ?t = [''['' @ h @ '']'']" using assms(3) by (simp_all add: leaf_template_def)
  moreover have "h \<noteq> ''['' @ h @ '']''" by (metis append_Cons append_Nil impossible_Cons le_add1 length_append)
  moreover obtain der where "mt_sign m ?t (au_ca_cert a) (tc_key leaf) (au_ca_key a) = Some der"
    "hd (tc_chain leaf) = der"
    using assms(4,5) by (auto simp: leaf_for_def mint_leaf_def host split: option.splits)
  ultimately show ?thesis by (intro exI [of _ ?t] exI [of _ der]) simp
qed

theorem idle_interception_unaudited_witness:
  "event_count (handle_connect (cl_request (demo_call method_connect ''a.io:80'')) (demo_mitm\<lparr>mi_requests := []\<rparr>)
     (cl_tunnel (demo_call method_connect ''a.io:80'')) demo_mitm_proxy) = 0"
proof -
  let ?io = "demo_mitm\<lparr>mi_requests := []\<rparr>"
  have p: "configured demo_mitm_proxy" "px_trace demo_mitm_proxy = []"
    "px_policy demo_mitm_proxy = px_policy demo_proxy"
    "px_mitm demo_mitm_proxy = Some \<lparr>mc_authority = demo_authority, mc_host_patterns = [''a.io'']\<rparr>"
    by (simp_all add: demo_mitm_proxy_def demo_proxy_def proxy_with_def configured_def)
  have "mitm_opens ?io h m = mitm_opens demo_mitm h m" for h m
    by (cases m) (simp_all add: mitm_opens_def tls_opens_def leaf_minted_def)
  with p show ?thesis
    using idle_interception_unaudited [of demo_mitm_proxy "cl_request (demo_call method_connect ''a.io:80'')"
        "\<lparr>u_scheme = ''http'', u_host = ''a.io:80'', u_path = ''/''\<rparr>" "''a.io:80''" ?io
        "cl_tunnel (demo_call method_connect ''a.io:80'')"]
    by (simp add: demo_call_def connect_target_def should_mitm_def event_count_def)
qed

theorem bracketed_address_misnamed_witness:
  "\<exists>tmpl :: string template. tm_ips tmpl = [] \<and> tm_dns tmpl = [''[::1]'']"
proof -
  let ?a = "make_authority ''C'' ''K'' ''P''"
  have s: "split_host_port ''[::1]:443'' = Inr (''::1'', ''443'')"
    by (simp add: split_host_port_def has_prefix_def first_index_def)
  have h: "host_without_port ''[::1]:443'' = ''[::1]''" by (simp add: host_without_port_def has_prefix_def)
  have l: "leaf_for demo_minting (demo_instants 0) (host_without_port ''[::1]:443'') ?a =
      (Inr \<lparr>tc_chain = [''[::1]C'', ''C''], tc_key = ''k''\<rparr>, snd (leaf_for demo_minting (demo_instants 0)
        (host_without_port ''[::1]:443'') ?a))"
    by (simp add: h leaf_for_def mint_leaf_def make_authority_def demo_minting_def leaf_template_def)
  have "map_of (au_cache ?a) (host_without_port ''[::1]:443'') = None" by (simp add: make_authority_def)
  from bracketed_address_misnamed [OF s _ _ this l]
  show ?thesis by (auto simp: has_prefix_def demo_minting_def)
qed

end
