(* ===== verification/Engine_Leaf.thy ===== *)
theory Engine_Leaf
  imports Engine_Run Proxy_Leaf
begin

text \<open>
  The certificates a serving engine presents: the root handler meets the interface of
  \<open>Proxy_Leaf\<close>, and the authority it starts with has an empty cache.
\<close>

section \<open>The root handler\<close>

lemma root_leaf: "leaf_step (cl_mitm (ec_call c)) p (root_handler c p)"
  by (cases rule: root_handler_cases [of c p]) (simp_all add: serve_leaf leaf_step_same)

interpretation croot: certifying_handler root_handler "\<lambda>c. unredirected (cl_mitm (ec_call c))"
  "\<lambda>c. cl_mitm (ec_call c)"
  by unfold_locales (rule root_leaf)


section \<open>Witnesses\<close>

definition mitm_world :: "(string, string, string) world" where
  "mitm_world = demo_world\<lparr>wo_env := \<lambda>k. if k = ''AEGRAIL_ENGINE_MITM_HOSTS'' then ''a.io'' else []\<rparr>"

definition mitm_engine :: engine where
  "mitm_engine = \<lparr>en_proxy = emit_engine_start engine_version (demo_start\<lparr>px_mitm :=
     Some \<lparr>mc_authority = make_authority ''D'' ''K'' ''P'', mc_host_patterns = [''a.io'']\<rparr>\<rparr>), en_flags = demo_flags\<rparr>"

lemma mitm_run: "run_engine demo_io mitm_world demo_args = Serving mitm_engine"
proof -
  have "policy_new [''a.io''] = Inr \<lparr>pol_patterns = [''a.io'']\<rparr>"
    by (simp add: policy_new_ok wf_literal literal_def is_meta_def is_star_def)
  moreover have "build_mitm_config mitm_world =
      Inr (Some \<lparr>mc_authority = make_authority ''D'' ''K'' ''P'', mc_host_patterns = [''a.io'']\<rparr>)"
    by (simp add: build_mitm_config_def mitm_world_def demo_world_def new_authority_def
      trim_space_all_visible visible_def)
  moreover have "wo_random mitm_world = Some ''r''" "wo_unix_ms mitm_world = 0" "wo_mono mitm_world = 0"
    "wo_clock mitm_world = (\<lambda>_. \<lparr>ck_wall_ms = 0, ck_mono = 0\<rparr>)"
    by (simp_all add: mitm_world_def demo_world_def)
  ultimately have "start_engine demo_io mitm_world demo_flags = Inr mitm_engine"
    by (simp add: start_engine_def Let_def demo_flags_def default_flags_def env_or_def
      open_sink_def new_session_def parse_cap_def parse_rate_spec_def mitm_engine_def demo_start_def)
  moreover have "\<not> fl_version demo_flags" by (simp add: demo_flags_def default_flags_def)
  moreover have "default_flags (wo_env mitm_world) = default_flags (\<lambda>_. [])"
    by (simp add: default_flags_def env_or_def mitm_world_def)
  ultimately show ?thesis by (simp add: run_engine_def demo_parse)
qed


end
