(* ===== verification/Proxy_Ledger.thy ===== *)
theory Proxy_Ledger
  imports Proxy_Safety
begin

text \<open>
  The token budget and the audit log keep the same books: what the budget counts is the sum of the
  tokens in the events, over any run of requests and on both paths.
\<close>

section \<open>Books\<close>

text \<open>The tokens an event records.\<close>

definition payload_tokens :: "gmap \<Rightarrow> int64" where
  "payload_tokens pl =
     (case (map_of pl ''tokens_in'', map_of pl ''tokens_out'') of
        (Some (GInt a), Some (GInt b)) \<Rightarrow> a + b
      | _ \<Rightarrow> 0)"

definition ledger :: "event list \<Rightarrow> int64" where
  "ledger evs = sum_list (List.map (\<lambda>ev. payload_tokens (the (ev_payload ev))) evs)"

text \<open>The cap, and what has been counted beyond the ledger.\<close>

definition balance :: "'s proxy \<Rightarrow> (int64 \<times> int64) option" where
  "balance p = map_option (\<lambda>b. (tb_max b, tb_used b - ledger (audits (px_trace p)))) (px_budget p)"

lemma payload_tokens_none [simp]: "map_of pl ''tokens_in'' = None \<Longrightarrow> payload_tokens pl = 0"
  by (simp add: payload_tokens_def)

lemma ledger_append [simp]: "ledger (xs @ ys) = ledger xs + ledger ys"
  by (simp add: ledger_def)

lemma ledger_event [simp]: "ledger [make_event ss t ty pl] = payload_tokens pl" "ledger [] = 0"
  by (simp_all add: ledger_def make_event_def)

lemma balance_emit [simp]:
  "configured p \<Longrightarrow> map_of pl ''tokens_in'' = None \<Longrightarrow> balance (px_emit ty pl p) = balance p"
  by (simp add: balance_def)

lemma balance_perform [simp]: "(\<And>ev. e \<noteq> Audit ev) \<Longrightarrow> balance (perform e p) = balance p"
  by (cases e) (auto simp: balance_def)

lemma balance_ops [simp]:
  "balance (tick p) = balance p" "balance (respond n h b p) = balance p"
  "balance (http_error h m n p) = balance p" "balance (p\<lparr>px_counter := c\<rparr>) = balance p"
  "balance (p\<lparr>px_limiter := l\<rparr>) = balance p" "balance (p\<lparr>px_mitm := mc\<rparr>) = balance p"
  by (simp_all add: balance_def)

lemma configured_updates [simp]:
  "configured (p\<lparr>px_counter := c\<rparr>) = configured p" "configured (p\<lparr>px_limiter := l\<rparr>) = configured p"
  by (simp_all add: configured_def)

section \<open>The handlers balance\<close>

lemma balance_account_emit:
  assumes "configured p" and "map_of pl ''tokens_in'' = None" and "map_of pl ''tokens_out'' = None"
    and "account_usage u pl p = (pl', p')"
  shows "balance (px_emit ty pl' p') = balance p"
proof -
  have "configured p'" using assms(1,4) account_facts(2) [of u pl p] by simp
  with assms show ?thesis
    by (auto simp: account_usage_def balance_def payload_tokens_def budget_add_def Let_def map_add_def
        split: if_splits option.splits prod.splits)
qed

lemma balance_error_handler [simp]: "balance (error_handler err p) = balance p"
  by (simp add: error_handler_def)

lemma balance_forward: "forward_http llm u t rt p = (res, q) \<Longrightarrow> balance q = balance p \<and> configured q = configured p"
  by (auto simp: forward_http_def Let_def error_handler_def split: round_trip.splits sum.splits option.splits if_splits)

lemma balance_finish:
  assumes "configured q"
  shows "balance (finish_http h m pa st (res, q)) = balance q"
proof (cases res)
  case (FwdDone status usage)
  let ?pl = "[(''host'', GStr h), (''method'', GStr m), (''path'', GStr pa),
    (''status_code'', GInt (of_nat status)), (''duration_ms'', GInt (elapsed_ms st q))]"
  obtain pl' q' where "account_usage usage ?pl (tick q) = (pl', q')" by fastforce
  with balance_account_emit [OF _ _ _ this, of "''egress_allowed''"] assms FwdDone
  show ?thesis by (simp add: finish_http_def)
next
  case FwdAbort
  then show ?thesis by (simp add: finish_http_def)
next
  case (FwdError e)
  with assms show ?thesis by (simp add: finish_http_def)
qed

lemma balance_handle_http:
  assumes "configured p"
  shows "balance (handle_http r rt p) = balance p"
proof -
  have "balance (finish_http h m pa st (forward_http l u t rt q)) = balance q" if "configured q"
    for h m pa st l u t q
    using balance_forward [of l u t rt q] that by (cases "forward_http l u t rt q") (simp add: balance_finish)
  note f = this
  show ?thesis
    using assms by (auto simp: handle_http_def deny_host_def Let_def f split: option.splits)
qed

lemma balance_contacting: "contacting p q \<Longrightarrow> balance q = balance p \<and> configured q = configured p"
  by (induction rule: contacting.induct) auto

lemma balance_forward_mitm:
  assumes "configured p"
  shows "balance (forward_mitm_request ex host target p) = balance p"
proof -
  let ?p0 = "perform (Outgoing (exchange_outgoing ex)) (tick p)"
  let ?c = "client_do 9 (me_wrap ex) (me_hops ex) (me_has_body ex) 0 (me_method ex) (me_url ex) ?p0"
  obtain res q where c: "?c = (res, q)" by fastforce
  have "contacting ?p0 (snd ?c)" by (rule client_do_contacting)
  with assms have q: "balance q = balance p" "configured q" using balance_contacting [of ?p0 q] by (simp_all add: c)
  have fw: "balance (perform (Forwarded n b) q) = balance p" for n b using q(1) by simp
  have ac: "balance (case account_usage u pl (tick (perform (Forwarded n b) q)) of (pl', q') \<Rightarrow> px_emit ty pl' q') = balance p"
    if "map_of pl ''tokens_in'' = None" "map_of pl ''tokens_out'' = None" for u pl ty n b
    using balance_account_emit [of "tick (perform (Forwarded n b) q)" pl u _ _ ty] that q fw
    by (auto split: prod.split)
  show ?thesis
    using q by (auto simp: forward_mitm_request_def c Let_def write_mitm_error_def ac split: sum.splits option.splits)
qed

lemma balance_mitm_loop: "configured p \<Longrightarrow> balance (mitm_loop exs host target p) = balance p"
  by (induction exs arbitrary: p) (simp_all add: balance_forward_mitm forward_mitm_facts)

lemma balance_handle_mitm:
  assumes "configured p"
  shows "balance (handle_mitm io target host p) = balance p"
proof -
  have t: "balance (terminate_tls io leaf target host q) = balance q" if "configured q" for leaf and q :: "'a proxy"
    using that by (auto simp: terminate_tls_def mitm_fail_def Let_def balance_mitm_loop split: option.splits)
  show ?thesis
    using assms by (auto simp: handle_mitm_def Let_def t split: option.splits prod.splits sum.splits)
qed

lemma balance_handle_connect:
  assumes "configured p"
  shows "balance (handle_connect r mio tio p) = balance p"
proof -
  have "balance (open_tunnel tio host target p) = balance p" for host target
    using assms by (auto simp: open_tunnel_def finish_tunnel_def relay_tunnel_def tunnel_error_def
        connect_payload_def Let_def split: option.splits)
  with assms show ?thesis
    by (auto simp: handle_connect_def deny_host_def connect_payload_def Let_def balance_handle_mitm
        split: option.splits)
qed

lemma balance_preflight:
  assumes "configured p"
  shows "balance (snd (preflight r p)) = balance p \<and> configured (snd (preflight r p))"
proof -
  have "balance (snd (check_counter r q)) = balance q \<and> configured (snd (check_counter r q))"
    "balance (snd (check_limiter r q)) = balance q \<and> configured (snd (check_limiter r q))"
    "balance (snd (check_budget r q)) = balance q \<and> configured (snd (check_budget r q))"
    if "configured q" for q :: "'a proxy"
    using that by (simp_all add: check_counter_def check_limiter_def check_budget_def deny_rate_or_count_def
        Let_def split: option.splits prod.splits)
  with assms show ?thesis by (simp add: preflight_def and_then_def split_beta)
qed

section \<open>The interface\<close>

text \<open>A handler that, on a configured proxy, counts the tokens it audits and no others.\<close>

locale bookkeeping_handler = egress_handler +
  assumes handle_balance: "configured p \<Longrightarrow> balance (handle c p) = balance p"
begin

lemma handle_configured: "configured p \<Longrightarrow> configured (handle c p)"
  using proxy_steps_same_config [OF handle_steps, of p c] by (simp add: same_config_def configured_def)

lemma run_balance: "configured p \<Longrightarrow> balance (run_calls handle cs p) = balance p"
proof (induction cs arbitrary: p)
  case (Cons c cs)
  with Cons.IH [OF handle_configured [OF Cons.prems]] handle_balance show ?case by (simp add: run_calls_def)
qed (simp add: run_calls_def)

lemma run_ledger:
  assumes "configured p" and "px_budget p = Some b"
  shows "\<exists>b'. px_budget (run_calls handle cs p) = Some b' \<and> tb_max b' = tb_max b \<and>
    tb_used b' = tb_used b + (ledger (audits (px_trace (run_calls handle cs p))) - ledger (audits (px_trace p)))"
  using run_balance [OF assms(1), of cs] assms(2)
  by (auto simp: balance_def algebra_simps split: option.splits)

end

interpretation lserver: bookkeeping_handler serve_http "\<lambda>c. unredirected (cl_mitm c)"
proof
  fix c :: call and p :: "'s proxy"
  assume "configured p"
  then show "balance (serve_http c p) = balance p"
    using balance_preflight [of p "cl_request c"]
    by (auto simp: serve_http_def dispatch_def balance_handle_connect balance_handle_http split: prod.splits)
qed

section \<open>Negative counts\<close>

text \<open>
  C31. Token counts are taken as they come, and a negative one gives tokens back: a response whose counts
  add up to less than zero, to a request that was let through before, reopens a budget that had
  been used up.
\<close>

theorem negative_usage_reopens:
  assumes "configured p" and "px_budget p = Some b" and "over_budget b" and "rq_url r = Some u"
    and "request_host r \<noteq> []" and "policy_allows (px_policy p) (request_host r)" and "ur_status resp < 400"
    and "ur_status resp \<noteq> 101" and "ur_read_error resp = None" and "ur_copy_ok resp"
    and "us = parse_response u (ur_body resp) (ur_headers resp)" and "us_recognised us"
    and "sint (us_in us + us_out us) < 0"
    and "int64_min \<le> sint (tb_used b) + sint (us_in us + us_out us)"
    and "sint (tb_used b) + sint (us_in us + us_out us) < sint (tb_max b)"
  shows "\<exists>b'. px_budget (handle_http r (Response resp) p) = Some b' \<and> tb_max b' = tb_max b \<and>
    sint (tb_used b') < sint (tb_used b) \<and> \<not> over_budget b'"
proof -
  let ?n = "us_in us + us_out us" and ?b = "snd (budget_add (us_in us + us_out us) b)"
  have "px_budget (handle_http r (Response resp) p) = Some ?b"
    using http_usage_accounted [OF assms(1,2,4-12)] by blast
  moreover have b: "tb_max ?b = tb_max b" "tb_used ?b = tb_used b + ?n" by (simp_all add: budget_add_def Let_def)
  moreover have "sint (tb_used b + ?n) = sint (tb_used b) + sint ?n"
  proof (rule sint_add_int64)
    show "int64_min \<le> sint (tb_used b) + sint ?n" by (rule assms(14))
    show "sint (tb_used b) + sint ?n \<le> int64_max" using assms(13) sint_int64_range(2) [of "tb_used b"] by simp
  qed
  ultimately show ?thesis using assms(13,15) by (intro exI [of _ ?b]) (simp add: over_budget_def)
qed

theorem negative_usage_reopens_witness:
  "over_budget \<lparr>tb_max = 5, tb_used = 7\<rparr> \<and>
   (\<exists>b'. px_budget (handle_http bedrock_request (Response (bedrock_response ''-9''))
      (bedrock_proxy \<lparr>tb_max = 5, tb_used = 7\<rparr>)) = Some b' \<and> \<not> over_budget b')"
proof -
  let ?b = "\<lparr>tb_max = 5, tb_used = 7\<rparr>"
  have over: "over_budget ?b" by (simp add: over_budget_def)
  have "show_int (- 9) = ''-9''" by (simp add: show_int_def show_nat.simps digit_def char_of_def bit_0)
  then have at: "atoi_value ''-9'' = - 9"
    using parse_int64_show [of "- 9"] by (simp add: atoi_value_def int64_min_def int64_max_def)
  from over show ?thesis
    using negative_usage_reopens [of "bedrock_proxy ?b" ?b bedrock_request bedrock_url "bedrock_response ''-9''",
        OF _ _ over _ _ _ _ _ _ _ refl bedrock_sample_usage(1) [OF refl]]
    by (auto simp: bedrock_sample_usage [OF refl] at int64_min_def)
qed

end
