(* ===== verification/Engine_Ledger.thy ===== *)
theory Engine_Ledger
  imports Engine_Run Proxy_Ledger
begin

text \<open>
  The token budget of a serving engine against its log: whoever adds up the tokens of the lines
  gets what the budget has counted.
\<close>

section \<open>The root handler\<close>

lemma root_balance: "configured p \<Longrightarrow> balance (root_handler c p) = balance p"
  by (cases rule: root_handler_cases [of c p]) (simp_all add: lserver.handle_balance)

interpretation lroot: bookkeeping_handler root_handler "\<lambda>c. unredirected (cl_mitm (ec_call c))"
  by unfold_locales (rule root_balance)

lemma ledger_stamped:
  "list_all2 (\<lambda>e e'. \<exists>prev h. e' = stamp e prev h) evs es \<Longrightarrow> ledger es = ledger evs"
  by (induction rule: list_all2_induct) (auto simp: ledger_def stamp_def)

text \<open>
  C34. The budget and the log agree: after any run of requests of a serving engine whose sink works,
  what the budget has used is the sum of the tokens that the lines of the log record, modulo 2^64,
  whatever paths the requests took and whatever failed. The lines are those of every event of the
  run, linked to the hash the sink started with, and the cap is the one configured.
\<close>

theorem budget_matches_log:
  assumes "run_engine io w args = Serving en" and "sink_works io"
    and "finite_limiter (px_limiter (en_proxy en))"
    and "open_sink w (fl_audit_file (en_flags en)) (fl_audit_stdout (en_flags en)) = Inr s0"
    and "px_budget (en_proxy en) = Some b"
  shows "\<exists>sv es b'. px_sink (run_calls root_handler cs (en_proxy en)) = Some sv \<and>
    sink_text (sv_state sv) = sink_text s0 @ log_text es \<and>
    linked compute_event_hash ev_event_hash (sink_tip s0) es \<and>
    length es = event_count (run_calls root_handler cs (en_proxy en)) \<and>
    px_budget (run_calls root_handler cs (en_proxy en)) = Some b' \<and> tb_max b' = tb_max b \<and>
    tb_used b' = ledger es"
proof -
  let ?q = "run_calls root_handler cs (en_proxy en)"
  obtain e0 where e0: "configured (en_proxy en)" "audits (px_trace (en_proxy en)) = [e0]"
    "ev_type e0 = type_engine_start" using started [OF assms(1)] .
  obtain sv es where sv: "px_sink ?q = Some sv" "sink_text (sv_state sv) = sink_text s0 @ log_text es"
    "linked compute_event_hash ev_event_hash (sink_tip s0) es"
    "list_all2 (\<lambda>e e'. \<exists>p h. e' = stamp e p h) (audits (px_trace ?q)) es"
    using es.steps_logged [OF assms(2) root.run_steps started_logged [OF assms(1-4)]]
    by (fastforce simp: all_logged_def logs_def)
  have start: "tb_used b = 0 \<and> ledger (audits (px_trace (en_proxy en))) = 0"
    using run_engine_serving [OF assms(1)] assms(5)
    by (cases rule: start_engine_elim) (auto simp: new_token_budget_def emit_engine_start_def configured_def)
  with lroot.run_ledger [OF e0(1) assms(5), of cs] ledger_stamped [OF sv(4)]
  obtain b' where "px_budget ?q = Some b'" "tb_max b' = tb_max b" "tb_used b' = ledger es" by auto
  moreover have "length es = event_count ?q" using list_all2_lengthD [OF sv(4)] by (simp add: event_count_def)
  ultimately show ?thesis using sv(1-3) by blast
qed

section \<open>Witnesses\<close>

definition ledger_flags :: flags where
  "ledger_flags = (default_flags (\<lambda>_. []))\<lparr>fl_allowlist := ''bedrock-runtime.x.amazonaws.com'', fl_max_tokens := ''100''\<rparr>"

definition ledger_engine :: engine where
  "ledger_engine = \<lparr>en_proxy = emit_engine_start engine_version (demo_start
     \<lparr>px_policy := Some \<lparr>pol_patterns = [''bedrock-runtime.x.amazonaws.com'']\<rparr>,
      px_budget := Some (new_token_budget 100)\<rparr>), en_flags = ledger_flags\<rparr>"

definition ledger_args :: "string list" where
  "ledger_args = [''-allowlist'', ''bedrock-runtime.x.amazonaws.com'', ''-max-tokens'', ''100'']"

definition ledger_call :: engine_call where
  "ledger_call = (demo_engine_call ''POST'' [] ''/model/m/converse'')
     \<lparr>ec_call := (demo_call ''POST'' [])\<lparr>cl_request := bedrock_request, cl_round_trip := Response (bedrock_response ''5'')\<rparr>\<rparr>"

lemma ledger_run: "run_engine demo_io demo_world ledger_args = Serving ledger_engine"
proof -
  have al: "parse_allowlist ''bedrock-runtime.x.amazonaws.com'' = [''bedrock-runtime.x.amazonaws.com'']"
    by (simp add: parse_allowlist_def trim_space_all_visible visible_def)
  have pol: "policy_new [''bedrock-runtime.x.amazonaws.com''] = Inr \<lparr>pol_patterns = [''bedrock-runtime.x.amazonaws.com'']\<rparr>"
    by (simp add: policy_new_ok wf_literal literal_def is_meta_def is_star_def)
  have "show_int 100 = ''100''" by (simp add: show_int_def show_nat.simps digit_def char_of_def bit_0)
  then have "parse_int64 ''100'' = Inr 100"
    using parse_int64_show [of 100] by (simp add: int64_min_def int64_max_def)
  then have cap: "parse_cap ''100'' = Inr (Some 100)"
    by (simp add: parse_cap_def trim_space_all_visible visible_def)
  have cap0: "parse_cap [] = Inr None" by (simp add: parse_cap_def)
  have "start_engine demo_io demo_world ledger_flags = Inr ledger_engine"
    by (simp add: start_engine_def al pol cap cap0 Let_def ledger_flags_def default_flags_def env_or_def demo_world_def
      open_sink_def new_session_def parse_rate_spec_def build_mitm_config_def ledger_engine_def demo_start_def)
  moreover have "flag_parse d ledger_args (default_flags (\<lambda>_. [])) = Inr (ledger_flags, [])" for d
    by (simp add: ledger_args_def ledger_flags_def bool_flags_def value_flags_def set_flag_def)
  moreover have "\<not> fl_version ledger_flags" by (simp add: ledger_flags_def default_flags_def)
  moreover have "wo_env demo_world = (\<lambda>_. [])" by (simp add: demo_world_def)
  ultimately show ?thesis by (simp add: run_engine_def)
qed

theorem budget_matches_log_witness:
  "\<exists>sv es. px_sink (root_handler ledger_call (en_proxy ledger_engine)) = Some sv \<and>
     sink_text (sv_state sv) = log_text es \<and> ledger es = 10 \<and> length es = 2"
proof -
  let ?p = "en_proxy ledger_engine" and ?q = "root_handler ledger_call (en_proxy ledger_engine)"
  have p: "configured ?p" "px_counter ?p = None" "px_limiter ?p = None" "px_budget ?p = Some (new_token_budget 100)"
    "policy_allows (px_policy ?p) ''bedrock-runtime.x.amazonaws.com''" "event_count ?p = 1"
    by (simp_all add: ledger_engine_def demo_start_def configured_def new_session_def event_count_def
      emit_engine_start_def policy_allows_def literal_matches literal_def is_meta_def is_star_def)
  have s: "open_sink demo_world (fl_audit_file (en_flags ledger_engine)) (fl_audit_stdout (en_flags ledger_engine))
      = Inr (StdoutSink new_stdout_sink)"
    by (simp add: open_sink_def ledger_engine_def ledger_flags_def default_flags_def)
  have "mux_route [''healthz'', ''readyz''] ''/model/m/converse'' = CatchAll"
    by (simp add: mux_route_def clean_path_def path_clean_def join_segments_def match_path_def path_unescape_def)
  then have "?q = serve_http (ec_call ledger_call) ?p"
    by (simp add: root_handler_def mux_serve_def ledger_call_def demo_engine_call_def)
  also have "\<dots> = handle_http bedrock_request (Response (bedrock_response ''5'')) ?p"
    using p by (simp add: serve_http_def preflight_def and_then_def check_counter_def check_limiter_def check_budget_def
      over_budget_def new_token_budget_def ledger_call_def dispatch_def bedrock_request_def method_connect_def)
  finally have q: "?q = handle_http bedrock_request (Response (bedrock_response ''5'')) ?p" .
  have "show_int 5 = ''5''" by (simp add: show_int_def show_nat.simps digit_def char_of_def bit_0)
  then have at: "atoi_value ''5'' = 5"
    using parse_int64_show [of 5] by (simp add: atoi_value_def int64_min_def int64_max_def)
  have u: "px_budget ?q = Some \<lparr>tb_max = 100, tb_used = 10\<rparr> \<and> event_count ?q = 2"
    unfolding q using p http_usage_accounted [of ?p _ bedrock_request bedrock_url "bedrock_response ''5''",
        OF _ _ _ _ _ _ _ _ _ refl bedrock_sample_usage(1) [OF refl]]
    by (auto simp: bedrock_sample_usage [OF refl] at budget_add_def new_token_budget_def event_count_def)
  have "px_limiter ?p = None" "sink_works demo_io" by (simp_all add: p sink_works_def demo_io_def)
  then show ?thesis
    using budget_matches_log [OF ledger_run _ _ s p(4), of "[ledger_call]"] u
    by (auto simp: run_calls_def new_stdout_sink_def)
qed

end
