(* ===== verification/Json_Patch.thy ===== *)
theory Json_Patch
  imports Json_Values
begin

text \<open>
  The meaning of the patches the webhook returns: JSON pointers (RFC 6901) and the \<open>add\<close>
  operation of JSON Patch (RFC 6902), which the API server applies to the pod.
\<close>

section \<open>Pointers\<close>

definition escape_char :: "char \<Rightarrow> string" where
  "escape_char c = (if c = CHR ''~'' then ''~0'' else if c = CHR ''/'' then ''~1'' else [c])"

definition escape_token :: "string \<Rightarrow> string" where
  "escape_token s = concat (map escape_char s)"

fun unescape_token :: "string \<Rightarrow> string" where
  "unescape_token (c # d # s) =
     (if c = CHR ''~'' \<and> d = CHR ''1'' then CHR ''/'' # unescape_token s
      else if c = CHR ''~'' \<and> d = CHR ''0'' then CHR ''~'' # unescape_token s
      else c # unescape_token (d # s))"
| "unescape_token s = s"

definition pointer_tokens :: "string \<Rightarrow> string list option" where
  "pointer_tokens p =
     (case p of
        [] \<Rightarrow> Some []
      | c # s \<Rightarrow> if c = CHR ''/'' then Some (map unescape_token (split_on (CHR ''/'') s)) else None)"

definition pointer_of :: "string list \<Rightarrow> string" where
  "pointer_of ts = concat (map (\<lambda>t. CHR ''/'' # escape_token t) ts)"

lemma unescape_plain: "c \<noteq> CHR ''~'' \<Longrightarrow> unescape_token (c # s) = c # unescape_token s"
  by (cases s) simp_all

lemma unescape_escape [simp]: "unescape_token (escape_token s) = s"
  by (induction s) (auto simp: escape_token_def escape_char_def unescape_plain)

lemma escape_no_slash: "CHR ''/'' \<notin> set (escape_token s)"
  by (auto simp: escape_token_def escape_char_def)

lemma escape_plain: "CHR ''/'' \<notin> set s \<Longrightarrow> CHR ''~'' \<notin> set s \<Longrightarrow> escape_token s = s"
  by (induction s) (auto simp: escape_token_def escape_char_def)

lemma split_pointer:
  "map unescape_token (split_on (CHR ''/'') (escape_token t @ pointer_of ts)) = t # ts"
proof (induction ts arbitrary: t)
  case Nil
  show ?case using split_on_single [OF escape_no_slash] by (simp add: pointer_of_def)
next
  case (Cons u ts)
  have "escape_token t @ pointer_of (u # ts) = escape_token t @ CHR ''/'' # (escape_token u @ pointer_of ts)"
    by (simp add: pointer_of_def)
  with Cons.IH [of u] show ?case by (simp add: split_on_append [OF escape_no_slash])
qed

lemma pointer_tokens_of [simp]: "pointer_tokens (pointer_of ts) = Some ts"
proof (cases ts)
  case (Cons t us)
  then have "pointer_of ts = CHR ''/'' # (escape_token t @ pointer_of us)" by (simp add: pointer_of_def)
  then show ?thesis using Cons split_pointer [of t us] by (simp add: pointer_tokens_def)
qed (simp add: pointer_of_def pointer_tokens_def)

section \<open>Locations in a document\<close>

text \<open>An array index has no leading zero.\<close>

definition array_index :: "string \<Rightarrow> nat option" where
  "array_index s =
     (if s = [] \<or> hd s = CHR ''0'' \<and> s \<noteq> ''0'' then None else read_digits 0 s)"

definition child :: "string \<Rightarrow> json \<Rightarrow> json option" where
  "child k d =
     (case d of
        JObj ms \<Rightarrow> map_of ms k
      | JArr xs \<Rightarrow> (case array_index k of Some i \<Rightarrow> if i < length xs then Some (xs ! i) else None | None \<Rightarrow> None)
      | _ \<Rightarrow> None)"

definition set_child :: "string \<Rightarrow> json \<Rightarrow> json \<Rightarrow> json" where
  "set_child k x d =
     (case d of
        JObj ms \<Rightarrow> JObj (map_set k x ms)
      | JArr xs \<Rightarrow> (case array_index k of Some i \<Rightarrow> JArr (xs[i := x]) | None \<Rightarrow> d)
      | _ \<Rightarrow> d)"

fun at_path :: "string list \<Rightarrow> json \<Rightarrow> json option" where
  "at_path [] d = Some d"
| "at_path (k # ks) d = (case child k d of None \<Rightarrow> None | Some c \<Rightarrow> at_path ks c)"

fun set_at :: "string list \<Rightarrow> json \<Rightarrow> json \<Rightarrow> json" where
  "set_at [] x d = x"
| "set_at (k # ks) x d = (case child k d of None \<Rightarrow> d | Some c \<Rightarrow> set_child k (set_at ks x c) d)"

section \<open>The add operation\<close>

definition insert_child :: "string \<Rightarrow> json \<Rightarrow> json \<Rightarrow> json option" where
  "insert_child k v d =
     (case d of
        JObj ms \<Rightarrow> Some (JObj (map_set k v ms))
      | JArr xs \<Rightarrow>
          if k = ''-'' then Some (JArr (xs @ [v]))
          else (case array_index k of
                  Some i \<Rightarrow> if i \<le> length xs then Some (JArr (take i xs @ v # drop i xs)) else None
                | None \<Rightarrow> None)
      | _ \<Rightarrow> None)"

fun add_at :: "string list \<Rightarrow> json \<Rightarrow> json \<Rightarrow> json option" where
  "add_at [] v d = Some v"
| "add_at (k # ks) v d =
     (if ks = [] then insert_child k v d
      else (case child k d of
              None \<Rightarrow> None
            | Some c \<Rightarrow> map_option (\<lambda>c'. set_child k c' d) (add_at ks v c)))"

definition apply_add :: "string \<times> json \<Rightarrow> json \<Rightarrow> json option" where
  "apply_add op d =
     (case pointer_tokens (fst op) of None \<Rightarrow> None | Some ts \<Rightarrow> add_at ts (snd op) d)"

text \<open>A patch is applied as a whole or not at all.\<close>

fun apply_patch :: "(string \<times> json) list \<Rightarrow> json \<Rightarrow> json option" where
  "apply_patch [] d = Some d"
| "apply_patch (op # ops) d = Option.bind (apply_add op d) (apply_patch ops)"

section \<open>Lemmas\<close>

lemma array_index_show [simp]: "array_index (show_nat n) = Some n"
proof -
  have "show_nat n = ''0''" if "hd (show_nat n) = CHR ''0''"
    using show_nat_hd_zero [of n] that by (auto simp: show_nat.simps [of 0] digit_def char_of_def bit_0)
  then show ?thesis by (auto simp: array_index_def read_show_nat)
qed

lemma map_set_twice [simp]: "map_set k y (map_set k x ms) = map_set k y ms"
  by (induction k x ms rule: map_set.induct) simp_all

lemma map_set_same: "map_of ms k = Some x \<Longrightarrow> map_set k x ms = ms"
  by (induction ms) (auto split: if_splits)

lemma child_set_child: "child k d = Some c \<Longrightarrow> child k (set_child k x d) = Some x"
  by (auto simp: child_def set_child_def split: json.splits option.splits if_splits)

lemma set_child_twice [simp]: "set_child k y (set_child k x d) = set_child k y d"
  by (auto simp: set_child_def split: json.splits option.splits)

lemma set_child_same: "child k d = Some x \<Longrightarrow> set_child k x d = d"
  by (auto simp: child_def set_child_def map_set_same split: json.splits option.splits if_splits)

lemma child_other_obj [simp]: "k \<noteq> k' \<Longrightarrow> child k' (JObj (map_set k x ms)) = child k' (JObj ms)"
  by (simp add: child_def)

text \<open>Reading back what was set, setting twice, and adding below a location.\<close>

lemma at_set_at [simp]: "at_path p d = Some c \<Longrightarrow> at_path p (set_at p x d) = Some x"
  by (induction p arbitrary: d) (auto simp: child_set_child split: option.splits)

lemma set_at_twice [simp]: "at_path p d = Some c \<Longrightarrow> set_at p y (set_at p x d) = set_at p y d"
  by (induction p arbitrary: d) (auto simp: child_set_child split: option.splits)

lemma set_at_same: "at_path p d = Some x \<Longrightarrow> set_at p x d = d"
  by (induction p arbitrary: d) (auto simp: set_child_same split: option.splits)

lemma at_path_append: "at_path (p @ q) d = Option.bind (at_path p d) (at_path q)"
  by (induction p arbitrary: d) (auto split: option.splits)

lemma set_at_append:
  "at_path p d = Some c \<Longrightarrow> set_at (p @ q) x d = set_at p (set_at q x c) d"
  by (induction p arbitrary: d) (auto split: option.splits)

lemma add_below:
  "at_path p d = Some c \<Longrightarrow> ks \<noteq> [] \<Longrightarrow>
   add_at (p @ ks) v d = map_option (\<lambda>c'. set_at p c' d) (add_at ks v c)"
proof (induction p arbitrary: d)
  case Nil
  then show ?case by (simp add: option.map_ident)
next
  case (Cons k p)
  then show ?case by (auto simp: option.map_comp comp_def split: option.splits)
qed

text \<open>What lies under another member of the document is untouched.\<close>

lemma set_at_other:
  assumes "k \<noteq> k'" and "d = JObj ms"
  shows "at_path (k' # q) (set_at (k # p) x d) = at_path (k' # q) d"
  using assms by (auto simp: set_child_def split: option.splits)

lemma set_at_obj: "d = JObj ms \<Longrightarrow> \<exists>ms'. set_at (k # p) x d = JObj ms'"
  by (auto simp: set_child_def split: option.splits)

lemma apply_patch_append:
  "apply_patch (ops @ ops') d = Option.bind (apply_patch ops d) (apply_patch ops')"
  by (induction ops arbitrary: d) (auto split: Option.bind_splits)

lemma apply_add_pointer: "apply_add (pointer_of ts, v) d = add_at ts v d"
  by (simp add: apply_add_def)

end
