(* ===== verification/Webhook.thy ===== *)
theory Webhook
  imports Json_Patch
begin

text \<open>
  \<open>internal/webhook/mutator.go\<close>: the configuration, the shape of a pod the mutator reads, the
  sidecar container and the patch. Struct values are marshalled in the order of their fields with
  \<open>omitempty\<close> as declared, maps with sorted keys.
\<close>

section \<open>Names and configuration\<close>

definition engine_container_name :: string where
  "engine_container_name = ''aegrail-engine''"

definition label_identity :: string where
  "label_identity = ''aegrail.io/identity''"

record config =
  cf_image :: string
  cf_allowlist :: string
  cf_audit_mode :: string
  cf_audit_file :: string
  cf_max_requests :: string
  cf_rate_limit :: string
  cf_max_tokens :: string
  cf_default_identity :: string
  cf_engine_listen_port :: int64
  cf_mitm_ca_secret_name :: string
  cf_mitm_ca_cert_key :: string
  cf_mitm_ca_key_key :: string
  cf_mitm_ca_mount_dir :: string
  cf_mitm_hosts :: string

definition engine_listen_port :: "config \<Rightarrow> int64" where
  "engine_listen_port cfg =
     (if 0 < sint (cf_engine_listen_port cfg) then cf_engine_listen_port cfg else 8080)"

definition mitm_ca_cert_key :: "config \<Rightarrow> string" where
  "mitm_ca_cert_key cfg =
     (if cf_mitm_ca_cert_key cfg \<noteq> [] then cf_mitm_ca_cert_key cfg else ''tls.crt'')"

definition mitm_ca_key_key :: "config \<Rightarrow> string" where
  "mitm_ca_key_key cfg =
     (if cf_mitm_ca_key_key cfg \<noteq> [] then cf_mitm_ca_key_key cfg else ''tls.key'')"

definition mitm_ca_mount_dir :: "config \<Rightarrow> string" where
  "mitm_ca_mount_dir cfg =
     (if cf_mitm_ca_mount_dir cfg \<noteq> [] then cf_mitm_ca_mount_dir cfg else ''/etc/aegrail/mitm-ca'')"

definition mitm_ca_cert_path :: "config \<Rightarrow> string" where
  "mitm_ca_cert_path cfg = mitm_ca_mount_dir cfg @ ''/'' @ mitm_ca_cert_key cfg"

definition mitm_ca_key_path :: "config \<Rightarrow> string" where
  "mitm_ca_key_path cfg = mitm_ca_mount_dir cfg @ ''/'' @ mitm_ca_key_key cfg"

section \<open>Patch values\<close>

text \<open>A nil map or slice and an empty one are marshalled alike here: both are omitted.\<close>

record env_var =
  en_name :: string
  en_value :: string
  en_value_from :: gmap

record container =
  co_name :: string
  co_image :: string
  co_pull_policy :: string
  co_env :: "env_var list"
  co_ports :: "gmap list"
  co_liveness :: gmap
  co_readiness :: gmap
  co_resources :: gmap
  co_security :: gmap
  co_mounts :: "gmap list"

datatype patch_value =
    PvText string
  | PvMap gmap
  | PvEnvs "env_var list"
  | PvEnv env_var
  | PvContainer container

record patch_op =
  po_op :: string
  po_path :: string
  po_value :: patch_value

text \<open>Members that are left out when empty.\<close>

type_synonym members = "(string \<times> json) list"

definition omit_text :: "string \<Rightarrow> string \<Rightarrow> members" where
  "omit_text k s = (if s = [] then [] else [(k, JStr s)])"

definition omit_map :: "string \<Rightarrow> gmap \<Rightarrow> (json_error, members) result" where
  "omit_map k m = (if m = [] then Inr [] else rbind (to_json (GMap m)) (\<lambda>j. Inr [(k, j)]))"

definition omit_list :: "('a \<Rightarrow> (json_error, json) result) \<Rightarrow> string \<Rightarrow> 'a list \<Rightarrow> (json_error, members) result" where
  "omit_list f k xs = (if xs = [] then Inr [] else rbind (rmap f xs) (\<lambda>js. Inr [(k, JArr js)]))"

definition env_var_tree :: "env_var \<Rightarrow> (json_error, json) result" where
  "env_var_tree e =
     rbind (omit_map ''valueFrom'' (en_value_from e)) (\<lambda>vf.
       Inr (JObj ([(''name'', JStr (en_name e))] @ omit_text ''value'' (en_value e) @ vf)))"

definition container_tree :: "container \<Rightarrow> (json_error, json) result" where
  "container_tree c =
     rbind (omit_list env_var_tree ''env'' (co_env c)) (\<lambda>env.
     rbind (omit_list (\<lambda>m. to_json (GMap m)) ''ports'' (co_ports c)) (\<lambda>ports.
     rbind (omit_map ''livenessProbe'' (co_liveness c)) (\<lambda>live.
     rbind (omit_map ''readinessProbe'' (co_readiness c)) (\<lambda>ready.
     rbind (omit_map ''resources'' (co_resources c)) (\<lambda>res.
     rbind (omit_map ''securityContext'' (co_security c)) (\<lambda>sec.
     rbind (omit_list (\<lambda>m. to_json (GMap m)) ''volumeMounts'' (co_mounts c)) (\<lambda>mounts.
       Inr (JObj ([(''name'', JStr (co_name c)), (''image'', JStr (co_image c))] @
         omit_text ''imagePullPolicy'' (co_pull_policy c) @ env @ ports @ live @ ready @ res @ sec @ mounts)))))))))"

definition value_tree :: "patch_value \<Rightarrow> (json_error, json) result" where
  "value_tree v =
     (case v of
        PvText s \<Rightarrow> Inr (JStr s)
      | PvMap m \<Rightarrow> to_json (GMap m)
      | PvEnvs es \<Rightarrow> rbind (rmap env_var_tree es) (\<lambda>js. Inr (JArr js))
      | PvEnv e \<Rightarrow> env_var_tree e
      | PvContainer c \<Rightarrow> container_tree c)"

definition patch_op_tree :: "patch_op \<Rightarrow> (json_error, json) result" where
  "patch_op_tree p =
     rbind (value_tree (po_value p)) (\<lambda>v.
       Inr (JObj [(''op'', JStr (po_op p)), (''path'', JStr (po_path p)), (''value'', v)]))"

section \<open>The pod\<close>

record pod_container =
  pc_name :: string
  pc_env :: "members list"

record pod_like =
  pl_name :: string
  pl_namespace :: string
  pl_labels :: "(string \<times> string) list option"
  pl_containers :: "pod_container list"

definition already_injected :: "pod_like \<Rightarrow> bool" where
  "already_injected p \<longleftrightarrow> list_ex (\<lambda>c. pc_name c = engine_container_name) (pl_containers p)"

definition json_pointer_label :: "string \<Rightarrow> string" where
  "json_pointer_label key = ''/metadata/labels/'' @ concat (map escape_char key)"

section \<open>The sidecar\<close>

definition env_text :: "string \<Rightarrow> string \<Rightarrow> env_var" where
  "env_text name v = \<lparr>en_name = name, en_value = v, en_value_from = []\<rparr>"

definition engine_env :: "config \<Rightarrow> env_var list" where
  "engine_env cfg =
     [env_text ''AEGRAIL_ENGINE_ALLOWLIST'' (cf_allowlist cfg),
      \<lparr>en_name = ''AEGRAIL_ENGINE_AGENT_IDENTITY'', en_value = [],
       en_value_from = [(''fieldRef'', GMap [(''fieldPath'',
         GStr (''metadata.labels['' @ [CHR 0x27] @ label_identity @ [CHR 0x27] @ '']''))])]\<rparr>,
      env_text ''AEGRAIL_ENGINE_LISTEN'' (CHR '':'' # show_int (sint (engine_listen_port cfg)))] @
     (if cf_audit_mode cfg = ''file''
      then [env_text ''AEGRAIL_ENGINE_AUDIT_FILE'' (cf_audit_file cfg)]
      else [env_text ''AEGRAIL_ENGINE_AUDIT_STDOUT'' ''1'']) @
     (if cf_max_requests cfg \<noteq> [] then [env_text ''AEGRAIL_ENGINE_MAX_REQUESTS'' (cf_max_requests cfg)] else []) @
     (if cf_rate_limit cfg \<noteq> [] then [env_text ''AEGRAIL_ENGINE_RATE_LIMIT'' (cf_rate_limit cfg)] else []) @
     (if cf_max_tokens cfg \<noteq> [] then [env_text ''AEGRAIL_ENGINE_MAX_TOKENS'' (cf_max_tokens cfg)] else []) @
     (if cf_mitm_ca_secret_name cfg \<noteq> []
      then [env_text ''AEGRAIL_ENGINE_MITM_HOSTS'' (cf_mitm_hosts cfg),
            env_text ''AEGRAIL_ENGINE_MITM_CA_CERT_FILE'' (mitm_ca_cert_path cfg),
            env_text ''AEGRAIL_ENGINE_MITM_CA_KEY_FILE'' (mitm_ca_key_path cfg)]
      else [])"

definition ca_mount :: "string \<Rightarrow> gmap" where
  "ca_mount dir = [(''name'', GStr ''aegrail-mitm-ca''), (''mountPath'', GStr dir), (''readOnly'', GBool True)]"

definition http_probe :: "string \<Rightarrow> int64 \<Rightarrow> int64 \<Rightarrow> gmap" where
  "http_probe path delay period =
     [(''httpGet'', GMap [(''path'', GStr path), (''port'', GStr ''proxy'')]),
      (''initialDelaySeconds'', GInt delay), (''periodSeconds'', GInt period)]"

definition build_engine_container :: "config \<Rightarrow> container" where
  "build_engine_container cfg =
     \<lparr>co_name = engine_container_name, co_image = cf_image cfg, co_pull_policy = ''IfNotPresent'',
      co_env = engine_env cfg,
      co_ports = [[(''name'', GStr ''proxy''), (''containerPort'', GInt (engine_listen_port cfg)),
                   (''protocol'', GStr ''TCP'')]],
      co_liveness = http_probe ''/healthz'' 2 10,
      co_readiness = http_probe ''/readyz'' 1 5,
      co_resources =
        [(''requests'', GMap [(''cpu'', GStr ''50m''), (''memory'', GStr ''32Mi'')]),
         (''limits'', GMap [(''cpu'', GStr ''200m''), (''memory'', GStr ''128Mi'')])],
      co_security =
        [(''runAsNonRoot'', GBool True), (''runAsUser'', GInt 65532),
         (''allowPrivilegeEscalation'', GBool False), (''readOnlyRootFilesystem'', GBool True),
         (''capabilities'', GMap [(''drop'', GList [GStr ''ALL''])])],
      co_mounts = (if cf_mitm_ca_secret_name cfg \<noteq> [] then [ca_mount (mitm_ca_mount_dir cfg)] else [])\<rparr>"

section \<open>The patch\<close>

definition add_op :: "string \<Rightarrow> patch_value \<Rightarrow> patch_op" where
  "add_op path v = \<lparr>po_op = ''add'', po_path = path, po_value = v\<rparr>"

definition mitm_ca_volume_mount_op :: "string \<Rightarrow> string \<Rightarrow> patch_op" where
  "mitm_ca_volume_mount_op container_path mount_dir =
     add_op (container_path @ ''/volumeMounts/-'') (PvMap (ca_mount mount_dir))"

definition mitm_ca_volume_op :: "config \<Rightarrow> patch_op" where
  "mitm_ca_volume_op cfg =
     add_op ''/spec/volumes/-''
       (PvMap [(''name'', GStr ''aegrail-mitm-ca''),
               (''secret'', GMap [(''secretName'', GStr (cf_mitm_ca_secret_name cfg)),
                 (''items'', GList [
                    GMap [(''key'', GStr (mitm_ca_cert_key cfg)), (''path'', GStr (mitm_ca_cert_key cfg))],
                    GMap [(''key'', GStr (mitm_ca_key_key cfg)), (''path'', GStr (mitm_ca_key_key cfg))]])])])"

definition label_ops :: "pod_like \<Rightarrow> config \<Rightarrow> patch_op list" where
  "label_ops pod cfg =
     (case pl_labels pod of
        None \<Rightarrow> [add_op ''/metadata/labels'' (PvMap [(label_identity, GStr (cf_default_identity cfg))])]
      | Some ls \<Rightarrow>
          if map_of ls label_identity = None
          then [add_op (json_pointer_label label_identity) (PvText (cf_default_identity cfg))]
          else [])"

definition proxy_env :: "config \<Rightarrow> env_var list" where
  "proxy_env cfg =
     (let proxy_url = ''http://localhost:'' @ show_int (sint (engine_listen_port cfg));
          ca_cert_path = mitm_ca_cert_path cfg in
      [env_text ''HTTP_PROXY'' proxy_url, env_text ''HTTPS_PROXY'' proxy_url,
       env_text ''NO_PROXY'' ''localhost,127.0.0.1,.svc,.cluster.local''] @
      (if cf_mitm_ca_secret_name cfg \<noteq> []
       then [env_text ''SSL_CERT_FILE'' ca_cert_path, env_text ''REQUESTS_CA_BUNDLE'' ca_cert_path,
             env_text ''NODE_EXTRA_CA_CERTS'' ca_cert_path]
       else []))"

definition container_path :: "nat \<Rightarrow> string" where
  "container_path idx = ''/spec/containers/'' @ show_nat idx"

definition container_ops :: "config \<Rightarrow> nat \<Rightarrow> pod_container \<Rightarrow> patch_op list" where
  "container_ops cfg idx c =
     (if pc_env c = [] then [add_op (container_path idx @ ''/env'') (PvEnvs (proxy_env cfg))]
      else map (\<lambda>ev. add_op (container_path idx @ ''/env/-'') (PvEnv ev)) (proxy_env cfg)) @
     (if cf_mitm_ca_secret_name cfg \<noteq> []
      then [mitm_ca_volume_mount_op (container_path idx) (mitm_ca_mount_dir cfg)] else [])"

fun containers_ops :: "config \<Rightarrow> nat \<Rightarrow> pod_container list \<Rightarrow> patch_op list" where
  "containers_ops cfg idx [] = []"
| "containers_ops cfg idx (c # cs) = container_ops cfg idx c @ containers_ops cfg (Suc idx) cs"

definition build_ops :: "pod_like \<Rightarrow> config \<Rightarrow> patch_op list" where
  "build_ops pod cfg =
     label_ops pod cfg @ containers_ops cfg 0 (pl_containers pod) @
     (if cf_mitm_ca_secret_name cfg \<noteq> [] then [mitm_ca_volume_op cfg] else []) @
     [add_op ''/spec/containers/-'' (PvContainer (build_engine_container cfg))]"

text \<open>The patch is absent (nil) when the sidecar is already there.\<close>

definition build_patch :: "pod_like \<Rightarrow> config \<Rightarrow> (json_error, string option) result" where
  "build_patch pod cfg =
     (if already_injected pod then Inr None
      else rbind (rmap patch_op_tree (build_ops pod cfg)) (\<lambda>js. Inr (Some (encode True (JArr js)))))"

end
