(* ===== verification/Webhook_Patch.thy ===== *)
theory Webhook_Patch
  imports Webhook
begin

text \<open>
  What the webhook's patch does to a pod: the patch is applied to the pod's document by the RFC
  6902 semantics of \<open>Json_Patch\<close> and the result compared with a direct description of an injected
  pod.
\<close>

section \<open>Patches as token paths\<close>

fun add_all :: "(string list \<times> json) list \<Rightarrow> json \<Rightarrow> json option" where
  "add_all [] d = Some d"
| "add_all ((ks, v) # ops) d = Option.bind (add_at ks v d) (add_all ops)"

lemma add_all_append: "add_all (ops @ ops') d = Option.bind (add_all ops d) (add_all ops')"
  by (induction ops d rule: add_all.induct) (auto split: Option.bind_splits)

lemma apply_patch_add_all:
  "list_all2 (\<lambda>op (ks, v). op = (pointer_of ks, v)) ops tops \<Longrightarrow> apply_patch ops d = add_all tops d"
proof (induction arbitrary: d rule: list_all2_induct)
  case (Cons op ops t tops)
  obtain ks v where t: "t = (ks, v)" by (cases t)
  with Cons.hyps have "op = (pointer_of ks, v)" by simp
  then have "apply_add op d = add_at ks v d" by (simp add: apply_add_pointer)
  then show ?case by (cases "add_at ks v d") (simp_all add: t Cons.IH)
qed simp

text \<open>Operations below one location act on what is there.\<close>

definition below :: "string list \<Rightarrow> (string list \<times> json) list \<Rightarrow> (string list \<times> json) list" where
  "below p ops = map (\<lambda>(ks, v). (p @ ks, v)) ops"

lemma add_all_below:
  "at_path p d = Some c \<Longrightarrow> \<forall>(ks, v) \<in> set ops. ks \<noteq> [] \<Longrightarrow>
   add_all (below p ops) d = map_option (\<lambda>c'. set_at p c' d) (add_all ops c)"
proof (induction ops arbitrary: c d)
  case Nil
  then show ?case by (simp add: below_def set_at_same)
next
  case (Cons op ops)
  obtain ks v where op: "op = (ks, v)" by (cases op)
  with Cons.prems have ks: "ks \<noteq> []" and ops: "\<forall>(ks, v) \<in> set ops. ks \<noteq> []" by auto
  have b: "below p ((ks, v) # ops) = (p @ ks, v) # below p ops" by (simp add: below_def)
  show ?case
  proof (cases "add_at ks v c")
    case None
    then show ?thesis using add_below [OF Cons.prems(1) ks, of v] by (simp add: op b)
  next
    case (Some c')
    have "add_all (below p ops) (set_at p c' d) = map_option (\<lambda>c''. set_at p c'' (set_at p c' d)) (add_all ops c')"
      using Cons.IH [OF _ ops, of "set_at p c' d" c'] Cons.prems(1) by simp
    moreover have "set_at p c'' (set_at p c' d) = set_at p c'' d" for c''
      by (rule set_at_twice [OF Cons.prems(1)])
    ultimately show ?thesis using add_below [OF Cons.prems(1) ks, of v] by (simp add: op b Some)
  qed
qed

lemma below_append: "below p (ops @ ops') = below p ops @ below p ops'"
  by (simp add: below_def)

text \<open>Appending values one by one to an array member.\<close>

definition append_to :: "string \<Rightarrow> json list \<Rightarrow> json \<Rightarrow> json" where
  "append_to k vs c =
     (case c of
        JObj ms \<Rightarrow> JObj (map_set k (JArr ((case map_of ms k of Some (JArr es) \<Rightarrow> es | _ \<Rightarrow> []) @ vs)) ms)
      | _ \<Rightarrow> c)"

lemma add_dash: "map_of ms k = Some (JArr es) \<Longrightarrow>
    add_at [k, ''-''] v (JObj ms) = Some (JObj (map_set k (JArr (es @ [v])) ms))"
  by (simp add: insert_child_def child_def set_child_def)

lemma add_all_dash:
  "map_of ms k = Some (JArr es) \<Longrightarrow>
   add_all (map (\<lambda>v. ([k, ''-''], v)) vs) (JObj ms) = Some (append_to k vs (JObj ms))"
proof (induction vs arbitrary: ms es)
  case Nil
  then show ?case by (simp add: append_to_def map_set_same)
next
  case (Cons v vs)
  let ?ms = "map_set k (JArr (es @ [v])) ms"
  have "add_all (map (\<lambda>v. ([k, ''-''], v)) vs) (JObj ?ms) = Some (append_to k vs (JObj ?ms))"
    by (rule Cons.IH) simp
  with Cons.prems show ?case by (simp add: add_dash append_to_def del: add_at.simps)
qed

lemma add_dash_missing: "map_of ms k = None \<Longrightarrow> add_at [k, ''-''] v (JObj ms) = None"
  by (simp add: child_def)

section \<open>Marshalling succeeds\<close>

fun float_free :: "gval \<Rightarrow> bool" where
  "float_free (GFloat f) = False"
| "float_free (GList vs) = (\<forall>v \<in> set vs. float_free v)"
| "float_free (GMap m) = (\<forall>kv \<in> set m. float_free (snd kv))"
| "float_free _ = True"

lemma rmap_total: "\<forall>x \<in> set xs. \<exists>y. f x = Inr y \<Longrightarrow> \<exists>ys. rmap f xs = Inr ys"
  by (induction xs) auto

lemma float_free_json: "float_free v \<Longrightarrow> \<exists>j. to_json v = Inr j"
proof (induction v rule: to_json.induct)
  case (6 vs)
  then have "\<exists>js. rmap to_json vs = Inr js" by (intro rmap_total) simp
  then show ?case by auto
next
  case (7 m)
  have "\<exists>ms. rmap (\<lambda>(k, v). rbind (to_json v) (\<lambda>j. Inr (k, j))) m = Inr ms"
  proof (rule rmap_total, rule ballI)
    fix kv
    assume kv: "kv \<in> set m"
    obtain k v where e: "kv = (k, v)" by (cases kv)
    with 7(1) [OF kv e [symmetric]] 7(2) kv have "\<exists>j. to_json v = Inr j" by auto
    then show "\<exists>y. (case kv of (k, v) \<Rightarrow> rbind (to_json v) (\<lambda>j. Inr (k, j))) = Inr y" by (auto simp: e)
  qed
  then show ?case by auto
qed auto

definition tree_of :: "(json_error, json) result \<Rightarrow> json" where
  "tree_of r = (case r of Inr j \<Rightarrow> j | Inl _ \<Rightarrow> JNull)"

definition float_free_env :: "env_var \<Rightarrow> bool" where
  "float_free_env e \<longleftrightarrow> float_free (GMap (en_value_from e))"

lemma omit_map_total: "float_free (GMap m) \<Longrightarrow> \<exists>ms. omit_map k m = Inr ms"
  using float_free_json [of "GMap m"] by (auto simp: omit_map_def simp del: to_json.simps)

lemma omit_list_total: "\<forall>x \<in> set xs. \<exists>y. f x = Inr y \<Longrightarrow> \<exists>ms. omit_list f k xs = Inr ms"
  using rmap_total [of xs f] by (auto simp: omit_list_def)

lemma env_var_total: "float_free_env e \<Longrightarrow> \<exists>j. env_var_tree e = Inr j"
  using omit_map_total [of "en_value_from e" "''valueFrom''"]
  by (auto simp: env_var_tree_def float_free_env_def)

lemma env_text_float_free [simp]: "float_free_env (env_text n v)"
  by (simp add: float_free_env_def env_text_def)

lemma engine_env_float_free: "e \<in> set (engine_env cfg) \<Longrightarrow> float_free_env e"
  by (auto simp: engine_env_def float_free_env_def env_text_def split: if_splits)

lemma proxy_env_float_free: "e \<in> set (proxy_env cfg) \<Longrightarrow> float_free_env e"
  by (auto simp: proxy_env_def Let_def split: if_splits)

lemma container_total: "\<exists>js ms. container_tree (build_engine_container cfg) =
    Inr (JObj ((''name'', JStr engine_container_name) # (''image'', JStr (cf_image cfg)) #
      (''imagePullPolicy'', JStr ''IfNotPresent'') # (''env'', JArr js) # ms)) \<and>
    length js = length (engine_env cfg)"
proof -
  let ?c = "build_engine_container cfg"
  obtain js where js: "rmap env_var_tree (engine_env cfg) = Inr js"
    using rmap_total [of "engine_env cfg" env_var_tree] engine_env_float_free env_var_total by blast
  moreover have "engine_env cfg \<noteq> []" by (simp add: engine_env_def)
  ultimately have a: "omit_list env_var_tree ''env'' (co_env ?c) = Inr [(''env'', JArr js)]"
    by (simp add: omit_list_def build_engine_container_def)
  have len: "length js = length (engine_env cfg)"
    using js by (simp add: rmap_Inr_iff list_all2_lengthD)
  have p: "\<exists>y. to_json (GMap m) = Inr y" if "m \<in> set (co_ports ?c) \<union> set (co_mounts ?c)" for m
    by (rule float_free_json) (use that in \<open>auto simp: build_engine_container_def ca_mount_def split: if_splits\<close>)
  obtain b where b: "omit_list (\<lambda>m. to_json (GMap m)) ''ports'' (co_ports ?c) = Inr b"
    using omit_list_total [of "co_ports ?c" "\<lambda>m. to_json (GMap m)"] p by (metis UnI1)
  obtain h where h: "omit_list (\<lambda>m. to_json (GMap m)) ''volumeMounts'' (co_mounts ?c) = Inr h"
    using omit_list_total [of "co_mounts ?c" "\<lambda>m. to_json (GMap m)"] p by (metis UnI2)
  have m: "float_free (GMap (co_liveness ?c))" "float_free (GMap (co_readiness ?c))"
    "float_free (GMap (co_resources ?c))" "float_free (GMap (co_security ?c))"
    by (simp_all add: build_engine_container_def http_probe_def)
  obtain c d e f where "omit_map ''livenessProbe'' (co_liveness ?c) = Inr c"
    "omit_map ''readinessProbe'' (co_readiness ?c) = Inr d" "omit_map ''resources'' (co_resources ?c) = Inr e"
    "omit_map ''securityContext'' (co_security ?c) = Inr f"
    using m [THEN omit_map_total] by meson
  with a b h len show ?thesis
    by (simp add: container_tree_def) (simp add: build_engine_container_def omit_text_def)
qed

definition treeable :: "patch_value \<Rightarrow> bool" where
  "treeable v \<longleftrightarrow> (\<exists>j. value_tree v = Inr j)"

lemma treeable_map: "float_free (GMap m) \<Longrightarrow> treeable (PvMap m)"
  using float_free_json [of "GMap m"] by (simp add: treeable_def value_tree_def del: to_json.simps)

lemma treeable_simps [simp]:
  "treeable (PvText s)" "treeable (PvContainer (build_engine_container cfg))"
  "treeable (PvEnvs (proxy_env cfg))" "e \<in> set (proxy_env cfg) \<Longrightarrow> treeable (PvEnv e)"
  "treeable (PvMap (ca_mount dir))" "treeable (PvMap [(k, GStr s)])"
  using container_total [of cfg] rmap_total [of "proxy_env cfg" env_var_tree] proxy_env_float_free
    env_var_total
  by (auto simp: treeable_map ca_mount_def) (auto simp: treeable_def value_tree_def)

lemma treeable_volume [simp]: "treeable (po_value (mitm_ca_volume_op cfg))"
  by (simp add: mitm_ca_volume_op_def add_op_def treeable_map)

lemma containers_treeable: "op \<in> set (containers_ops cfg i cs) \<Longrightarrow> treeable (po_value op)"
  by (induction cs arbitrary: i)
    (auto simp: container_ops_def add_op_def mitm_ca_volume_mount_op_def split: if_splits)

lemma value_tree_total: "op \<in> set (build_ops pod cfg) \<Longrightarrow> treeable (po_value op)"
  by (auto simp: build_ops_def containers_treeable label_ops_def add_op_def split: option.splits if_splits)

text \<open>The path and the value of an operation as the API server reads them.\<close>

definition op_pair :: "patch_op \<Rightarrow> string \<times> json" where
  "op_pair op = (po_path op, tree_of (value_tree (po_value op)))"

definition op_tree :: "patch_op \<Rightarrow> json" where
  "op_tree op = JObj [(''op'', JStr (po_op op)), (''path'', JStr (fst (op_pair op))), (''value'', snd (op_pair op))]"

lemma marshal_ops:
  "\<forall>op \<in> set ops. treeable (po_value op) \<Longrightarrow> rmap patch_op_tree ops = Inr (map op_tree ops)"
  by (induction ops) (auto simp: treeable_def patch_op_tree_def op_tree_def op_pair_def tree_of_def)

section \<open>Reading a pod\<close>

text \<open>When a decoded pod is what a document says.\<close>

definition container_view :: "json \<Rightarrow> pod_container \<Rightarrow> bool" where
  "container_view c pc \<longleftrightarrow>
     (\<exists>ms. c = JObj ms \<and> map_of ms ''name'' = Some (JStr (pc_name pc)) \<and>
        (case map_of ms ''env'' of
           None \<Rightarrow> pc_env pc = []
         | Some JNull \<Rightarrow> pc_env pc = []
         | Some (JArr es) \<Rightarrow> length es = length (pc_env pc)
         | Some _ \<Rightarrow> False))"

definition labels_view :: "json \<Rightarrow> (string \<times> string) list option \<Rightarrow> bool" where
  "labels_view md labels \<longleftrightarrow>
     (\<exists>mm. md = JObj mm \<and>
        (case map_of mm ''labels'' of
           None \<Rightarrow> labels = None
         | Some JNull \<Rightarrow> labels = None
         | Some (JObj ls) \<Rightarrow>
             labels \<noteq> None \<and> (\<forall>k. map_of ls k = map_option JStr (map_of (the labels) k))
         | Some _ \<Rightarrow> False))"

definition containers_path :: "string list" where
  "containers_path = [''spec'', ''containers'']"

definition pod_view :: "json \<Rightarrow> pod_like \<Rightarrow> bool" where
  "pod_view d pod \<longleftrightarrow>
     (\<exists>tp cs md. d = JObj tp \<and> at_path containers_path d = Some (JArr cs) \<and>
        list_all2 container_view cs (pl_containers pod) \<and>
        map_of tp ''metadata'' = Some md \<and> labels_view md (pl_labels pod))"

section \<open>The injected pod\<close>

definition env_trees :: "config \<Rightarrow> json list" where
  "env_trees cfg = map (\<lambda>e. tree_of (env_var_tree e)) (proxy_env cfg)"

definition mount_tree :: "config \<Rightarrow> json" where
  "mount_tree cfg = tree_of (to_json (GMap (ca_mount (mitm_ca_mount_dir cfg))))"

definition engine_tree :: "config \<Rightarrow> json" where
  "engine_tree cfg = tree_of (container_tree (build_engine_container cfg))"

definition inject :: "config \<Rightarrow> json \<Rightarrow> json" where
  "inject cfg c =
     (if cf_mitm_ca_secret_name cfg \<noteq> [] then append_to ''volumeMounts'' [mount_tree cfg] else (\<lambda>c. c))
       (append_to ''env'' (env_trees cfg) c)"

definition mountable :: "config \<Rightarrow> json \<Rightarrow> bool" where
  "mountable cfg c \<longleftrightarrow> cf_mitm_ca_secret_name cfg = [] \<or> (\<exists>es. child ''volumeMounts'' c = Some (JArr es))"

text \<open>The operations on one container, as paths below it.\<close>

definition container_rel :: "config \<Rightarrow> pod_container \<Rightarrow> (string list \<times> json) list" where
  "container_rel cfg pc =
     (if pc_env pc = [] then [([''env''], JArr (env_trees cfg))]
      else map (\<lambda>v. ([''env'', ''-''], v)) (env_trees cfg)) @
     (if cf_mitm_ca_secret_name cfg \<noteq> [] then [([''volumeMounts'', ''-''], mount_tree cfg)] else [])"

lemma container_pointer:
  "container_path i @ ''/env'' = pointer_of (containers_path @ [show_nat i, ''env''])"
  "container_path i @ ''/env/-'' = pointer_of (containers_path @ [show_nat i, ''env'', ''-''])"
  "container_path i @ ''/volumeMounts/-'' = pointer_of (containers_path @ [show_nat i, ''volumeMounts'', ''-''])"
proof -
  have "CHR ''/'' \<notin> set (show_nat i)" "CHR ''~'' \<notin> set (show_nat i)"
    using show_nat_digits [of "CHR ''/''" i] show_nat_digits [of "CHR ''~''" i]
    by (auto simp: is_digit_def)
  then have "escape_token (show_nat i) = show_nat i" by (rule escape_plain)
  then show "container_path i @ ''/env'' = pointer_of (containers_path @ [show_nat i, ''env''])"
    "container_path i @ ''/env/-'' = pointer_of (containers_path @ [show_nat i, ''env'', ''-''])"
    "container_path i @ ''/volumeMounts/-'' = pointer_of (containers_path @ [show_nat i, ''volumeMounts'', ''-''])"
    by (simp_all add: container_path_def pointer_of_def containers_path_def escape_plain)
qed

lemma proxy_env_trees:
  "rmap env_var_tree (proxy_env cfg) = Inr (env_trees cfg)"
proof -
  have "\<forall>e \<in> set es. float_free_env e \<Longrightarrow> rmap env_var_tree es = Inr (map (\<lambda>e. tree_of (env_var_tree e)) es)" for es
    using env_var_total by (induction es) (fastforce simp: tree_of_def)+
  then show ?thesis using proxy_env_float_free by (simp add: env_trees_def)
qed

lemma container_ops_rel:
  "list_all2 (\<lambda>op (ks, v). op = (pointer_of ks, v)) (map op_pair (container_ops cfg i pc))
     (below (containers_path @ [show_nat i]) (container_rel cfg pc))"
  by (auto simp: container_ops_def container_rel_def below_def op_pair_def add_op_def container_pointer
      mitm_ca_volume_mount_op_def value_tree_def proxy_env_trees tree_of_def [of "Inr _"] mount_tree_def env_trees_def
      list_all2_append list_all2_map1 list_all2_map2 list_all2_same simp del: to_json.simps)

lemma env_rel:
  assumes "container_view c pc"
  shows "add_all (if pc_env pc = [] then [([''env''], JArr (env_trees cfg))]
      else map (\<lambda>v. ([''env'', ''-''], v)) (env_trees cfg)) c = Some (append_to ''env'' (env_trees cfg) c)"
proof -
  from assms obtain ms where c: "c = JObj ms"
    and e: "case map_of ms ''env'' of None \<Rightarrow> pc_env pc = [] | Some JNull \<Rightarrow> pc_env pc = []
      | Some (JArr es) \<Rightarrow> length es = length (pc_env pc) | Some _ \<Rightarrow> False"
    by (auto simp: container_view_def)
  show ?thesis
  proof (cases "pc_env pc = []")
    case True
    with e show ?thesis
      by (auto simp: c append_to_def insert_child_def split: option.splits json.splits)
  next
    case False
    with e obtain es where "map_of ms ''env'' = Some (JArr es)"
      by (auto split: option.splits json.splits)
    from add_all_dash [OF this] False show ?thesis by (simp add: c)
  qed
qed

lemma container_rel_inject:
  assumes "container_view c pc"
  shows "mountable cfg c \<Longrightarrow> add_all (container_rel cfg pc) c = Some (inject cfg c)"
    and "cf_mitm_ca_secret_name cfg \<noteq> [] \<Longrightarrow> child ''volumeMounts'' c = None \<Longrightarrow>
      add_all (container_rel cfg pc) c = None"
proof -
  from assms obtain ms where c: "c = JObj ms" by (auto simp: container_view_def)
  let ?c = "append_to ''env'' (env_trees cfg) (JObj ms)"
  obtain ms' where c': "?c = JObj ms'" and vm: "map_of ms' ''volumeMounts'' = map_of ms ''volumeMounts''"
    by (auto simp: append_to_def)
  have a: "add_all (container_rel cfg pc) (JObj ms) = (if cf_mitm_ca_secret_name cfg \<noteq> []
      then add_all [([''volumeMounts'', ''-''], mount_tree cfg)] (JObj ms') else Some (JObj ms'))"
    using env_rel [OF assms, of cfg] by (simp add: container_rel_def add_all_append c c' del: add_at.simps)
  show "mountable cfg c \<Longrightarrow> add_all (container_rel cfg pc) c = Some (inject cfg c)"
    using add_all_dash [of ms' "''volumeMounts''" _ "[mount_tree cfg]"] vm
    by (auto simp: c a mountable_def inject_def c' child_def simp del: add_at.simps)
  show "cf_mitm_ca_secret_name cfg \<noteq> [] \<Longrightarrow> child ''volumeMounts'' c = None \<Longrightarrow>
      add_all (container_rel cfg pc) c = None"
    using add_dash_missing [of ms' "''volumeMounts''"] vm
    by (simp add: c a child_def [of _ "JObj ms"] del: add_at.simps)
qed

section \<open>All containers\<close>

lemma containers_child:
  assumes "at_path containers_path d = Some (JArr cs)" and "i < length cs"
  shows "at_path (containers_path @ [show_nat i]) d = Some (cs ! i)"
    and "set_at (containers_path @ [show_nat i]) x d = set_at containers_path (JArr (cs[i := x])) d"
  using assms set_at_append [OF assms(1), of "[show_nat i]" x]
  by (simp_all add: at_path_append child_def set_child_def)

lemma container_rel_paths: "\<forall>(ks, v) \<in> set (container_rel cfg pc). ks \<noteq> []"
  by (auto simp: container_rel_def)

lemma apply_container:
  assumes "at_path containers_path d = Some (JArr cs)" and "i < length cs"
  shows "apply_patch (map op_pair (container_ops cfg i pc)) d =
    map_option (\<lambda>c. set_at containers_path (JArr (cs[i := c])) d) (add_all (container_rel cfg pc) (cs ! i))"
  using apply_patch_add_all [OF container_ops_rel] containers_child [OF assms]
    add_all_below [OF _ container_rel_paths] by simp

lemma apply_containers:
  assumes "at_path containers_path d = Some (JArr (done @ cs))"
    and "list_all2 container_view cs pcs" and "\<forall>c \<in> set cs. mountable cfg c"
  shows "apply_patch (map op_pair (containers_ops cfg (length done) pcs)) d =
    Some (set_at containers_path (JArr (done @ map (inject cfg) cs)) d)"
  using assms(2,1,3)
proof (induction arbitrary: d "done" rule: list_all2_induct)
  case Nil
  then show ?case by (simp add: set_at_same)
next
  case (Cons c cs pc pcs)
  let ?d = "set_at containers_path (JArr ((done @ [inject cfg c]) @ cs)) d"
  have "apply_patch (map op_pair (container_ops cfg (length done) pc)) d = Some ?d"
    using apply_container [OF Cons.prems(1), of "length done" cfg pc]
      container_rel_inject(1) [OF Cons.hyps(1)] Cons.prems(2) by simp
  moreover have "apply_patch (map op_pair (containers_ops cfg (length (done @ [inject cfg c])) pcs)) ?d =
    Some (set_at containers_path (JArr ((done @ [inject cfg c]) @ map (inject cfg) cs)) ?d)"
    by (rule Cons.IH) (use Cons.prems in simp_all)
  ultimately show ?case using Cons.prems(1) by (simp add: apply_patch_append)
qed

lemma apply_containers_fails:
  assumes "at_path containers_path d = Some (JArr (done @ cs))"
    and "list_all2 container_view cs pcs" and "cf_mitm_ca_secret_name cfg \<noteq> []"
    and "\<exists>c \<in> set cs. child ''volumeMounts'' c = None"
  shows "apply_patch (map op_pair (containers_ops cfg (length done) pcs)) d = None"
  using assms(2,1,4)
proof (induction arbitrary: d "done" rule: list_all2_induct)
  case (Cons c cs pc pcs)
  note step = apply_container [OF Cons.prems(1), of "length done" cfg pc]
  show ?case
  proof (cases "add_all (container_rel cfg pc) c")
    case None
    with step show ?thesis by (simp add: apply_patch_append)
  next
    case (Some c')
    with container_rel_inject(2) [OF Cons.hyps(1) assms(3)] Cons.prems(2)
    have ex: "\<exists>c \<in> set cs. child ''volumeMounts'' c = None" by auto
    let ?d = "set_at containers_path (JArr ((done @ [c']) @ cs)) d"
    have "apply_patch (map op_pair (containers_ops cfg (length (done @ [c'])) pcs)) ?d = None"
      by (rule Cons.IH [OF _ ex]) (use Cons.prems in simp)
    with step Some show ?thesis by (simp add: apply_patch_append)
  qed
qed simp

section \<open>The whole patch\<close>

definition identity_path :: "string list" where
  "identity_path = [''metadata'', ''labels'', label_identity]"

definition identity_of :: "pod_like \<Rightarrow> config \<Rightarrow> string" where
  "identity_of pod cfg =
     (case pl_labels pod of
        None \<Rightarrow> cf_default_identity cfg
      | Some ls \<Rightarrow> (case map_of ls label_identity of None \<Rightarrow> cf_default_identity cfg | Some s \<Rightarrow> s))"

lemma label_pointer:
  "json_pointer_label key = pointer_of [''metadata'', ''labels'', key]"
  "''/metadata/labels'' = pointer_of [''metadata'', ''labels'']"
  by (simp_all add: json_pointer_label_def pointer_of_def escape_token_def escape_char_def)

lemma spec_object:
  assumes "d = JObj tp" and "at_path containers_path d = Some x"
  obtains sp where "map_of tp ''spec'' = Some (JObj sp)" and "map_of sp ''containers'' = Some x"
proof -
  from assms obtain s where s: "map_of tp ''spec'' = Some s" "child ''containers'' s = Some x"
    by (auto simp: containers_path_def child_def [of _ "JObj tp"] split: option.splits)
  have "array_index ''containers'' = None" by (simp add: array_index_def is_digit_def)
  with s(2) obtain sp where "s = JObj sp" by (auto simp: child_def split: json.splits)
  with s that show thesis by (simp add: child_def)
qed

lemma spec_other:
  assumes "map_of tp ''spec'' = Some (JObj sp)" and "k \<noteq> k'"
  shows "at_path [''spec'', k'] (set_at [''spec'', k] x (JObj tp)) = at_path [''spec'', k'] (JObj tp)"
  using assms by (auto simp: child_def set_child_def split: option.splits)

lemma apply_labels:
  assumes "pod_view d pod"
  obtains tp where "apply_patch (map op_pair (label_ops pod cfg)) d = Some (JObj tp)"
    and "\<And>q. at_path (''spec'' # q) (JObj tp) = at_path (''spec'' # q) d"
    and "at_path identity_path (JObj tp) = Some (JStr (identity_of pod cfg))"
proof -
  from assms obtain tp md where d: "d = JObj tp" "map_of tp ''metadata'' = Some md"
    "labels_view md (pl_labels pod)" by (auto simp: pod_view_def)
  then obtain mm where mm: "md = JObj mm"
    and l: "case map_of mm ''labels'' of None \<Rightarrow> pl_labels pod = None | Some JNull \<Rightarrow> pl_labels pod = None
      | Some (JObj ls) \<Rightarrow> pl_labels pod \<noteq> None \<and> (\<forall>k. map_of ls k = map_option JStr (map_of (the (pl_labels pod)) k))
      | Some _ \<Rightarrow> False" by (auto simp: labels_view_def)
  have meta: "at_path [''metadata''] d = Some (JObj mm)" using d mm by (simp add: child_def)
  let ?tp = "\<lambda>labels. map_set ''metadata'' (JObj (map_set ''labels'' labels mm)) tp"
  have spec: "at_path (''spec'' # q) (JObj (?tp labels)) = at_path (''spec'' # q) d" for q labels
    by (simp add: d child_def)
  have ident: "at_path identity_path (JObj (?tp (JObj ls))) = map_of ls label_identity" for ls
    by (simp add: identity_path_def child_def split: option.split)
  show thesis
  proof (cases "pl_labels pod")
    case None
    let ?ls = "[(label_identity, JStr (cf_default_identity cfg))]"
    have "apply_patch (map op_pair (label_ops pod cfg)) d = Some (JObj (?tp (JObj ?ls)))"
      using None d mm
      by (simp add: label_ops_def add_op_def op_pair_def label_pointer(2) apply_add_pointer tree_of_def
          value_tree_def sort_key_def insert_child_def child_def set_child_def)
    with that [of "?tp (JObj ?ls)"] spec ident [of ?ls] None show thesis by (simp add: identity_of_def)
  next
    case (Some labels)
    with l obtain ls where ls: "map_of mm ''labels'' = Some (JObj ls)"
      "\<forall>k. map_of ls k = map_option JStr (map_of labels k)"
      by (auto split: option.splits json.splits)
    show thesis
    proof (cases "map_of labels label_identity")
      case None
      let ?ls = "map_set label_identity (JStr (cf_default_identity cfg)) ls"
      have "apply_patch (map op_pair (label_ops pod cfg)) d = Some (JObj (?tp (JObj ?ls)))"
        using None Some d mm ls
        by (simp add: label_ops_def add_op_def op_pair_def label_pointer(1) apply_add_pointer tree_of_def
            value_tree_def insert_child_def child_def set_child_def)
      with that [of "?tp (JObj ?ls)"] spec ident [of ?ls] None Some show thesis by (simp add: identity_of_def)
    next
      case id: (Some s)
      have "apply_patch (map op_pair (label_ops pod cfg)) d = Some (JObj tp)"
        using id Some d by (simp add: label_ops_def)
      moreover have "at_path identity_path (JObj tp) = Some (JStr s)"
        using ls id d mm by (simp add: identity_path_def child_def)
      ultimately show thesis using that [of tp] id Some d by (simp add: identity_of_def)
    qed
  qed
qed

lemma spec_pointers:
  "''/spec/volumes/-'' = pointer_of ([''spec'', ''volumes''] @ [''-''])"
  "''/spec/containers/-'' = pointer_of (containers_path @ [''-''])"
  by (simp_all add: pointer_of_def escape_token_def escape_char_def containers_path_def)

lemma add_last:
  "at_path p d = Some (JArr xs) \<Longrightarrow> add_at (p @ [''-'']) v d = Some (set_at p (JArr (xs @ [v])) d)"
  by (simp add: add_below insert_child_def)

text \<open>The volume, when there is a Secret, and the sidecar.\<close>

definition closing_ops :: "config \<Rightarrow> patch_op list" where
  "closing_ops cfg =
     (if cf_mitm_ca_secret_name cfg \<noteq> [] then [mitm_ca_volume_op cfg] else []) @
     [add_op ''/spec/containers/-'' (PvContainer (build_engine_container cfg))]"

lemma apply_closing:
  assumes "at_path containers_path (JObj tp) = Some (JArr cs)"
    and "cf_mitm_ca_secret_name cfg = [] \<or> (\<exists>vs. at_path [''spec'', ''volumes''] (JObj tp) = Some (JArr vs))"
  obtains d' where "apply_patch (map op_pair (closing_ops cfg)) (JObj tp) = Some d'"
    and "at_path containers_path d' = Some (JArr (cs @ [engine_tree cfg]))"
    and "at_path identity_path d' = at_path identity_path (JObj tp)"
proof -
  have eng: "apply_add (op_pair (add_op ''/spec/containers/-'' (PvContainer (build_engine_container cfg)))) d =
      Some (set_at containers_path (JArr (cs @ [engine_tree cfg])) d)"
    if "at_path containers_path d = Some (JArr cs)" for d
    using add_last [OF that] by (simp add: op_pair_def add_op_def spec_pointers apply_add_pointer value_tree_def engine_tree_def)
  obtain sp where sp: "map_of tp ''spec'' = Some (JObj sp)" using spec_object [OF refl assms(1)] .
  show thesis
  proof (cases "cf_mitm_ca_secret_name cfg = []")
    case True
    show thesis
      by (rule that [of "set_at containers_path (JArr (cs @ [engine_tree cfg])) (JObj tp)"])
        (use True eng [OF assms(1)] assms(1) in \<open>simp_all add: closing_ops_def identity_path_def
          containers_path_def set_at_other del: at_path.simps set_at.simps\<close>)
  next
    case False
    with assms(2) obtain vs where vs: "at_path [''spec'', ''volumes''] (JObj tp) = Some (JArr vs)" by blast
    let ?v = "snd (op_pair (mitm_ca_volume_op cfg))"
    let ?d = "set_at [''spec'', ''volumes''] (JArr (vs @ [?v])) (JObj tp)"
    have vol: "apply_add (op_pair (mitm_ca_volume_op cfg)) (JObj tp) = Some ?d"
      using add_last [OF vs, of ?v]
      by (simp add: op_pair_def mitm_ca_volume_op_def add_op_def spec_pointers apply_add_pointer del: add_at.simps)
    have c: "at_path containers_path ?d = Some (JArr cs)"
      using spec_other [OF sp, of "''volumes''" "''containers''"] assms(1)
      by (simp add: containers_path_def del: at_path.simps set_at.simps)
    obtain tp' where tp': "?d = JObj tp'" using set_at_obj [OF refl] by metis
    show thesis
    proof (rule that [of "set_at containers_path (JArr (cs @ [engine_tree cfg])) ?d"])
      show "apply_patch (map op_pair (closing_ops cfg)) (JObj tp) =
          Some (set_at containers_path (JArr (cs @ [engine_tree cfg])) ?d)"
        using False vol eng [OF c] by (simp add: closing_ops_def)
      show "at_path containers_path (set_at containers_path (JArr (cs @ [engine_tree cfg])) ?d) =
          Some (JArr (cs @ [engine_tree cfg]))"
        by (rule at_set_at [OF c])
      have "at_path identity_path (set_at containers_path x ?d) = at_path identity_path ?d" for x
        unfolding tp' identity_path_def containers_path_def by (rule set_at_other) simp_all
      moreover have "at_path identity_path ?d = at_path identity_path (JObj tp)"
        unfolding identity_path_def by (rule set_at_other) simp_all
      ultimately show "at_path identity_path (set_at containers_path (JArr (cs @ [engine_tree cfg])) ?d) =
          at_path identity_path (JObj tp)" by simp
    qed
  qed
qed

lemma build_ops_parts:
  "build_ops pod cfg = label_ops pod cfg @ containers_ops cfg 0 (pl_containers pod) @ closing_ops cfg"
  by (simp add: build_ops_def closing_ops_def)

lemma apply_build:
  assumes "pod_view d pod" and "at_path containers_path d = Some (JArr cs)"
    and "cf_mitm_ca_secret_name cfg = [] \<or>
      (\<forall>c \<in> set cs. mountable cfg c) \<and> (\<exists>vs. at_path [''spec'', ''volumes''] d = Some (JArr vs))"
  obtains d' where "apply_patch (map op_pair (build_ops pod cfg)) d = Some d'"
    and "at_path containers_path d' = Some (JArr (map (inject cfg) cs @ [engine_tree cfg]))"
    and "at_path identity_path d' = Some (JStr (identity_of pod cfg))"
proof -
  obtain tp where l: "apply_patch (map op_pair (label_ops pod cfg)) d = Some (JObj tp)"
    and sp: "\<And>q. at_path (''spec'' # q) (JObj tp) = at_path (''spec'' # q) d"
    and id: "at_path identity_path (JObj tp) = Some (JStr (identity_of pod cfg))"
    using apply_labels [OF assms(1), of cfg] by blast
  have c: "at_path containers_path (JObj tp) = Some (JArr ([] @ cs))"
    using sp [of "[''containers'']"] assms(2) by (simp add: containers_path_def del: at_path.simps)
  have view: "list_all2 container_view cs (pl_containers pod)"
    using assms(1,2) by (auto simp: pod_view_def)
  have m: "\<forall>c \<in> set cs. mountable cfg c" using assms(3) by (auto simp: mountable_def)
  let ?d2 = "set_at containers_path (JArr (map (inject cfg) cs)) (JObj tp)"
  obtain tp2 where tp2: "?d2 = JObj tp2"
    using set_at_obj [OF refl] by (metis containers_path_def)
  obtain spo where spo: "map_of tp ''spec'' = Some (JObj spo)" using spec_object [OF refl c] .
  have "apply_patch (map op_pair (containers_ops cfg 0 (pl_containers pod))) (JObj tp) = Some (JObj tp2)"
    using apply_containers [OF c view m] by (simp add: tp2)
  moreover have "at_path containers_path (JObj tp2) = Some (JArr (map (inject cfg) cs))"
    using at_set_at [OF c] by (simp add: tp2 [symmetric])
  moreover have "at_path [''spec'', ''volumes''] (JObj tp2) = at_path [''spec'', ''volumes''] d"
    using spec_other [OF spo, of "''containers''" "''volumes''"] sp [of "[''volumes'']"]
    by (simp add: tp2 [symmetric] containers_path_def del: at_path.simps set_at.simps)
  moreover have "at_path identity_path (JObj tp2) = Some (JStr (identity_of pod cfg))"
    using id unfolding tp2 [symmetric] identity_path_def containers_path_def
    by (subst set_at_other) simp_all
  ultimately show thesis
    using apply_closing [of tp2 "map (inject cfg) cs" cfg] l assms(3) that
    by (auto simp: build_ops_parts apply_patch_append)
qed

lemma engine_injected:
  assumes "pod_view d pod" and "at_path containers_path d = Some (JArr cs)" and "engine_tree cfg \<in> set cs"
  shows "already_injected pod"
proof -
  from assms(1,2) have "list_all2 container_view cs (pl_containers pod)" by (auto simp: pod_view_def)
  with assms(3) obtain pc where "pc \<in> set (pl_containers pod)" "container_view (engine_tree cfg) pc"
    by (metis list_all2_conv_all_nth in_set_conv_nth)
  moreover obtain ms where "engine_tree cfg = JObj ((''name'', JStr engine_container_name) # ms)"
    using container_total [of cfg] by (auto simp: engine_tree_def tree_of_def)
  ultimately show ?thesis by (force simp: container_view_def already_injected_def list_ex_iff)
qed

section \<open>Properties\<close>

text \<open>
  C39. Building a patch never fails: \<open>BuildPatch\<close> returns nil exactly for a pod that has the
  sidecar, and otherwise a document whose operations are those of \<open>build_ops\<close>, in order, all
  of them \<open>add\<close>.
\<close>

theorem build_patch_total:
  "build_patch pod cfg = Inr
     (if already_injected pod then None else Some (encode True (JArr (map op_tree (build_ops pod cfg)))))
   \<and> (\<forall>op \<in> set (build_ops pod cfg). po_op op = ''add'')"
proof -
  have "rmap patch_op_tree (build_ops pod cfg) = Inr (map op_tree (build_ops pod cfg))"
    using marshal_ops value_tree_total by blast
  moreover have "op \<in> set (containers_ops cfg i cs) \<Longrightarrow> po_op op = ''add''" for op i cs
    by (induction cs arbitrary: i)
      (auto simp: container_ops_def add_op_def mitm_ca_volume_mount_op_def split: if_splits)
  ultimately show ?thesis
    by (auto simp: build_patch_def build_ops_parts closing_ops_def label_ops_def add_op_def
        mitm_ca_volume_op_def split: option.splits if_splits)
qed

text \<open>
  C11. What the patch does: applied to the pod it was built for, it succeeds and gives a pod whose
  containers are the old ones, each with the proxy environment appended to its own (and the CA
  mount, if a Secret is configured), followed by the sidecar, and whose identity label is the one
  it had or the default.
\<close>

theorem patched_pod:
  assumes "pod_view d pod" and "at_path containers_path d = Some (JArr cs)"
    and "cf_mitm_ca_secret_name cfg = [] \<or>
      (\<forall>c \<in> set cs. mountable cfg c) \<and> (\<exists>vs. at_path [''spec'', ''volumes''] d = Some (JArr vs))"
  shows "\<exists>d'. apply_patch (map op_pair (build_ops pod cfg)) d = Some d' \<and>
    at_path containers_path d' = Some (JArr (map (inject cfg) cs @ [engine_tree cfg])) \<and>
    at_path identity_path d' = Some (JStr (identity_of pod cfg))"
  using apply_build [OF assms] by metis

text \<open>
  C20. Injection happens once: a pod decoded from the patched document is recognised as injected,
  so a second call returns no patch.
\<close>

theorem patch_idempotent:
  assumes "pod_view d pod" and "at_path containers_path d = Some (JArr cs)"
    and "cf_mitm_ca_secret_name cfg = [] \<or>
      (\<forall>c \<in> set cs. mountable cfg c) \<and> (\<exists>vs. at_path [''spec'', ''volumes''] d = Some (JArr vs))"
    and "apply_patch (map op_pair (build_ops pod cfg)) d = Some d'" and "pod_view d' pod'"
  shows "build_patch pod' cfg' = Inr None"
proof (rule apply_build [OF assms(1,2,3)])
  fix d''
  assume "apply_patch (map op_pair (build_ops pod cfg)) d = Some d''"
    and "at_path containers_path d'' = Some (JArr (map (inject cfg) cs @ [engine_tree cfg]))"
  with assms(4) have "already_injected pod'" by (intro engine_injected [OF assms(5)]) auto
  then show ?thesis by (simp add: build_patch_def)
qed

text \<open>
  C28. With a CA Secret the patch can be rejected: it appends to \<open>volumeMounts\<close>, which RFC 6902
  allows only for an array that exists. For a pod with a container that has no volume mounts (and
  the API server adds none) the patch does not apply, and the pod is not admitted.
\<close>

theorem mitm_patch_rejected:
  assumes "pod_view d pod" and "at_path containers_path d = Some (JArr cs)"
    and "cf_mitm_ca_secret_name cfg \<noteq> []" and "\<exists>c \<in> set cs. child ''volumeMounts'' c = None"
  shows "apply_patch (map op_pair (build_ops pod cfg)) d = None"
proof -
  obtain tp where l: "apply_patch (map op_pair (label_ops pod cfg)) d = Some (JObj tp)"
    and sp: "\<And>q. at_path (''spec'' # q) (JObj tp) = at_path (''spec'' # q) d"
    using apply_labels [OF assms(1), of cfg] by blast
  have c: "at_path containers_path (JObj tp) = Some (JArr ([] @ cs))"
    using sp [of "[''containers'']"] assms(2) by (simp add: containers_path_def del: at_path.simps)
  have "list_all2 container_view cs (pl_containers pod)" using assms(1,2) by (auto simp: pod_view_def)
  from apply_containers_fails [OF c this assms(3,4)] l show ?thesis
    by (simp add: build_ops_parts apply_patch_append)
qed

text \<open>
  The pointer to a label is escaped as RFC 6901 asks: it leads to the label's key, whatever
  characters the key has.
\<close>

theorem label_pointer_roundtrip:
  "pointer_tokens (json_pointer_label key) = Some [''metadata'', ''labels'', key]"
  by (simp add: label_pointer(1))


section \<open>A concrete pod\<close>

definition demo_config :: "string \<Rightarrow> config" where
  "demo_config secret =
     \<lparr>cf_image = ''i'', cf_allowlist = ''a.io'', cf_audit_mode = [], cf_audit_file = [], cf_max_requests = [],
      cf_rate_limit = [], cf_max_tokens = [], cf_default_identity = ''auto'', cf_engine_listen_port = 0,
      cf_mitm_ca_secret_name = secret, cf_mitm_ca_cert_key = [], cf_mitm_ca_key_key = [],
      cf_mitm_ca_mount_dir = [], cf_mitm_hosts = []\<rparr>"

definition demo_container :: json where
  "demo_container = JObj [(''name'', JStr ''agent''), (''env'', JArr [JObj [(''name'', JStr ''X'')]])]"

definition demo_doc :: json where
  "demo_doc = JObj [(''metadata'', JObj []), (''spec'', JObj [(''containers'', JArr [demo_container])])]"

definition demo_pod :: pod_like where
  "demo_pod = \<lparr>pl_name = [], pl_namespace = [], pl_labels = None,
     pl_containers = [\<lparr>pc_name = ''agent'', pc_env = [[(''name'', JStr ''X'')]]\<rparr>]\<rparr>"

lemma demo_view [simp]: "pod_view demo_doc demo_pod"
  "at_path containers_path demo_doc = Some (JArr [demo_container])"
  by (simp_all add: pod_view_def demo_doc_def demo_pod_def containers_path_def child_def
      container_view_def labels_view_def demo_container_def)

theorem build_patch_total_witness:
  "\<exists>s. build_patch demo_pod (demo_config []) = Inr (Some s)"
  using build_patch_total [of demo_pod "demo_config []"]
  by (auto simp: already_injected_def demo_pod_def engine_container_name_def)

theorem patched_pod_witness:
  "\<exists>d'. apply_patch (map op_pair (build_ops demo_pod (demo_config []))) demo_doc = Some d' \<and>
     at_path identity_path d' = Some (JStr ''auto'')"
proof -
  have "identity_of demo_pod (demo_config []) = ''auto''" "cf_mitm_ca_secret_name (demo_config []) = []"
    by (simp_all add: demo_config_def identity_of_def demo_pod_def)
  then show ?thesis using patched_pod [of demo_doc demo_pod "[demo_container]" "demo_config []"] by auto
qed

text \<open>A pod without containers, and what is read back once the sidecar is in it.\<close>

definition bare_doc :: json where
  "bare_doc = JObj [(''metadata'', JObj []), (''spec'', JObj [(''containers'', JArr [])])]"

definition bare_pod :: pod_like where
  "bare_pod = \<lparr>pl_name = [], pl_namespace = [], pl_labels = None, pl_containers = []\<rparr>"

definition sidecar_pod :: "config \<Rightarrow> pod_like" where
  "sidecar_pod cfg = bare_pod\<lparr>pl_labels := Some [(label_identity, cf_default_identity cfg)],
     pl_containers := [\<lparr>pc_name = engine_container_name, pc_env = map (\<lambda>_. []) (engine_env cfg)\<rparr>]\<rparr>"

definition sidecar_doc :: "config \<Rightarrow> json" where
  "sidecar_doc cfg =
     JObj [(''metadata'', JObj [(''labels'', JObj [(label_identity, JStr (cf_default_identity cfg))])]),
           (''spec'', JObj [(''containers'', JArr [engine_tree cfg])])]"

lemma sidecar_view: "pod_view (sidecar_doc cfg) (sidecar_pod cfg)"
  using container_total [of cfg]
  by (auto simp: pod_view_def sidecar_doc_def sidecar_pod_def bare_pod_def containers_path_def child_def
      labels_view_def container_view_def engine_tree_def tree_of_def)

lemma bare_patched:
  "cf_mitm_ca_secret_name cfg = [] \<Longrightarrow>
   apply_patch (map op_pair (build_ops bare_pod cfg)) bare_doc = Some (sidecar_doc cfg)"
  by (simp add: build_ops_def label_ops_def bare_pod_def add_op_def op_pair_def value_tree_def tree_of_def [of "Inr _"]
      label_pointer(2) spec_pointers(2) apply_add_pointer bare_doc_def sidecar_doc_def containers_path_def
      insert_child_def child_def set_child_def sort_key_def engine_tree_def)

theorem patch_idempotent_witness:
  "apply_patch (map op_pair (build_ops bare_pod (demo_config []))) bare_doc = Some (sidecar_doc (demo_config [])) \<and>
   build_patch (sidecar_pod (demo_config [])) (demo_config []) = Inr None"
proof -
  have s: "cf_mitm_ca_secret_name (demo_config []) = []" by (simp add: demo_config_def)
  have v: "pod_view bare_doc bare_pod" "at_path containers_path bare_doc = Some (JArr [])"
    by (simp_all add: pod_view_def bare_doc_def bare_pod_def containers_path_def child_def labels_view_def)
  show ?thesis
    using patch_idempotent [OF v _ bare_patched [OF s] sidecar_view, of "demo_config []"] bare_patched [OF s] s
    by simp
qed

theorem mitm_patch_rejected_witness:
  "apply_patch (map op_pair (build_ops demo_pod (demo_config ''ca''))) demo_doc = None"
  using mitm_patch_rejected [of demo_doc demo_pod "[demo_container]" "demo_config ''ca''"]
  by (simp add: demo_config_def demo_container_def child_def)

theorem label_pointer_roundtrip_witness:
  "pointer_tokens (json_pointer_label label_identity) = Some [''metadata'', ''labels'', ''aegrail.io/identity'']"
  using label_pointer_roundtrip [of label_identity] by (simp add: label_identity_def)

end
