(* ===== verification/Go_Base64.thy ===== *)
theory Go_Base64
  imports Go_Strings
begin

text \<open>
  \<open>encoding/base64\<close>, standard encoding with padding, as \<open>encoding/json\<close> uses it for \<open>[]byte\<close>:
  the decoder skips line breaks, and does not insist that unused trailing bits are zero.
\<close>

definition b64_char :: "nat \<Rightarrow> char" where
  "b64_char n =
     chr (if n < 26 then 65 + n else if n < 52 then 71 + n else if n < 62 then n - 4
          else if n = 62 then 43 else 47)"

definition b64_val :: "char \<Rightarrow> nat option" where
  "b64_val c =
     (let b = byte c in
      if 65 \<le> b \<and> b \<le> 90 then Some (b - 65)
      else if 97 \<le> b \<and> b \<le> 122 then Some (b - 71)
      else if 48 \<le> b \<and> b \<le> 57 then Some (b + 4)
      else if b = 43 then Some 62 else if b = 47 then Some 63 else None)"

fun b64_encode :: "string \<Rightarrow> string" where
  "b64_encode [] = []"
| "b64_encode [a] = [b64_char (byte a div 4), b64_char (byte a mod 4 * 16), CHR ''='', CHR ''='']"
| "b64_encode [a, b] =
     [b64_char (byte a div 4), b64_char (byte a mod 4 * 16 + byte b div 16),
      b64_char (byte b mod 16 * 4), CHR ''='']"
| "b64_encode (a # b # c # s) =
     b64_char (byte a div 4) # b64_char (byte a mod 4 * 16 + byte b div 16) #
     b64_char (byte b mod 16 * 4 + byte c div 64) # b64_char (byte c mod 64) # b64_encode s"

fun b64_groups :: "string \<Rightarrow> string option" where
  "b64_groups [] = Some []"
| "b64_groups (p # q # r # t # s) =
     (case (b64_val p, b64_val q) of
        (Some a, Some b) \<Rightarrow>
          (case b64_val r of
             None \<Rightarrow>
               if r = CHR ''='' \<and> t = CHR ''='' \<and> s = [] then Some [chr (a * 4 + b div 16)] else None
           | Some c \<Rightarrow>
               (case b64_val t of
                  None \<Rightarrow>
                    if t = CHR ''='' \<and> s = []
                    then Some [chr (a * 4 + b div 16), chr (b mod 16 * 16 + c div 4)] else None
                | Some d \<Rightarrow>
                    map_option (\<lambda>rest. chr (a * 4 + b div 16) # chr (b mod 16 * 16 + c div 4) #
                      chr (c mod 4 * 64 + d) # rest) (b64_groups s)))
      | _ \<Rightarrow> None)"
| "b64_groups _ = None"

definition b64_decode :: "string \<Rightarrow> string option" where
  "b64_decode s = b64_groups (filter (\<lambda>c. c \<noteq> CHR 0x0D \<and> c \<noteq> CHR 0x0A) s)"

lemma b64_val_char: "n < 64 \<Longrightarrow> b64_val (b64_char n) = Some n"
proof -
  assume n: "n < 64"
  consider "n < 26" | "26 \<le> n" "n < 52" | "52 \<le> n" "n < 62" | "n = 62" | "n = 63" using n by linarith
  then show ?thesis by cases (auto simp: b64_val_def b64_char_def byte_chr Let_def)
qed

lemma b64_val_pad [simp]: "b64_val (CHR ''='') = None"
  by (simp add: b64_val_def)

lemma b64_char_plain: "b64_char n \<noteq> CHR 0x0D \<and> b64_char n \<noteq> CHR 0x0A" if "n < 64"
proof -
  have "b64_val (CHR 0x0D) = None" "b64_val (CHR 0x0A) = None" by (simp_all add: b64_val_def)
  with b64_val_char [OF that] show ?thesis by (metis option.distinct(1))
qed

lemma byte_256: "byte c < 256"
  by simp

text \<open>The four digits of a group of three bytes.\<close>

lemma digit_bounds:
  "byte a div 4 < 64" "byte a mod 4 * 16 < 64" "byte a mod 4 * 16 + byte b div 16 < 64"
  "byte b mod 16 * 4 < 64" "byte b mod 16 * 4 + byte c div 64 < 64" "byte c mod 64 < 64"
proof -
  have d: "x div 4 < 64" "x div 16 < 16" "x div 64 < 4" if "x < 256" for x :: nat
    using that by (simp_all add: less_mult_imp_div_less)
  have l: "x < 4 \<Longrightarrow> y < 16 \<Longrightarrow> x * 16 + y < 64" "x < 16 \<Longrightarrow> y < 4 \<Longrightarrow> x * 4 + y < 64"
    "x < 4 \<Longrightarrow> x * 16 < 64" "x < 16 \<Longrightarrow> x * 4 < 64" for x y :: nat by simp_all
  show "byte a div 4 < 64" "byte a mod 4 * 16 < 64" "byte a mod 4 * 16 + byte b div 16 < 64"
    "byte b mod 16 * 4 < 64" "byte b mod 16 * 4 + byte c div 64 < 64" "byte c mod 64 < 64"
    by (intro l d byte_256 mod_less_divisor; simp)+
qed

lemma joined:
  "chr (byte a div 4 * 4 + (byte a mod 4 * 16 + byte b div 16) div 16) = a"
  "chr (byte a div 4 * 4 + byte a mod 4 * 16 div 16) = a"
  "chr ((byte a mod 4 * 16 + byte b div 16) mod 16 * 16 + (byte b mod 16 * 4 + byte c div 64) div 4) = b"
  "chr ((byte a mod 4 * 16 + byte b div 16) mod 16 * 16 + byte b mod 16 * 4 div 4) = b"
  "chr ((byte b mod 16 * 4 + byte c div 64) mod 4 * 64 + byte c mod 64) = c"
proof -
  have r: "x div 4 * 4 + (x mod 4 * 16 + y div 16) div 16 = x"
    "x div 4 * 4 + x mod 4 * 16 div 16 = x"
    "(x mod 4 * 16 + y div 16) mod 16 * 16 + (y mod 16 * 4 + z div 64) div 4 = y"
    "(x mod 4 * 16 + y div 16) mod 16 * 16 + y mod 16 * 4 div 4 = y"
    "(y mod 16 * 4 + z div 64) mod 4 * 64 + z mod 64 = z"
    if "x < 256" "y < 256" "z < 256" for x y z :: nat
  proof -
    have d: "y div 16 < 16" "z div 64 < 4" using that by (simp_all add: less_mult_imp_div_less)
    then show "x div 4 * 4 + (x mod 4 * 16 + y div 16) div 16 = x"
      "x div 4 * 4 + x mod 4 * 16 div 16 = x"
      "(x mod 4 * 16 + y div 16) mod 16 * 16 + (y mod 16 * 4 + z div 64) div 4 = y"
      "(x mod 4 * 16 + y div 16) mod 16 * 16 + y mod 16 * 4 div 4 = y"
      "(y mod 16 * 4 + z div 64) mod 4 * 64 + z mod 64 = z"
      by simp_all
  qed
  show "chr (byte a div 4 * 4 + (byte a mod 4 * 16 + byte b div 16) div 16) = a"
    "chr (byte a div 4 * 4 + byte a mod 4 * 16 div 16) = a"
    "chr ((byte a mod 4 * 16 + byte b div 16) mod 16 * 16 + (byte b mod 16 * 4 + byte c div 64) div 4) = b"
    "chr ((byte a mod 4 * 16 + byte b div 16) mod 16 * 16 + byte b mod 16 * 4 div 4) = b"
    "chr ((byte b mod 16 * 4 + byte c div 64) mod 4 * 64 + byte c mod 64) = c"
    by (simp_all only: r [OF byte_256 byte_256 byte_256] char_of_char)
qed

lemma b64_groups_encode: "b64_groups (b64_encode s) = Some s"
  by (induction s rule: b64_encode.induct)
    (simp_all only: b64_encode.simps b64_groups.simps b64_val_char digit_bounds joined b64_val_pad
      option.case option.map prod.case if_True simp_thms)

lemma b64_encode_plain: "\<forall>c \<in> set (b64_encode s). c \<noteq> CHR 0x0D \<and> c \<noteq> CHR 0x0A"
  by (induction s rule: b64_encode.induct)
    (simp_all add: b64_char_plain digit_bounds)

lemma b64_decode_encode [simp]: "b64_decode (b64_encode s) = Some s"
  using b64_encode_plain by (simp add: b64_decode_def b64_groups_encode filter_id_conv [THEN iffD2])

end
