(* ===== verification/Webhook_Main.thy ===== *)
theory Webhook_Main
  imports Webhook_Patch Go_Base64 Go_Mux
begin

text \<open>
  \<open>cmd/aegrail-webhook/main.go\<close>: the configuration from the environment, the admission review
  as it is decoded and encoded, and the handler of \<open>/mutate\<close>. An environment is a function from
  names to values, the empty string for an unset variable. The text of a JSON decoding error is
  an argument.
\<close>

section \<open>Configuration\<close>

type_synonym env = "string \<Rightarrow> string"

definition env_default :: "env \<Rightarrow> string \<Rightarrow> string \<Rightarrow> string" where
  "env_default env key fallback = (if env key \<noteq> [] then env key else fallback)"

definition env_int :: "env \<Rightarrow> string \<Rightarrow> int64 \<Rightarrow> int64" where
  "env_int env key fallback =
     (if env key \<noteq> [] then (case parse_int64 (env key) of Inr n \<Rightarrow> n | Inl _ \<Rightarrow> fallback) else fallback)"

definition require_env :: "env \<Rightarrow> string \<Rightarrow> string" where
  "require_env env key = env key"

definition webhook_config :: "env \<Rightarrow> config" where
  "webhook_config env =
     \<lparr>cf_image = require_env env ''AEGRAIL_ENGINE_IMAGE'',
      cf_allowlist = env ''AEGRAIL_ENGINE_ALLOWLIST'',
      cf_audit_mode = env_default env ''AEGRAIL_ENGINE_AUDIT_MODE'' ''stdout'',
      cf_audit_file = env_default env ''AEGRAIL_ENGINE_AUDIT_FILE'' ''/var/log/aegrail/audit.jsonl'',
      cf_max_requests = env ''AEGRAIL_ENGINE_MAX_REQUESTS'',
      cf_rate_limit = env ''AEGRAIL_ENGINE_RATE_LIMIT'',
      cf_max_tokens = env ''AEGRAIL_ENGINE_MAX_TOKENS'',
      cf_default_identity = env_default env ''AEGRAIL_ENGINE_DEFAULT_IDENTITY'' ''auto-injected/v1'',
      cf_engine_listen_port = env_int env ''AEGRAIL_ENGINE_LISTEN_PORT'' 8080,
      cf_mitm_ca_secret_name = env ''AEGRAIL_WEBHOOK_MITM_CA_SECRET_NAME'',
      cf_mitm_ca_cert_key = env_default env ''AEGRAIL_WEBHOOK_MITM_CA_CERT_KEY'' ''tls.crt'',
      cf_mitm_ca_key_key = env_default env ''AEGRAIL_WEBHOOK_MITM_CA_KEY_KEY'' ''tls.key'',
      cf_mitm_ca_mount_dir = env_default env ''AEGRAIL_WEBHOOK_MITM_CA_MOUNT_DIR'' ''/etc/aegrail/mitm-ca'',
      cf_mitm_hosts = env ''AEGRAIL_WEBHOOK_MITM_HOSTS''\<rparr>"

text \<open>\<open>run\<close> up to serving: the certificate, the key, the address and the configuration.\<close>

definition webhook_startup :: "env \<Rightarrow> (string, string \<times> string \<times> string \<times> config) result" where
  "webhook_startup env =
     (let cert_path = env_default env ''AEGRAIL_WEBHOOK_TLS_CERT'' ''/etc/aegrail/tls/tls.crt'';
          key_path = env_default env ''AEGRAIL_WEBHOOK_TLS_KEY'' ''/etc/aegrail/tls/tls.key'';
          listen = env_default env ''AEGRAIL_WEBHOOK_LISTEN'' '':8443'';
          cfg = webhook_config env in
      if cf_image cfg = []
      then Inl ''AEGRAIL_ENGINE_IMAGE is required (the image the webhook injects)''
      else Inr (cert_path, key_path, listen, cfg))"

section \<open>Decoding into pointers, lists and maps\<close>

definition um_bool :: "(bool \<Rightarrow> 'r \<Rightarrow> 'r) \<Rightarrow> json \<Rightarrow> 'r \<Rightarrow> 'r \<times> bool" where
  "um_bool f v r = (case v of JBool b \<Rightarrow> (f b r, False) | JNull \<Rightarrow> (r, False) | _ \<Rightarrow> (r, True))"

definition um_pointer :: "('r \<Rightarrow> 's option) \<Rightarrow> ('s option \<Rightarrow> 'r \<Rightarrow> 'r) \<Rightarrow> 's field list \<Rightarrow> 's \<Rightarrow>
    json \<Rightarrow> 'r \<Rightarrow> 'r \<times> bool" where
  "um_pointer get put fs zero v r =
     (if v = JNull then (put None r, False)
      else (case um_struct fs v (case get r of None \<Rightarrow> zero | Some s \<Rightarrow> s) of
              (s, e) \<Rightarrow> (put (Some s) r, e)))"

text \<open>\<open>json.RawMessage\<close> keeps any value.\<close>

definition um_raw :: "(json \<Rightarrow> 'r \<Rightarrow> 'r) \<Rightarrow> json \<Rightarrow> 'r \<Rightarrow> 'r \<times> bool" where
  "um_raw f v r = (f v r, False)"

text \<open>The elements of an array are decoded over the ones already there.\<close>

fun um_elems :: "(json \<Rightarrow> 'a \<Rightarrow> 'a \<times> bool) \<Rightarrow> 'a \<Rightarrow> json list \<Rightarrow> 'a list \<Rightarrow> 'a list \<times> bool" where
  "um_elems dec zero [] old = ([], False)"
| "um_elems dec zero (v # vs) old =
     (case dec v (case old of [] \<Rightarrow> zero | a # _ \<Rightarrow> a) of
        (x, e) \<Rightarrow> (case um_elems dec zero vs (drop 1 old) of (xs, e') \<Rightarrow> (x # xs, e \<or> e')))"

definition um_list :: "('r \<Rightarrow> 'a list) \<Rightarrow> ('a list \<Rightarrow> 'r \<Rightarrow> 'r) \<Rightarrow> (json \<Rightarrow> 'a \<Rightarrow> 'a \<times> bool) \<Rightarrow> 'a \<Rightarrow>
    json \<Rightarrow> 'r \<Rightarrow> 'r \<times> bool" where
  "um_list get put dec zero v r =
     (case v of
        JArr vs \<Rightarrow> (case um_elems dec zero vs (get r) of (xs, e) \<Rightarrow> (put xs r, e))
      | JNull \<Rightarrow> (put [] r, False)
      | _ \<Rightarrow> (r, True))"

text \<open>A map of strings: a member that is not a string leaves an empty string and an error.\<close>

fun um_text_members :: "members \<Rightarrow> (string \<times> string) list \<Rightarrow> (string \<times> string) list \<times> bool" where
  "um_text_members [] m = (m, False)"
| "um_text_members ((k, v) # ms) m =
     (case um_text_members ms (map_set k (case v of JStr s \<Rightarrow> s | _ \<Rightarrow> []) m) of
        (m', e) \<Rightarrow> (m', e \<or> (case v of JStr s \<Rightarrow> False | JNull \<Rightarrow> False | _ \<Rightarrow> True)))"

definition um_text_map :: "('r \<Rightarrow> (string \<times> string) list option) \<Rightarrow>
    ((string \<times> string) list option \<Rightarrow> 'r \<Rightarrow> 'r) \<Rightarrow> json \<Rightarrow> 'r \<Rightarrow> 'r \<times> bool" where
  "um_text_map get put v r =
     (case v of
        JObj ms \<Rightarrow>
          (case um_text_members ms (case get r of None \<Rightarrow> [] | Some m \<Rightarrow> m) of (m, e) \<Rightarrow> (put (Some m) r, e))
      | JNull \<Rightarrow> (put None r, False)
      | _ \<Rightarrow> (r, True))"

definition um_any_map :: "json \<Rightarrow> members \<Rightarrow> members \<times> bool" where
  "um_any_map v m =
     (case v of
        JObj ms \<Rightarrow> (fold (\<lambda>(k, x). map_set k x) ms m, False)
      | JNull \<Rightarrow> ([], False)
      | _ \<Rightarrow> (m, True))"

text \<open>Bytes: base64 text, or an array of small numbers.\<close>

definition um_byte :: "json \<Rightarrow> nat \<Rightarrow> nat \<times> bool" where
  "um_byte v b =
     (case v of
        JNum s \<Rightarrow> (case (if s = [] then None else read_digits 0 s) of
                     Some n \<Rightarrow> if n < 256 then (n, False) else (b, True)
                   | None \<Rightarrow> (b, True))
      | JNull \<Rightarrow> (b, False)
      | _ \<Rightarrow> (b, True))"

definition um_bytes :: "('r \<Rightarrow> string) \<Rightarrow> (string \<Rightarrow> 'r \<Rightarrow> 'r) \<Rightarrow> json \<Rightarrow> 'r \<Rightarrow> 'r \<times> bool" where
  "um_bytes get put v r =
     (case v of
        JStr s \<Rightarrow> (case b64_decode s of Some t \<Rightarrow> (put t r, False) | None \<Rightarrow> (r, True))
      | JArr vs \<Rightarrow> (case um_elems um_byte 0 vs (map (\<lambda>c. byte c) (get r)) of (bs, e) \<Rightarrow> (put (map chr bs) r, e))
      | JNull \<Rightarrow> (put [] r, False)
      | _ \<Rightarrow> (r, True))"

section \<open>The pod\<close>

definition container_fields :: "pod_container field list" where
  "container_fields =
     [(''name'', um_string (\<lambda>s c. c\<lparr>pc_name := s\<rparr>)),
      (''env'', um_list pc_env (\<lambda>es c. c\<lparr>pc_env := es\<rparr>) um_any_map [])]"

definition no_container :: pod_container where
  "no_container = \<lparr>pc_name = [], pc_env = []\<rparr>"

text \<open>The two anonymous structs of \<open>PodLike\<close> are part of one record here.\<close>

definition metadata_fields :: "pod_like field list" where
  "metadata_fields =
     [(''name'', um_string (\<lambda>s p. p\<lparr>pl_name := s\<rparr>)),
      (''namespace'', um_string (\<lambda>s p. p\<lparr>pl_namespace := s\<rparr>)),
      (''labels'', um_text_map pl_labels (\<lambda>m p. p\<lparr>pl_labels := m\<rparr>))]"

definition spec_fields :: "pod_like field list" where
  "spec_fields =
     [(''containers'', um_list pl_containers (\<lambda>cs p. p\<lparr>pl_containers := cs\<rparr>)
         (um_struct container_fields) no_container)]"

definition pod_fields :: "pod_like field list" where
  "pod_fields = [(''metadata'', um_struct metadata_fields), (''spec'', um_struct spec_fields)]"

definition no_pod :: pod_like where
  "no_pod = \<lparr>pl_name = [], pl_namespace = [], pl_labels = None, pl_containers = []\<rparr>"

definition decode_pod :: "json \<Rightarrow> pod_like \<times> bool" where
  "decode_pod v = um_struct pod_fields v no_pod"

section \<open>The admission review\<close>

record admission_req =
  aq_uid :: string
  aq_object :: "json option"
  aq_namespace :: string
  aq_operation :: string

record admission_resp =
  ar_uid :: string
  ar_allowed :: bool
  ar_patch_type :: string
  ar_patch :: string

record admission_review =
  av_api_version :: string
  av_kind :: string
  av_request :: "admission_req option"
  av_response :: "admission_resp option"

definition req_fields :: "admission_req field list" where
  "req_fields =
     [(''uid'', um_string (\<lambda>s r. r\<lparr>aq_uid := s\<rparr>)),
      (''object'', um_raw (\<lambda>v r. r\<lparr>aq_object := Some v\<rparr>)),
      (''namespace'', um_string (\<lambda>s r. r\<lparr>aq_namespace := s\<rparr>)),
      (''operation'', um_string (\<lambda>s r. r\<lparr>aq_operation := s\<rparr>))]"

definition resp_fields :: "admission_resp field list" where
  "resp_fields =
     [(''uid'', um_string (\<lambda>s r. r\<lparr>ar_uid := s\<rparr>)),
      (''allowed'', um_bool (\<lambda>b r. r\<lparr>ar_allowed := b\<rparr>)),
      (''patchType'', um_string (\<lambda>s r. r\<lparr>ar_patch_type := s\<rparr>)),
      (''patch'', um_bytes ar_patch (\<lambda>s r. r\<lparr>ar_patch := s\<rparr>))]"

definition no_req :: admission_req where
  "no_req = \<lparr>aq_uid = [], aq_object = None, aq_namespace = [], aq_operation = []\<rparr>"

definition no_resp :: admission_resp where
  "no_resp = \<lparr>ar_uid = [], ar_allowed = False, ar_patch_type = [], ar_patch = []\<rparr>"

definition review_fields :: "admission_review field list" where
  "review_fields =
     [(''apiVersion'', um_string (\<lambda>s r. r\<lparr>av_api_version := s\<rparr>)),
      (''kind'', um_string (\<lambda>s r. r\<lparr>av_kind := s\<rparr>)),
      (''request'', um_pointer av_request (\<lambda>q r. r\<lparr>av_request := q\<rparr>) req_fields no_req),
      (''response'', um_pointer av_response (\<lambda>q r. r\<lparr>av_response := q\<rparr>) resp_fields no_resp)]"

definition no_review :: admission_review where
  "no_review = \<lparr>av_api_version = [], av_kind = [], av_request = None, av_response = None\<rparr>"

text \<open>A response as it is marshalled; the patch is base64 text.\<close>

definition resp_tree :: "admission_resp \<Rightarrow> json" where
  "resp_tree r =
     JObj ([(''uid'', JStr (ar_uid r)), (''allowed'', JBool (ar_allowed r))] @
       omit_text ''patchType'' (ar_patch_type r) @
       (if ar_patch r = [] then [] else [(''patch'', JStr (b64_encode (ar_patch r)))]))"

section \<open>The handler\<close>

text \<open>A refusal with its text, or a review with the body written.\<close>

datatype mutate_answer = BadRequest string | Review string

definition write_review :: "string \<Rightarrow> admission_resp \<Rightarrow> mutate_answer" where
  "write_review api_version resp =
     (let v = (if api_version = [] then ''admission.k8s.io/v1'' else api_version) in
      Review (encode True
        (JObj [(''apiVersion'', JStr v), (''kind'', JStr ''AdmissionReview''), (''response'', resp_tree resp)])
        @ [CHR 0x0A]))"

definition admit :: "string \<Rightarrow> admission_resp" where
  "admit uid = \<lparr>ar_uid = uid, ar_allowed = True, ar_patch_type = [], ar_patch = []\<rparr>"

text \<open>The response to a review with a request. The object is decoded again from its raw text.\<close>

definition review_response :: "config \<Rightarrow> admission_req \<Rightarrow> admission_resp" where
  "review_response cfg req =
     (case aq_object req of
        None \<Rightarrow> admit (aq_uid req)
      | Some v \<Rightarrow>
          (case decode_pod v of
             (pod, err) \<Rightarrow>
               if err then admit (aq_uid req)
               else
                 (case build_patch pod cfg of
                    Inl _ \<Rightarrow> admit (aq_uid req)
                  | Inr None \<Rightarrow> admit (aq_uid req)
                  | Inr (Some patch) \<Rightarrow>
                      (admit (aq_uid req))\<lparr>ar_patch_type := ''JSONPatch'', ar_patch := patch\<rparr>)))"

definition mutate_handler :: "config \<Rightarrow> string \<Rightarrow> (string, string) result \<Rightarrow> mutate_answer" where
  "mutate_handler cfg err_text body =
     (case body of
        Inl e \<Rightarrow> BadRequest (''read body: '' @ e)
      | Inr text \<Rightarrow>
          (case unmarshal review_fields text no_review of
             (review, err) \<Rightarrow>
               if err then BadRequest (''parse AdmissionReview: '' @ err_text)
               else
                 (case av_request review of
                    None \<Rightarrow> BadRequest ''AdmissionReview missing request''
                  | Some req \<Rightarrow> write_review (av_api_version review) (review_response cfg req))))"


section \<open>Serving\<close>

datatype webhook_answer =
    OkText string | Mutate mutate_answer | PageNotFound | MovedPermanently | StarRefused

definition ok_handler :: "string \<Rightarrow> webhook_answer" where
  "ok_handler body = OkText body"

text \<open>
  The mux of \<open>run\<close>, for a request with its method, whether its target is \<open>*\<close>, and its escaped path.
  The path of a CONNECT is matched as it is.
\<close>

definition webhook_serve :: "config \<Rightarrow> string \<Rightarrow> bool \<Rightarrow> string \<Rightarrow> string \<Rightarrow> (string, string) result \<Rightarrow> webhook_answer" where
  "webhook_serve cfg rmethod star path err_text body =
     (let literals = [''healthz'', ''readyz'', ''mutate''] in
      if star then StarRefused
      else
        (case (if rmethod = ''CONNECT'' then match_path literals path else mux_route literals path) of
           Literal l \<Rightarrow>
             if l = ''healthz'' then ok_handler (''ok'' @ [CHR 0x0A])
             else if l = ''readyz'' then ok_handler (''ready'' @ [CHR 0x0A])
             else Mutate (mutate_handler cfg err_text body)
         | CatchAll \<Rightarrow> PageNotFound
         | Moved \<Rightarrow> MovedPermanently))"

end
