(* ===== verification/Webhook_Review.thy ===== *)
theory Webhook_Review
  imports Webhook_Main
begin

text \<open>
  The properties of the admission handler: it never blocks a pod, it decodes a well-formed pod
  for what it is, and its patch arrives at the API server and injects the sidecar.
\<close>

section \<open>Decoding members\<close>

definition decode_member :: "'r field list \<Rightarrow> string \<Rightarrow> json \<Rightarrow> 'r \<Rightarrow> 'r \<times> bool" where
  "decode_member fs k v r = (case find_field fs k of None \<Rightarrow> (r, False) | Some (_, setf) \<Rightarrow> setf v r)"

declare decode_member_def [decode_simps]

lemma um_members_Cons:
  "um_members fs ((k, v) # ms) (r, e) =
   um_members fs ms (fst (decode_member fs k v r), e \<or> snd (decode_member fs k v r))"
  by (auto simp: decode_member_def split: option.splits prod.splits)

lemma um_members_no_error:
  "\<forall>(k, v) \<in> set ms. \<forall>r. \<not> snd (decode_member fs k v r) \<Longrightarrow> snd (um_members fs ms (r, e)) = e"
proof (induction ms arbitrary: r e)
  case (Cons m ms)
  obtain k v where m: "m = (k, v)" by (cases m)
  have "\<not> snd (decode_member fs k v r)" using Cons.prems by (simp add: m)
  moreover have "\<forall>(k, v) \<in> set ms. \<forall>r. \<not> snd (decode_member fs k v r)" using Cons.prems by simp
  ultimately show ?case using Cons.IH by (simp add: m um_members_Cons del: um_members.simps)
qed simp

text \<open>What a part of the record is after decoding: the member that sets it decides.\<close>

lemma um_members_part:
  assumes "\<And>k' v r. k' \<noteq> k \<Longrightarrow> k' \<in> fst ` set ms \<Longrightarrow> g (fst (decode_member fs k' v r)) = g r"
    and "\<And>v r r'. g r = g r' \<Longrightarrow> g (fst (decode_member fs k v r)) = g (fst (decode_member fs k v r'))"
    and "distinct (map fst ms)"
  shows "g (fst (um_members fs ms (r, e))) =
    (case map_of ms k of None \<Rightarrow> g r | Some v \<Rightarrow> g (fst (decode_member fs k v r)))"
  using assms(1,3)
proof (induction ms arbitrary: r e)
  case (Cons m ms)
  obtain k' v where m: "m = (k', v)" by (cases m)
  let ?r = "fst (decode_member fs k' v r)"
  have ih: "g (fst (um_members fs ms (?r, e'))) =
      (case map_of ms k of None \<Rightarrow> g ?r | Some v \<Rightarrow> g (fst (decode_member fs k v ?r)))" for e'
    using Cons.prems by (intro Cons.IH) auto
  show ?case
  proof (cases "k' = k")
    case True
    with Cons.prems(2) have "map_of ms k = None" by (auto simp: m map_of_eq_None_iff)
    with ih True show ?thesis by (simp add: m um_members_Cons del: um_members.simps)
  next
    case False
    with Cons.prems(1) have r: "g ?r = g r" by (simp add: m)
    have "g (fst (decode_member fs k w ?r)) = g (fst (decode_member fs k w r))" for w
      by (rule assms(2) [OF r])
    with ih False r show ?thesis
      by (simp add: m um_members_Cons del: um_members.simps split: option.splits)
  qed
qed simp

lemma find_field_in: "find_field fs k = Some f \<Longrightarrow> f \<in> set fs"
  by (auto simp: decode_simps find_Some_iff split: option.splits)

lemma decode_member_keeps:
  "\<forall>f \<in> set fs. \<forall>v r. g (fst (snd f v r)) = g r \<Longrightarrow> g (fst (decode_member fs k v r)) = g r"
  using find_field_in [of fs k] by (force simp: decode_member_def split: option.splits)

lemma um_struct_keeps:
  assumes "\<forall>f \<in> set fs. \<forall>v r. g (fst (snd f v r)) = g r"
  shows "g (fst (um_struct fs v r)) = g r"
proof (cases v)
  case (JObj ms)
  have "g (fst (um_members fs ms (r, e))) = g r" for e
  proof (induction ms arbitrary: r e)
    case (Cons m ms)
    then show ?case using decode_member_keeps [OF assms]
      by (cases m) (simp add: um_members_Cons del: um_members.simps)
  qed simp
  then show ?thesis by (simp add: JObj)
qed simp_all

section \<open>Well-formed pods\<close>

text \<open>
  Every member of an object is either spelled as a field or matches none (the case folding of
  names brings nothing in), and no member is repeated.
\<close>

definition exact_object :: "'r field list \<Rightarrow> members \<Rightarrow> bool" where
  "exact_object fs ms \<longleftrightarrow> distinct (map fst ms) \<and>
     (\<forall>k \<in> fst ` set ms. find_field fs k = None \<or> k \<in> fst ` set fs)"

definition text_or_none :: "json option \<Rightarrow> bool" where
  "text_or_none v \<longleftrightarrow> (case v of None \<Rightarrow> True | Some (JStr s) \<Rightarrow> True | Some _ \<Rightarrow> False)"

definition well_formed_container :: "json \<Rightarrow> bool" where
  "well_formed_container c \<longleftrightarrow>
     (\<exists>ms. c = JObj ms \<and> exact_object container_fields ms \<and> (\<exists>s. map_of ms ''name'' = Some (JStr s)) \<and>
        (case map_of ms ''env'' of
           None \<Rightarrow> True
         | Some (JArr es) \<Rightarrow> \<forall>e \<in> set es. \<exists>m. e = JObj m
         | Some v \<Rightarrow> v = JNull))"

definition well_formed_labels :: "json option \<Rightarrow> bool" where
  "well_formed_labels v \<longleftrightarrow>
     (case v of
        None \<Rightarrow> True
      | Some (JObj ls) \<Rightarrow> distinct (map fst ls) \<and> (\<forall>l \<in> set ls. \<exists>s. snd l = JStr s)
      | Some v \<Rightarrow> v = JNull)"

definition well_formed_pod :: "json \<Rightarrow> bool" where
  "well_formed_pod d \<longleftrightarrow>
     (\<exists>tp mm sp cs. d = JObj tp \<and> exact_object pod_fields tp \<and>
        map_of tp ''metadata'' = Some (JObj mm) \<and> exact_object metadata_fields mm \<and>
        text_or_none (map_of mm ''name'') \<and> text_or_none (map_of mm ''namespace'') \<and>
        well_formed_labels (map_of mm ''labels'') \<and>
        map_of tp ''spec'' = Some (JObj sp) \<and> exact_object spec_fields sp \<and>
        map_of sp ''containers'' = Some (JArr cs) \<and> (\<forall>c \<in> set cs. well_formed_container c))"

lemma find_exact: "k \<in> fst ` set fs \<Longrightarrow> \<exists>f. find_field fs k = Some (k, f) \<and> (k, f) \<in> set fs"
proof -
  assume "k \<in> fst ` set fs"
  then have "List.find (\<lambda>f. fst f = k) fs \<noteq> None" by (auto simp: find_None_iff)
  then obtain f where f: "List.find (\<lambda>f. fst f = k) fs = Some f" by blast
  then have "fst f = k" "f \<in> set fs" by (auto simp: find_Some_iff)
  with f show ?thesis by (intro exI [of _ "snd f"]) (auto simp: decode_simps)
qed

lemma exact_decode:
  "exact_object fs ms \<Longrightarrow> k \<in> fst ` set ms \<Longrightarrow> k \<notin> fst ` set fs \<Longrightarrow> decode_member fs k v r = (r, False)"
  by (auto simp: exact_object_def decode_member_def)

section \<open>Decoding a well-formed pod\<close>

lemma container_members:
  "decode_member container_fields ''name'' v r = um_string (\<lambda>s c. c\<lparr>pc_name := s\<rparr>) v r"
  "decode_member container_fields ''env'' v r = um_list pc_env (\<lambda>es c. c\<lparr>pc_env := es\<rparr>) um_any_map [] v r"
  by (simp_all add: container_fields_def decode_simps)

lemma metadata_members:
  "decode_member metadata_fields ''name'' v r = um_string (\<lambda>s p. p\<lparr>pl_name := s\<rparr>) v r"
  "decode_member metadata_fields ''namespace'' v r = um_string (\<lambda>s p. p\<lparr>pl_namespace := s\<rparr>) v r"
  "decode_member metadata_fields ''labels'' v r = um_text_map pl_labels (\<lambda>m p. p\<lparr>pl_labels := m\<rparr>) v r"
  by (simp_all add: metadata_fields_def decode_simps)

lemma spec_members:
  "decode_member spec_fields ''containers'' v r =
   um_list pl_containers (\<lambda>cs p. p\<lparr>pl_containers := cs\<rparr>) (um_struct container_fields) no_container v r"
  by (simp add: spec_fields_def decode_simps)

lemma pod_members:
  "decode_member pod_fields ''metadata'' v r = um_struct metadata_fields v r"
  "decode_member pod_fields ''spec'' v r = um_struct spec_fields v r"
  by (simp_all add: pod_fields_def decode_simps)

lemma field_names:
  "fst ` set container_fields = {''name'', ''env''}"
  "fst ` set metadata_fields = {''name'', ''namespace'', ''labels''}"
  "fst ` set spec_fields = {''containers''}" "fst ` set pod_fields = {''metadata'', ''spec''}"
  by (simp_all add: container_fields_def metadata_fields_def spec_fields_def pod_fields_def)

lemma um_elems_fresh:
  "\<forall>v \<in> set vs. \<not> snd (dec v z) \<Longrightarrow> um_elems dec z vs [] = (map (\<lambda>v. fst (dec v z)) vs, False)"
  by (induction vs) (auto split: prod.splits)

lemma um_elems_ok:
  "\<forall>v \<in> set vs. \<forall>a. \<not> snd (dec v a) \<Longrightarrow>
   \<not> snd (um_elems dec z vs old) \<and> length (fst (um_elems dec z vs old)) = length vs"
proof (induction vs arbitrary: old)
  case (Cons v vs)
  then have ih: "\<not> snd (um_elems dec z vs (drop 1 old)) \<and> length (fst (um_elems dec z vs (drop 1 old))) = length vs"
    and v: "\<not> snd (dec v (case old of [] \<Rightarrow> z | a # _ \<Rightarrow> a))" by simp_all
  from ih v show ?case by (simp add: split_beta)
qed simp

text \<open>The error of an object all of whose members decode.\<close>

lemma um_exact_ok:
  assumes "exact_object fs ms"
    and "\<And>k v r. k \<in> fst ` set fs \<Longrightarrow> map_of ms k = Some v \<Longrightarrow> \<not> snd (decode_member fs k v r)"
  shows "\<not> snd (um_members fs ms (r, False))"
proof -
  have "\<not> snd (decode_member fs k v r)" if kv: "(k, v) \<in> set ms" for k v r
  proof (cases "k \<in> fst ` set fs")
    case True
    have "map_of ms k = Some v" using assms(1) kv by (auto simp: exact_object_def)
    with assms(2) [OF True] show ?thesis by blast
  next
    case False
    have "k \<in> fst ` set ms" using kv by force
    from exact_decode [OF assms(1) this False] show ?thesis by simp
  qed
  then show ?thesis using um_members_no_error [of ms fs r False] by auto
qed

text \<open>A part that only the field \<open>k\<close> sets.\<close>

lemma um_exact_part:
  assumes "exact_object fs ms"
    and "\<And>k' v r. k' \<noteq> k \<Longrightarrow> k' \<in> fst ` set fs \<Longrightarrow> g (fst (decode_member fs k' v r)) = g r"
    and "\<And>v r r'. g r = g r' \<Longrightarrow> g (fst (decode_member fs k v r)) = g (fst (decode_member fs k v r'))"
  shows "g (fst (um_members fs ms (r, e))) =
    (case map_of ms k of None \<Rightarrow> g r | Some v \<Rightarrow> g (fst (decode_member fs k v r)))"
proof (rule um_members_part)
  fix k' v r
  assume "k' \<noteq> k" and k': "k' \<in> fst ` set ms"
  then show "g (fst (decode_member fs k' v r)) = g r"
    using assms(2) exact_decode [OF assms(1) k'] by (cases "k' \<in> fst ` set fs") auto
next
  show "distinct (map fst ms)" using assms(1) by (simp add: exact_object_def)
qed (rule assms(3))

lemma decode_container:
  assumes "well_formed_container c"
  shows "container_view c (fst (um_struct container_fields c no_container)) \<and>
    (\<forall>a. \<not> snd (um_struct container_fields c a))"
proof -
  from assms obtain ms s where c: "c = JObj ms" and ex: "exact_object container_fields ms"
    and n: "map_of ms ''name'' = Some (JStr s)"
    and env: "case map_of ms ''env'' of None \<Rightarrow> True | Some (JArr es) \<Rightarrow> \<forall>e \<in> set es. \<exists>m. e = JObj m
      | Some v \<Rightarrow> v = JNull" by (auto simp: well_formed_container_def)
  define pc where "pc = fst (um_members container_fields ms (no_container, False))"
  have keep: "pc_env (fst (um_string (\<lambda>s c. c\<lparr>pc_name := s\<rparr>) v r)) = pc_env r"
    "pc_name (fst (um_list pc_env (\<lambda>es c. c\<lparr>pc_env := es\<rparr>) um_any_map [] v r)) = pc_name r" for v r
    by (cases v; simp add: um_list_def split: prod.split)+
  have "pc_name pc = (case map_of ms ''name'' of None \<Rightarrow> pc_name no_container
      | Some v \<Rightarrow> pc_name (fst (decode_member container_fields ''name'' v no_container)))"
  unfolding pc_def
  proof (rule um_exact_part [OF ex])
    show "pc_name r = pc_name r' \<Longrightarrow> pc_name (fst (decode_member container_fields ''name'' v r)) =
        pc_name (fst (decode_member container_fields ''name'' v r'))" for v r r'
      by (cases v) (simp_all add: container_members)
  next
    fix k' v r
    assume "k' \<noteq> ''name''" and "k' \<in> fst ` set container_fields"
    then have k: "k' = ''env''" by (auto simp: field_names)
    show "pc_name (fst (decode_member container_fields k' v r)) = pc_name r"
      unfolding k by (simp add: container_members keep)
  qed
  then have name: "pc_name pc = s" by (simp add: n container_members)
  have "pc_env pc = (case map_of ms ''env'' of None \<Rightarrow> pc_env no_container
      | Some v \<Rightarrow> pc_env (fst (decode_member container_fields ''env'' v no_container)))"
  unfolding pc_def
  proof (rule um_exact_part [OF ex])
    show "pc_env r = pc_env r' \<Longrightarrow> pc_env (fst (decode_member container_fields ''env'' v r)) =
        pc_env (fst (decode_member container_fields ''env'' v r'))" for v r r'
      by (cases v) (simp_all add: container_members um_list_def split: prod.split)
  next
    fix k' v r
    assume "k' \<noteq> ''env''" and "k' \<in> fst ` set container_fields"
    then have k: "k' = ''name''" by (auto simp: field_names)
    show "pc_env (fst (decode_member container_fields k' v r)) = pc_env r"
      unfolding k by (simp add: container_members keep)
  qed
  then have pe: "pc_env pc = (case map_of ms ''env'' of None \<Rightarrow> [] | Some v \<Rightarrow>
      pc_env (fst (um_list pc_env (\<lambda>es c. c\<lparr>pc_env := es\<rparr>) um_any_map [] v no_container)))"
    by (simp add: container_members no_container_def split: option.split)
  have arr: "pc_env (fst (um_list pc_env (\<lambda>es c. c\<lparr>pc_env := es\<rparr>) um_any_map [] (JArr es) no_container)) =
      fst (um_elems um_any_map [] es [])" for es
    by (simp add: um_list_def no_container_def split_beta)
  have null: "pc_env (fst (um_list pc_env (\<lambda>es c. c\<lparr>pc_env := es\<rparr>) um_any_map [] JNull no_container)) = []"
    by (simp add: um_list_def)
  have any: "\<forall>e \<in> set es. \<exists>m. e = JObj m \<Longrightarrow> \<forall>e \<in> set es. \<forall>a. \<not> snd (um_any_map e a)" for es
    by (auto simp: um_any_map_def)
  have "container_view c pc"
    using env um_elems_ok [OF any, of _ "[]" "[]"]
    by (auto simp: container_view_def c n name pe arr null split: option.splits json.splits)
  moreover have "\<not> snd (um_members container_fields ms (a, False))" for a
  proof (rule um_exact_ok [OF ex])
    fix k v r
    assume "k \<in> fst ` set container_fields" and kv: "map_of ms k = Some v"
    then consider "k = ''name''" | "k = ''env''" by (auto simp: field_names)
    then show "\<not> snd (decode_member container_fields k v r)"
    proof cases
      case 1
      with kv n have "v = JStr s" by simp
      with 1 show ?thesis by (simp add: container_members)
    next
      case 2
      with kv env um_elems_ok [OF any, of _ "[]" "pc_env r"] show ?thesis
        by (auto simp: container_members um_list_def split_beta split: json.splits)
    qed
  qed
  ultimately show ?thesis by (simp add: c pc_def)
qed

lemma um_struct_cong:
  assumes "\<forall>f \<in> set fs. \<forall>v r r'. g r = g r' \<longrightarrow> g (fst (snd f v r)) = g (fst (snd f v r'))"
    and "g r = g r'"
  shows "g (fst (um_struct fs v r)) = g (fst (um_struct fs v r'))"
proof (cases v)
  case (JObj ms)
  have "g (fst (um_members fs ms (r, e))) = g (fst (um_members fs ms (r', e')))" for e e'
    using assms(2)
  proof (induction ms arbitrary: r r' e e')
    case (Cons m ms)
    obtain k w where m: "m = (k, w)" by (cases m)
    have "g (fst (decode_member fs k w r)) = g (fst (decode_member fs k w r'))"
    proof (cases "find_field fs k")
      case (Some f)
      with assms(1) Cons.prems have "g (fst (snd f w r)) = g (fst (snd f w r'))"
        using find_field_in by metis
      with Some show ?thesis by (cases f) (simp add: decode_member_def)
    qed (simp add: decode_member_def Cons.prems)
    then show ?case using Cons.IH by (simp add: m um_members_Cons del: um_members.simps)
  qed simp
  then show ?thesis by (simp add: JObj)
qed (use assms(2) in simp_all)

lemma um_text_members_ok:
  assumes "distinct (map fst ms)" and "\<forall>l \<in> set ms. \<exists>s. snd l = JStr s"
  shows "\<not> snd (um_text_members ms m) \<and>
    (\<forall>k. map_option JStr (map_of (fst (um_text_members ms m)) k) =
      (case map_of ms k of None \<Rightarrow> map_option JStr (map_of m k) | Some v \<Rightarrow> Some v))"
  using assms
proof (induction ms arbitrary: m)
  case (Cons l ms)
  obtain k s where l: "l = (k, JStr s)" using Cons.prems(2) by (cases l) auto
  have "map_of ms k = None" using Cons.prems(1) by (auto simp: l map_of_eq_None_iff)
  then show ?case using Cons.IH [of "map_set k s m"] Cons.prems
    by (auto simp: l split_beta split: option.split)
qed (simp split: option.split)

lemma um_string_keeps:
  "(\<And>s r. g (f s r) = g r) \<Longrightarrow> g (fst (um_string f v r)) = g r"
  by (cases v) simp_all

lemma metadata_parts:
  "pl_containers (fst (um_struct metadata_fields v r)) = pl_containers r"
  "pl_labels r = pl_labels r' \<Longrightarrow>
   pl_labels (fst (um_struct metadata_fields v r)) = pl_labels (fst (um_struct metadata_fields v r'))"
proof -
  show "pl_containers (fst (um_struct metadata_fields v r)) = pl_containers r"
    by (rule um_struct_keeps)
      (simp add: metadata_fields_def um_string_keeps um_text_map_def split_beta split: json.split)
  show "pl_labels r = pl_labels r' \<Longrightarrow>
    pl_labels (fst (um_struct metadata_fields v r)) = pl_labels (fst (um_struct metadata_fields v r'))"
    by (rule um_struct_cong)
      (simp_all add: metadata_fields_def um_string_keeps um_text_map_def split_beta split: json.split)
qed

lemma spec_parts:
  "pl_labels (fst (um_struct spec_fields v r)) = pl_labels r"
  "pl_containers r = pl_containers r' \<Longrightarrow>
   pl_containers (fst (um_struct spec_fields v r)) = pl_containers (fst (um_struct spec_fields v r'))"
proof -
  show "pl_labels (fst (um_struct spec_fields v r)) = pl_labels r"
    by (rule um_struct_keeps) (simp add: spec_fields_def um_list_def split_beta split: json.split)
  show "pl_containers r = pl_containers r' \<Longrightarrow>
    pl_containers (fst (um_struct spec_fields v r)) = pl_containers (fst (um_struct spec_fields v r'))"
    by (rule um_struct_cong) (simp_all add: spec_fields_def um_list_def split_beta split: json.split)
qed

lemma decode_metadata:
  assumes "exact_object metadata_fields mm" and "text_or_none (map_of mm ''name'')"
    and "text_or_none (map_of mm ''namespace'')" and "well_formed_labels (map_of mm ''labels'')"
  shows "labels_view (JObj mm) (pl_labels (fst (um_struct metadata_fields (JObj mm) no_pod)))"
    and "\<not> snd (um_struct metadata_fields (JObj mm) r)"
proof -
  define p where "p = fst (um_members metadata_fields mm (no_pod, False))"
  have "pl_labels p = (case map_of mm ''labels'' of None \<Rightarrow> pl_labels no_pod
      | Some v \<Rightarrow> pl_labels (fst (decode_member metadata_fields ''labels'' v no_pod)))"
    unfolding p_def
  proof (rule um_exact_part [OF assms(1)])
    fix k' v r
    assume "k' \<noteq> ''labels''" and "k' \<in> fst ` set metadata_fields"
    then consider "k' = ''name''" | "k' = ''namespace''" by (auto simp: field_names)
    then show "pl_labels (fst (decode_member metadata_fields k' v r)) = pl_labels r"
      by cases (simp_all add: metadata_members um_string_keeps)
  next
    show "pl_labels r = pl_labels r' \<Longrightarrow> pl_labels (fst (decode_member metadata_fields ''labels'' v r)) =
        pl_labels (fst (decode_member metadata_fields ''labels'' v r'))" for v r r'
      by (simp add: metadata_members um_text_map_def split_beta split: json.split)
  qed
  then have pl: "pl_labels p = (case map_of mm ''labels'' of Some (JObj ls) \<Rightarrow> Some (fst (um_text_members ls []))
      | _ \<Rightarrow> None)"
    by (auto simp: metadata_members um_text_map_def no_pod_def split_beta split: option.splits json.splits)
  have ls: "\<forall>k. map_of ls k = map_option JStr (map_of (fst (um_text_members ls [])) k)"
    if "map_of mm ''labels'' = Some (JObj ls)" for ls
    using assms(4) um_text_members_ok [of ls "[]"] that by (simp add: well_formed_labels_def split: option.splits)
  show "labels_view (JObj mm) (pl_labels (fst (um_struct metadata_fields (JObj mm) no_pod)))"
    using assms(4) ls
    by (auto simp: labels_view_def p_def [symmetric] pl well_formed_labels_def split: option.splits json.splits)
  show "\<not> snd (um_struct metadata_fields (JObj mm) r)"
    unfolding um_struct.simps
  proof (rule um_exact_ok [OF assms(1)])
    fix k v r
    assume "k \<in> fst ` set metadata_fields" and kv: "map_of mm k = Some v"
    then consider "k = ''name''" | "k = ''namespace''" | "k = ''labels''" by (auto simp: field_names)
    then show "\<not> snd (decode_member metadata_fields k v r)"
    proof cases
      case 3
      with kv assms(4) um_text_members_ok show ?thesis
        by (auto simp: metadata_members um_text_map_def well_formed_labels_def split_beta split: json.splits)
    qed (use kv assms(2,3) in \<open>auto simp: metadata_members text_or_none_def split: json.splits\<close>)
  qed
qed

lemma decode_spec:
  assumes "exact_object spec_fields sp" and "map_of sp ''containers'' = Some (JArr cs)"
    and "\<forall>c \<in> set cs. well_formed_container c"
  shows "list_all2 container_view cs (pl_containers (fst (um_struct spec_fields (JObj sp) no_pod)))"
    and "\<not> snd (um_struct spec_fields (JObj sp) r)"
proof -
  have "pl_containers (fst (um_members spec_fields sp (no_pod, False))) = (case map_of sp ''containers'' of
      None \<Rightarrow> pl_containers no_pod
    | Some v \<Rightarrow> pl_containers (fst (decode_member spec_fields ''containers'' v no_pod)))"
  proof (rule um_exact_part [OF assms(1)])
    show "pl_containers r = pl_containers r' \<Longrightarrow> pl_containers (fst (decode_member spec_fields ''containers'' v r)) =
        pl_containers (fst (decode_member spec_fields ''containers'' v r'))" for v r r'
      by (simp add: spec_members um_list_def split_beta split: json.split)
  qed (simp add: field_names)
  also have "\<dots> = map (\<lambda>c. fst (um_struct container_fields c no_container)) cs"
    using um_elems_fresh [of cs "um_struct container_fields" no_container] decode_container assms(3)
    by (simp add: assms(2) spec_members um_list_def no_pod_def split_beta)
  finally show "list_all2 container_view cs (pl_containers (fst (um_struct spec_fields (JObj sp) no_pod)))"
    using decode_container assms(3) by (simp add: list_all2_map2 list_all2_same)
  show "\<not> snd (um_struct spec_fields (JObj sp) r)"
    unfolding um_struct.simps
  proof (rule um_exact_ok [OF assms(1)])
    fix k v r
    assume "k \<in> fst ` set spec_fields" and "map_of sp k = Some v"
    then have "k = ''containers''" "v = JArr cs" using assms(2) by (auto simp: field_names)
    then show "\<not> snd (decode_member spec_fields k v r)"
      using um_elems_ok [of cs "um_struct container_fields"] decode_container assms(3)
      by (simp add: spec_members um_list_def split_beta)
  qed
qed

lemma decode_pod_view:
  assumes "well_formed_pod d"
  obtains pod where "decode_pod d = (pod, False)" and "pod_view d pod"
proof -
  from assms obtain tp mm sp cs where d: "d = JObj tp" and ex: "exact_object pod_fields tp"
    and mm: "map_of tp ''metadata'' = Some (JObj mm)" "exact_object metadata_fields mm"
      "text_or_none (map_of mm ''name'')" "text_or_none (map_of mm ''namespace'')"
      "well_formed_labels (map_of mm ''labels'')"
    and sp: "map_of tp ''spec'' = Some (JObj sp)" "exact_object spec_fields sp"
      "map_of sp ''containers'' = Some (JArr cs)" "\<forall>c \<in> set cs. well_formed_container c"
    unfolding well_formed_pod_def by blast
  define pod where "pod = fst (um_members pod_fields tp (no_pod, False))"
  have "pl_labels pod = (case map_of tp ''metadata'' of None \<Rightarrow> pl_labels no_pod
      | Some v \<Rightarrow> pl_labels (fst (decode_member pod_fields ''metadata'' v no_pod)))"
    unfolding pod_def
  proof (rule um_exact_part [OF ex])
    fix k' v r
    assume "k' \<noteq> ''metadata''" and "k' \<in> fst ` set pod_fields"
    then have k: "k' = ''spec''" by (auto simp: field_names)
    show "pl_labels (fst (decode_member pod_fields k' v r)) = pl_labels r"
      unfolding k pod_members by (rule spec_parts)
  qed (unfold pod_members, rule metadata_parts)
  then have lv: "labels_view (JObj mm) (pl_labels pod)"
    using decode_metadata(1) [OF mm(2-5)] mm(1) by (simp add: pod_members)
  have "pl_containers pod = (case map_of tp ''spec'' of None \<Rightarrow> pl_containers no_pod
      | Some v \<Rightarrow> pl_containers (fst (decode_member pod_fields ''spec'' v no_pod)))"
    unfolding pod_def
  proof (rule um_exact_part [OF ex])
    fix k' v r
    assume "k' \<noteq> ''spec''" and "k' \<in> fst ` set pod_fields"
    then have k: "k' = ''metadata''" by (auto simp: field_names)
    show "pl_containers (fst (decode_member pod_fields k' v r)) = pl_containers r"
      unfolding k pod_members by (rule metadata_parts)
  qed (unfold pod_members, rule spec_parts)
  then have cv: "list_all2 container_view cs (pl_containers pod)"
    using decode_spec(1) [OF sp(2-4)] sp(1) by (simp add: pod_members)
  have "\<not> snd (um_members pod_fields tp (no_pod, False))"
  proof (rule um_exact_ok [OF ex])
    fix k v r
    assume "k \<in> fst ` set pod_fields" and kv: "map_of tp k = Some v"
    then consider "k = ''metadata''" | "k = ''spec''" by (auto simp: field_names)
    then show "\<not> snd (decode_member pod_fields k v r)"
    proof cases
      case 1
      with kv mm(1) have "v = JObj mm" by simp
      with 1 decode_metadata(2) [OF mm(2-5)] show ?thesis by (simp add: pod_members)
    next
      case 2
      with kv sp(1) have "v = JObj sp" by simp
      with 2 decode_spec(2) [OF sp(2-4)] show ?thesis by (simp add: pod_members)
    qed
  qed
  then have "decode_pod d = (pod, False)" by (simp add: decode_pod_def d pod_def prod_eq_iff)
  moreover have "pod_view d pod"
    using lv cv mm(1) sp(1,3) by (auto simp: pod_view_def d containers_path_def child_def)
  ultimately show thesis by (rule that)
qed

section \<open>Properties\<close>

lemma review_response_admits:
  "ar_uid (review_response cfg req) = aq_uid req \<and> ar_allowed (review_response cfg req)"
  by (simp add: review_response_def admit_def split: option.split prod.split sum.split)

lemma mutate_admits:
  assumes "mutate_handler cfg err_text body = Review s"
  shows "\<exists>text review req v rest. body = Inr text \<and>
    unmarshal review_fields text no_review = (review, False) \<and> av_request review = Some req \<and>
    s = encode True (JObj [(''apiVersion'', JStr v), (''kind'', JStr ''AdmissionReview''),
      (''response'', JObj ((''uid'', JStr (aq_uid req)) # (''allowed'', JBool True) # rest))]) @ [CHR 0x0A]"
proof -
  from assms obtain tx review req where b: "body = Inr tx"
    "unmarshal review_fields tx no_review = (review, False)" "av_request review = Some req"
    "write_review (av_api_version review) (review_response cfg req) = Review s"
    by (auto simp: mutate_handler_def split: sum.splits prod.splits option.splits if_splits)
  obtain rest where r: "resp_tree (review_response cfg req) =
      JObj ((''uid'', JStr (aq_uid req)) # (''allowed'', JBool True) # rest)"
    using review_response_admits [of cfg req] by (simp add: resp_tree_def)
  obtain v where "s = encode True (JObj [(''apiVersion'', JStr v), (''kind'', JStr ''AdmissionReview''),
      (''response'', resp_tree (review_response cfg req))]) @ [CHR 0x0A]"
    using b(4) by (auto simp: write_review_def Let_def simp del: encode.simps)
  with b(1-3) r show ?thesis by metis
qed

text \<open>
  The webhook never blocks a pod: whatever review it answers, the answer allows the request of
  that review, under its uid; a request is refused with an error only when the body cannot be read
  or decoded, or carries no request.
\<close>

theorem mutate_never_blocks:
  assumes "mutate_handler cfg err_text body = Review s"
  shows "\<exists>text review req v rest. body = Inr text \<and>
    unmarshal review_fields text no_review = (review, False) \<and> av_request review = Some req \<and>
    s = encode True (JObj [(''apiVersion'', JStr v), (''kind'', JStr ''AdmissionReview''),
      (''response'', JObj ((''uid'', JStr (aq_uid req)) # (''allowed'', JBool True) # rest))]) @ [CHR 0x0A]"
  using mutate_admits [OF assms] .

text \<open>
  C10. End to end: for a review whose object is a well-formed pod without the sidecar (and no CA
  Secret configured), the response carries the text of a patch which, applied to that object, gives
  a pod with every container injected and the sidecar appended.
\<close>

theorem mutate_injects:
  assumes "aq_object req = Some d" and "well_formed_pod d" and "at_path containers_path d = Some (JArr cs)"
    and "\<forall>c \<in> set cs. child ''name'' c \<noteq> Some (JStr engine_container_name)"
    and "cf_mitm_ca_secret_name cfg = []"
  shows "\<exists>ops d'. ar_patch (review_response cfg req) = encode True (JArr (map op_tree ops)) \<and>
    ar_patch_type (review_response cfg req) = ''JSONPatch'' \<and>
    apply_patch (map op_pair ops) d = Some d' \<and>
    at_path containers_path d' = Some (JArr (map (inject cfg) cs @ [engine_tree cfg]))"
proof -
  obtain pod where pod: "decode_pod d = (pod, False)" "pod_view d pod" using decode_pod_view [OF assms(2)] .
  have v: "list_all2 container_view cs (pl_containers pod)" using pod(2) assms(3) by (auto simp: pod_view_def)
  have "\<not> already_injected pod"
  proof
    assume "already_injected pod"
    then obtain pc where "pc \<in> set (pl_containers pod)" "pc_name pc = engine_container_name"
      by (auto simp: already_injected_def list_ex_iff)
    with v obtain c where "c \<in> set cs" "container_view c pc" by (metis list_all2_conv_all_nth in_set_conv_nth)
    with assms(4) \<open>pc_name pc = engine_container_name\<close> show False
      by (auto simp: container_view_def child_def)
  qed
  then have "build_patch pod cfg = Inr (Some (encode True (JArr (map op_tree (build_ops pod cfg)))))"
    using marshal_ops [of "build_ops pod cfg"] value_tree_total by (simp add: build_patch_def)
  then have "ar_patch (review_response cfg req) = encode True (JArr (map op_tree (build_ops pod cfg))) \<and>
      ar_patch_type (review_response cfg req) = ''JSONPatch''"
    by (simp add: review_response_def assms(1) pod(1) del: encode.simps)
  then show ?thesis using apply_build [OF pod(2) assms(3), of cfg] assms(5) by metis
qed


section \<open>Concrete reviews\<close>

theorem mutate_never_blocks_witness:
  "\<exists>s. mutate_handler (demo_config []) [] (Inr (encode False (JObj [(''request'', JObj [])]))) = Review s \<and> s \<noteq> []"
proof -
  let ?body = "encode False (JObj [(''request'', JObj [])])"
  have "unmarshal review_fields ?body no_review = um_struct review_fields (coerce (JObj [(''request'', JObj [])])) no_review"
    unfolding unmarshal_def by (subst parse_encode) (simp_all add: max_nesting_def del: encode.simps)
  then have "unmarshal review_fields ?body no_review = (no_review\<lparr>av_request := Some no_req\<rparr>, False)"
    by (simp add: review_fields_def decode_simps um_pointer_def no_review_def del: encode.simps)
  then have "\<exists>s. mutate_handler (demo_config []) [] (Inr ?body) = Review s"
    by (simp add: mutate_handler_def write_review_def Let_def no_review_def del: encode.simps)
  then show ?thesis using mutate_never_blocks [of "demo_config []" "[]" "Inr ?body"] by blast
qed

lemma bare_well_formed: "well_formed_pod bare_doc"
  by (auto simp: well_formed_pod_def bare_doc_def exact_object_def field_names text_or_none_def well_formed_labels_def)

theorem mutate_injects_witness:
  "\<exists>ops d'. ar_patch (review_response (demo_config []) (no_req\<lparr>aq_object := Some bare_doc\<rparr>)) =
       encode True (JArr (map op_tree ops)) \<and>
     apply_patch (map op_pair ops) bare_doc = Some d' \<and>
     at_path containers_path d' = Some (JArr [engine_tree (demo_config [])])"
proof -
  have "at_path containers_path bare_doc = Some (JArr [])" "cf_mitm_ca_secret_name (demo_config []) = []"
    by (simp_all add: bare_doc_def containers_path_def child_def demo_config_def)
  then show ?thesis
    using mutate_injects [of "no_req\<lparr>aq_object := Some bare_doc\<rparr>" bare_doc "[]" "demo_config []"] bare_well_formed
    by (simp del: encode.simps) metis
qed


end
