(* ===== verification/Webhook_Process.thy ===== *)
theory Webhook_Process
  imports Webhook_Review Server_Process
begin

text \<open>
  The life of the webhook process: \<open>run\<close> of \<open>cmd/aegrail-webhook/main.go\<close> from the listener to the
  exit. The handlers share nothing but the configuration; the state is the list of their answers.
\<close>

section \<open>The process\<close>

inductive answer_step :: "config \<Rightarrow> webhook_answer list \<Rightarrow> webhook_answer list \<Rightarrow> bool" for cfg where
  Answer: "answer_step cfg as (as @ [webhook_serve cfg rmethod star path err_text body])"

inductive_simps answer_step_iff: "answer_step cfg as bs"

definition webhook_process :: "config \<Rightarrow> webhook_answer list process \<Rightarrow> bool" where
  "webhook_process cfg q \<longleftrightarrow> server_run (answer_step cfg) (\<lambda>s. s) (\<lambda>s. s) (new_process []) q"

text \<open>The status with which \<open>main\<close> exits: an error of \<open>run\<close>, at the start or at the end, is fatal.\<close>

definition webhook_status :: "env \<Rightarrow> webhook_answer list process \<Rightarrow> nat option" where
  "webhook_status env q = (case webhook_startup env of Inl _ \<Rightarrow> Some 1 | Inr _ \<Rightarrow> process_status q)"

lemma webhook_status_zero:
  assumes "webhook_startup env = Inr (cert, key, listen, cfg)" and "webhook_process cfg q"
    and "webhook_status env q = Some 0"
  shows "ps_listener q = Closed \<and> ps_active q = 0 \<and> ps_accepted q = ps_hijacked q + ps_done q"
  using status_zero_drained [OF assms(2) [unfolded webhook_process_def]] assms(1,3)
  by (simp add: webhook_status_def)

text \<open>A review among the answers is one of a request, and allows it under its uid.\<close>

definition admits :: "webhook_answer \<Rightarrow> bool" where
  "admits a \<longleftrightarrow> (\<forall>s. a = Mutate (Review s) \<longrightarrow>
     (\<exists>text review req v rest. unmarshal review_fields text no_review = (review, False) \<and>
        av_request review = Some req \<and>
        s = encode True (JObj [(''apiVersion'', JStr v), (''kind'', JStr ''AdmissionReview''),
          (''response'', JObj ((''uid'', JStr (aq_uid req)) # (''allowed'', JBool True) # rest))]) @ [CHR 0x0A]))"

lemma serve_admits: "admits (webhook_serve cfg rmethod star path err_text body)"
  unfolding admits_def
proof (intro allI impI)
  fix s
  assume "webhook_serve cfg rmethod star path err_text body = Mutate (Review s)"
  then have "mutate_handler cfg err_text body = Review s"
    by (auto simp: webhook_serve_def ok_handler_def Let_def split: route.splits if_splits)
  from mutate_admits [OF this]
  show "\<exists>text review req v rest. unmarshal review_fields text no_review = (review, False) \<and>
        av_request review = Some req \<and>
        s = encode True (JObj [(''apiVersion'', JStr v), (''kind'', JStr ''AdmissionReview''),
          (''response'', JObj ((''uid'', JStr (aq_uid req)) # (''allowed'', JBool True) # rest))]) @ [CHR 0x0A]"
    by blast
qed

interpretation wh: server "answer_step cfg" "\<lambda>s. s" "\<lambda>s. s" "\<lambda>as. \<forall>a \<in> set as. admits a"
    "\<lambda>as. \<forall>a \<in> set as. admits a"
  for cfg :: config
  by unfold_locales (auto simp: answer_step_iff serve_admits)

section \<open>Properties\<close>



end
