(* ===== verification/Spec2Isabelle.thy ===== *)
theory Spec2Isabelle
  imports Engine_Process Engine_Leaf Engine_Ledger Webhook_Process
begin

text \<open>
  A verification development of the Aegrail engine: a forward proxy, written in Go, that lets an
  agent reach only the hosts of an allowlist, caps its requests and its use of language models, and
  records every decision in a log whose lines are chained by SHA-256; and of the admission webhook
  that injects this proxy into pods as a sidecar.

  \<^bold>\<open>The program.\<close> \<open>cmd/aegrail-engine\<close> reads flags and environment, opens a sink of
  \<open>internal/audit\<close>, builds a \<open>Proxy\<close> of \<open>internal/proxy\<close> with a \<open>Policy\<close>, the three budgets of
  \<open>internal/limits\<close> and, for hosts whose TLS it terminates, an \<open>Authority\<close> of \<open>internal/mitm\<close>, and
  serves until a signal. \<open>ServeHTTP\<close> checks counter, rate and token budget, and then either
  forwards a plain request (reading token counts off responses with \<open>internal/llmparse\<close>), tunnels a
  CONNECT, or terminates it and forwards the requests inside. Each outcome is emitted as one event to
  the sink. \<open>cmd/aegrail-webhook\<close> decodes admission reviews and answers with the JSON patch that
  \<open>internal/webhook\<close> builds; the environment of the injected container is what configures the
  engine there.

  \<^bold>\<open>The library layer.\<close> \<open>Prelude\<close> holds the result type, wrapping integers, Go maps as association
  lists and the shared collections of rules. What the source uses of Go's standard library is
  modelled in theories of its own: strings, numbers and UTF-8 (\<open>Go_Strings\<close>, \<open>Go_Text\<close>),
  \<open>path.Match\<close> as its chunk-wise algorithm (\<open>Path_Match\<close>) with a declarative reading of patterns and
  the proof that both agree (\<open>Path_Glob\<close>), \<open>float64\<close> with rounding and \<open>ParseFloat\<close> (\<open>Float64\<close>,
  \<open>Go_Float\<close>), URLs, addresses and headers (\<open>Go_Net\<close>), path cleaning and the mux (\<open>Go_Mux\<close>),
  \<open>encoding/json\<close> (\<open>Json\<close>, \<open>Json_Values\<close>, with the round trip in \<open>Json_Roundtrip\<close>), base64 and
  SHA-256 (\<open>Go_Base64\<close>, \<open>Sha256\<close>), and the application of JSON patches (\<open>Json_Patch\<close>).

  \<^bold>\<open>The components.\<close>
  \<^item> \<open>Policy\<close> (\<open>policy.go\<close>): \<open>policy_new\<close>, \<open>policy_allows\<close>. The locales \<open>host_matcher\<close> and
    \<open>spec_matcher\<close> are what it asks of a matcher; \<open>path_match\<close> provides it.
  \<^item> \<open>Egress_Limits\<close> (\<open>limits.go\<close>): counter and budget on 64-bit words, the token bucket on floats,
    the rate syntax. The bucket is bounded against exact arithmetic by the locale \<open>rounding\<close>.
  \<^item> \<open>Audit_Chain\<close> (\<open>event.go\<close>, \<open>canonical.go\<close>, \<open>chain.go\<close>) and \<open>Audit_Sink\<close> (the sinks): a record
    per event, the canonical body, the hash, verification, both sinks with the outcome of each write
    and fsync as an input, and the recovery of the last hash. \<open>linked_log\<close> is the theory of a chained
    log; \<open>audit_sink\<close> and \<open>verified_sink\<close> are the contract of a sink, which both sinks and the
    engine's choice of either meet.
  \<^item> \<open>Llm_Parse\<close> (\<open>parse.go\<close>): recognition of endpoints and usage from bodies and headers.
  \<^item> \<open>Proxy_Base\<close> (\<open>session.go\<close>, helpers of \<open>proxy.go\<close> and \<open>http.go\<close>), \<open>Proxy_Http\<close> (\<open>http.go\<close>),
    \<open>Proxy_Tunnel\<close> (the two relays as a transition system), \<open>Proxy_Mitm\<close> (\<open>mitm.go\<close>),
    \<open>Proxy_Connect\<close> (\<open>connect.go\<close>), \<open>Proxy\<close> (\<open>ServeHTTP\<close>). The state is the \<open>Proxy\<close> struct with a
    clock and a trace of effects; what the network does is an input. Every handler is shown to be a
    sequence of elementary steps (\<open>handler_step\<close>, \<open>proxy_step\<close>), each one call of a synchronised
    object or local to its request, so what the steps keep holds under every interleaving. The
    locale \<open>egress_handler\<close> is the contract of a handler on what it contacts, and its extension
    \<open>forwarding_handler\<close> on the requests it sends on; both are met by either path, by \<open>ServeHTTP\<close> and
    by the root handler.
  \<^item> \<open>Mitm_Cert\<close> (\<open>cert.go\<close>): the authority and its cache of leaf certificates; the proxy holds one
    in its TLS configuration and \<open>handle_mitm\<close> calls \<open>leaf_for\<close> on it.
  \<^item> \<open>Proxy_Log\<close>, \<open>Proxy_Safety\<close>: what the log of a run holds, and the properties of the proxy.
    \<open>Proxy_Leaf\<close> and \<open>Proxy_Ledger\<close> extend the contract of a handler once more each: by what it does
    with the authority (\<open>certifying_handler\<close>), and by keeping the token budget and the audited
    tokens in balance (\<open>bookkeeping_handler\<close>).
  \<^item> \<open>Engine_Main\<close>, \<open>Engine_Run\<close> (\<open>cmd/aegrail-engine/main.go\<close>): flags, start-up in the order of \<open>run\<close>
    with its errors, the root handler; then the start and the log of a run. \<open>Engine_Leaf\<close> and
    \<open>Engine_Ledger\<close> carry the two contracts over to the engine: certificates and token counts.
  \<^item> \<open>Server_Process\<close>: the life of a server process, with the handlers as a parameter (the locale
    \<open>server\<close>); \<open>Engine_Process\<close> and \<open>Webhook_Process\<close> instantiate it for the two binaries.
  \<^item> \<open>Webhook\<close> (\<open>mutator.go\<close>), \<open>Webhook_Patch\<close>: the patch, and the document it makes of a pod compared
    with a direct description of an injected pod.
  \<^item> \<open>Webhook_Main\<close>, \<open>Webhook_Review\<close> (\<open>cmd/aegrail-webhook/main.go\<close>): configuration, decoding, the
    handler, and what its answers do.

  This theory adds what spans the two programs: the environment of the sidecar, and the engine that
  starts from it.

  \<^bold>\<open>What the theorems show.\<close> Egress control from the webhook's setting to the addresses contacted;
  one event per request and a log that at every moment of the process is one verifiable chain of all
  events; tamper evidence relative to SHA-256 (altering, dropping or reordering events of a log
  with the same last hash exhibits a collision); the bounds of the three budgets, with rounding and
  wrap-around; the token budget equal to the sum over the log; recovery of the chain over a restart;
  validity of every certificate presented, for an allowed host only; patches
  that apply and inject, once; a webhook that never blocks a pod. Several theorems state what the
  code does where that is not what it means to do, among them swapped byte counts of tunnels, redirects
  that leave the allowlist, intercepted requests outside the budgets, negative token counts that
  refund the budget, tunnels lost at the exit, and patches that cannot be applied.

  \<^bold>\<open>Bounds and termination.\<close> No definition has fuel: loops over strings and lists are structural or
  terminate by length (a decoded rune is never empty), and the recursions of the JSON decoder end
  with their input. \<open>max_nesting\<close> and \<open>max_line\<close> are limits of the Go library itself (the nesting the
  decoder accepts, the longest line the scanner accepts). Integers of the code are \<open>64 word\<close>; instants
  and durations are unbounded integers of nanoseconds, saturated by \<open>time_sub\<close> where Go saturates.

  \<^bold>\<open>What is not modelled, and why.\<close> The outcomes of system and network operations are inputs, and so is
  the cryptography of certificates and the parsing of PEM, X.509, IP addresses and durations: the
  source only calls them. \<open>httputil.ReverseProxy\<close> and \<open>http.Client\<close> are modelled as far as they decide
  which callbacks run and which addresses are contacted, not in
  how they copy headers: a request sent on is recorded as the proxy hands it over. Mutexes and
  atomics are not modelled as such: a call of a synchronised object is one step. The deadline of the
  drain is a step that may happen at any time, and signals before the handler is installed are left
  out. Case folding in \<open>ToLower\<close> and the printability of runes above ASCII are restricted or passed
  as arguments, as their theories say. The text that \<open>log.Printf\<close> writes is not modelled, only that it is
  called. Tests, the Helm chart and the documentation are not code of the two programs.
\<close>

section \<open>The sidecar and its engine\<close>

text \<open>
  The environment of an injected container: a variable with a value source reads the pod label the
  source names, given as an argument.
\<close>

definition container_env :: "string \<Rightarrow> env_var list \<Rightarrow> string \<Rightarrow> string" where
  "container_env label_value es key =
     (case find (\<lambda>e. en_name e = key) es of
        None \<Rightarrow> []
      | Some e \<Rightarrow> if en_value_from e = [] then en_value e else label_value)"

lemma container_env_simps [simp]:
  "container_env v [] k = []"
  "container_env v (env_text n s # es) k = (if n = k then s else container_env v es k)"
  "container_env v (\<lparr>en_name = n, en_value = s, en_value_from = m # ms\<rparr> # es) k =
     (if n = k then v else container_env v es k)"
  by (simp_all add: container_env_def env_text_def)

lemma container_env_if [simp]:
  "container_env v ((if b then xs else ys) @ zs) k =
     (if b then container_env v (xs @ zs) k else container_env v (ys @ zs) k)"
  "container_env v (if b then xs else ys) k = (if b then container_env v xs k else container_env v ys k)"
  by simp_all

lemma sidecar_flags:
  "default_flags (container_env v (engine_env cfg)) =
     \<lparr>fl_listen = CHR '':'' # show_int (sint (engine_listen_port cfg)),
      fl_agent_identity = (if v = [] then ''egress-proxy/v1'' else v),
      fl_allowlist = cf_allowlist cfg,
      fl_audit_file = (if cf_audit_mode cfg = ''file'' then cf_audit_file cfg else []),
      fl_audit_stdout = (cf_audit_mode cfg \<noteq> ''file''),
      fl_max_requests = cf_max_requests cfg, fl_rate_limit = cf_rate_limit cfg,
      fl_max_tokens = cf_max_tokens cfg,
      fl_shutdown_timeout = 10 * 10 ^ 9, fl_version = False\<rparr>"
  by (simp add: default_flags_def env_or_def engine_env_def)


lemma sidecar_run:
  assumes "wo_env w = container_env v (engine_env cfg)" and "run_engine io w [] = Serving en"
  shows "en_flags en = default_flags (container_env v (engine_env cfg))"
proof -
  have "start_engine io w (default_flags (container_env v (engine_env cfg))) = Inr en"
    using assms by (auto simp: run_engine_def split: sum.splits if_splits)
  then show ?thesis by (auto simp: start_engine_def Let_def rbind_eq_Inr split: if_splits)
qed

section \<open>Properties that span components\<close>

text \<open>
  C21. What the webhook is configured with is what the injected engine runs with: from the
  environment of the sidecar the engine's flags take the allowlist, the caps, the listen address
  and the audit destination of the webhook's configuration, the identity comes from the pod label,
  exactly one of the two sinks is selected, and TLS termination is asked for, with the mounted CA,
  exactly when a CA secret is configured.
\<close>

theorem sidecar_configures_engine:
  "default_flags (container_env v (engine_env cfg)) =
     \<lparr>fl_listen = CHR '':'' # show_int (sint (engine_listen_port cfg)),
      fl_agent_identity = (if v = [] then ''egress-proxy/v1'' else v),
      fl_allowlist = cf_allowlist cfg,
      fl_audit_file = (if cf_audit_mode cfg = ''file'' then cf_audit_file cfg else []),
      fl_audit_stdout = (cf_audit_mode cfg \<noteq> ''file''),
      fl_max_requests = cf_max_requests cfg, fl_rate_limit = cf_rate_limit cfg,
      fl_max_tokens = cf_max_tokens cfg,
      fl_shutdown_timeout = 10 * 10 ^ 9, fl_version = False\<rparr> \<and>
   open_sink w (fl_audit_file (default_flags (container_env v (engine_env cfg))))
     (fl_audit_stdout (default_flags (container_env v (engine_env cfg)))) \<noteq> Inl BothSinks \<and>
   List.map (container_env v (engine_env cfg)) [''AEGRAIL_ENGINE_MITM_HOSTS'',
       ''AEGRAIL_ENGINE_MITM_CA_CERT_FILE'', ''AEGRAIL_ENGINE_MITM_CA_KEY_FILE''] =
     (if cf_mitm_ca_secret_name cfg \<noteq> []
      then [cf_mitm_hosts cfg, mitm_ca_cert_path cfg, mitm_ca_key_path cfg] else [[], [], []])"
proof (intro conjI)
  show "open_sink w (fl_audit_file (default_flags (container_env v (engine_env cfg))))
     (fl_audit_stdout (default_flags (container_env v (engine_env cfg)))) \<noteq> Inl BothSinks"
    unfolding sidecar_flags by (cases "new_file_sink (wo_mkdir w (cf_audit_file cfg))
      (wo_view w (cf_audit_file cfg)) (wo_open w (cf_audit_file cfg))") (simp_all add: open_sink_def)
qed (rule sidecar_flags, simp add: engine_env_def)

text \<open>
  C5. From the webhook to the wire: an engine started without arguments in the sidecar of a patched
  pod contacts only addresses whose host matches a nonblank piece of the allowlist the webhook was
  configured with, as long as no upstream of a TLS-terminated connection answers with a redirect.
\<close>

theorem sidecar_enforces_allowlist:
  assumes "wo_env w = container_env v (engine_env cfg)" and "run_engine io w [] = Serving en"
    and "\<forall>c \<in> set cs. unredirected (cl_mitm (ec_call c))"
    and "a \<in> set (contacts (px_trace (run_calls root_handler cs (en_proxy en))))"
  shows "\<exists>piece \<in> set (split_on (CHR '','') (cf_allowlist cfg)).
    trim_space piece \<noteq> [] \<and> match_ok (trim_space piece) (host_without_port a)"
  using engine_contacts [OF assms(2,3,4)] by (simp add: sidecar_run [OF assms(1,2)] sidecar_flags)

text \<open>
  The webhook starts without an allowlist, and then every engine it injects refuses to start.
\<close>

theorem sidecar_needs_allowlist:
  assumes "webhook_startup env = Inr (cert, key, addr, cfg)" and "env ''AEGRAIL_ENGINE_ALLOWLIST'' = []"
    and "wo_env w = container_env v (engine_env cfg)"
  shows "run_engine io w [] = Failed EmptyAllowlist"
proof -
  have "cf_allowlist cfg = []" using assms(1,2)
    by (auto simp: webhook_startup_def webhook_config_def Let_def split: if_splits)
  then show ?thesis
    by (simp add: run_engine_def assms(3) sidecar_flags start_engine_def parse_allowlist_empty)
qed

section \<open>Witnesses\<close>

definition sidecar_world :: "config \<Rightarrow> (string, string, string) world" where
  "sidecar_world cfg = demo_world\<lparr>wo_env := container_env ''agent'' (engine_env cfg)\<rparr>"

theorem sidecar_configures_engine_witness:
  "fl_allowlist (default_flags (container_env ''agent'' (engine_env (demo_config [])))) = ''a.io'' \<and>
   fl_audit_stdout (default_flags (container_env ''agent'' (engine_env (demo_config []))))"
  using sidecar_configures_engine [of "''agent''" "demo_config []" demo_world]
  by (simp add: demo_config_def)

theorem sidecar_needs_allowlist_witness:
  "\<exists>cert key addr cfg. webhook_startup (\<lambda>k. if k = ''AEGRAIL_ENGINE_IMAGE'' then ''i'' else []) = Inr (cert, key, addr, cfg) \<and>
     run_engine demo_io (sidecar_world cfg) [] = (Failed EmptyAllowlist :: engine outcome)"
proof -
  let ?env = "\<lambda>k. if k = ''AEGRAIL_ENGINE_IMAGE'' then ''i'' else []"
  obtain cert key addr cfg where s: "webhook_startup ?env = Inr (cert, key, addr, cfg)"
    by (simp add: webhook_startup_def webhook_config_def require_env_def Let_def)
  have "run_engine demo_io (sidecar_world cfg) [] = (Failed EmptyAllowlist :: engine outcome)"
    by (rule sidecar_needs_allowlist [OF s]) (simp_all add: sidecar_world_def)
  with s show ?thesis by blast
qed

theorem sidecar_enforces_allowlist_witness:
  "\<exists>(en :: engine) a. run_engine demo_io (sidecar_world (demo_config [])) [] = Serving en \<and>
     a \<in> set (contacts (px_trace (run_calls root_handler
       [demo_engine_call method_connect ''a.io:80'' []] (en_proxy en)))) \<and>
     match_ok ''a.io'' (host_without_port a)"
proof -
  let ?cs = "[demo_engine_call method_connect ''a.io:80'' []]" and ?w = "sidecar_world (demo_config [])"
  have w: "wo_env ?w = container_env ''agent'' (engine_env (demo_config []))"
    by (simp add: sidecar_world_def)
  have c: "cf_allowlist (demo_config []) = ''a.io''" "cf_audit_mode (demo_config []) = []"
    "cf_max_requests (demo_config []) = []" "cf_rate_limit (demo_config []) = []"
    "cf_max_tokens (demo_config []) = []" "cf_mitm_ca_secret_name (demo_config []) = []"
    by (simp_all add: demo_config_def)
  have pol: "policy_new [''a.io''] = Inr \<lparr>pol_patterns = [''a.io'']\<rparr>"
    by (simp add: policy_new_ok wf_literal literal_def is_meta_def is_star_def)
  have mitm: "build_mitm_config ?w = (Inr None :: (cert_error, mitm_config option) result)"
    by (simp add: build_mitm_config_def w engine_env_def c)
  obtain en :: "engine" where en: "run_engine demo_io ?w [] = Serving en"
    "px_policy (en_proxy en) = Some \<lparr>pol_patterns = [''a.io'']\<rparr>" "configured (en_proxy en)"
    "px_counter (en_proxy en) = None" "px_limiter (en_proxy en) = None" "px_budget (en_proxy en) = None"
    "px_mitm (en_proxy en) = None" "contacts (px_trace (en_proxy en)) = []"
    using pol mitm
    by (simp add: run_engine_def w sidecar_flags c start_engine_def open_sink_def new_session_def
      parse_cap_def parse_rate_spec_def sidecar_world_def demo_world_def configured_def)
  have t: "contacts (px_trace (run_calls root_handler ?cs (en_proxy en))) = [''a.io:80'']"
    using en(2-8) by (simp add: run_calls_def root_handler_def demo_engine_call_def concrete_run)
  have "\<exists>piece \<in> set (split_on (CHR '','') (cf_allowlist (demo_config []))).
      trim_space piece \<noteq> [] \<and> match_ok (trim_space piece) (host_without_port ''a.io:80'')"
  proof (rule sidecar_enforces_allowlist [OF w en(1)])
    show "\<forall>c \<in> set ?cs. unredirected (cl_mitm (ec_call c))"
      by (simp add: demo_engine_call_def demo_call_def)
    show "''a.io:80'' \<in> set (contacts (px_trace (run_calls root_handler ?cs (en_proxy en))))"
      unfolding t by simp
  qed
  then have "match_ok ''a.io'' (host_without_port ''a.io:80'')"
    by (simp add: c trim_space_all_visible visible_def)
  with en(1) t show ?thesis by (intro exI [of _ en] exI [of _ "''a.io:80''"]) simp
qed

end
